(* ===== verification/Wt_Prelude.thy ===== *)
theory Wt_Prelude
  imports Main "HOL-Library.Word" "HOL-Library.Multiset"
begin

text \<open>
  Shared vocabulary of the development: machine integers and the casts and saturating
  operations of Rust that the sources use, the SQL statement forms that
  \<^verbatim>\<open>src/crates/wt-core/src/store.rs\<close> is written in (insert-or-ignore, update, delete,
  ordered select, single-row query) as operations on row lists, and the generic lemmas the
  component theories rest on.  Two interfaces are stated here as locales:
  \<open>unique_table\<close>, a table whose rows are pairwise free of constraint conflicts, and
  \<open>seq_log\<close>, a log that hands out \<open>MAX(seq) + 1\<close> within a scope.
\<close>

section \<open>Machine integers\<close>

type_synonym u8 = "8 word"
type_synonym u32 = "32 word"
type_synonym u64 = "64 word"
type_synonym bytes = "8 word list"

named_theorems cast_simps
named_theorems sql_defs
named_theorems op_defs
named_theorems row_simps

text \<open>\<open>x as i64\<close> on a \<open>u64\<close> and \<open>i as u64\<close> on an \<open>i64\<close>: the same bits.\<close>

definition as_i64 :: "u64 \<Rightarrow> int" where
  "as_i64 x = sint x"

definition as_u64 :: "int \<Rightarrow> u64" where
  "as_u64 i = word_of_int i"

definition max_i64 :: int where
  "max_i64 = 9223372036854775807"

definition u64_max :: u64 where
  "u64_max = 18446744073709551615"

definition saturating_add :: "u64 \<Rightarrow> u64 \<Rightarrow> u64" where
  "saturating_add a b = (if uint a + uint b \<le> 18446744073709551615 then a + b else u64_max)"

definition saturating_sub :: "u64 \<Rightarrow> u64 \<Rightarrow> u64" where
  "saturating_sub a b = (if b \<le> a then a - b else 0)"

definition saturating_mul :: "u64 \<Rightarrow> u64 \<Rightarrow> u64" where
  "saturating_mul a b = (if uint a * uint b \<le> 18446744073709551615 then a * b else u64_max)"

definition checked_mul :: "u64 \<Rightarrow> u64 \<Rightarrow> u64 option" where
  "checked_mul a b = (if uint a * uint b \<le> 18446744073709551615 then Some (a * b) else None)"

lemma as_u64_as_i64 [simp, cast_simps]: "as_u64 (as_i64 x) = x"
  by (simp add: as_u64_def as_i64_def)

lemma as_i64_inject [simp, cast_simps]: "as_i64 x = as_i64 y \<longleftrightarrow> x = y"
  by (metis as_u64_as_i64)

lemma as_i64_bounds: "- (2 ^ 63) \<le> as_i64 x" "as_i64 x \<le> max_i64"
  using sint_ge [of x] sint_lt [of x] by (simp_all add: as_i64_def max_i64_def)

lemma as_i64_as_u64 [cast_simps]:
  "- (2 ^ 63) \<le> i \<Longrightarrow> i \<le> max_i64 \<Longrightarrow> as_i64 (as_u64 i) = i"
  by (simp add: as_i64_def as_u64_def max_i64_def sint_word_ariths signed_of_int signed_take_bit_int_eq_self_iff)

lemma as_i64_small: "uint x < 2 ^ 63 \<Longrightarrow> as_i64 x = uint x"
proof -
  assume "uint x < 2 ^ 63"
  moreover have "- (2 ^ 63) \<le> uint x" by (rule order_trans [OF _ uint_ge_0]) simp
  ultimately show ?thesis by (simp add: as_i64_def sint_uint signed_take_bit_int_eq_self_iff)
qed

lemma as_i64_big: "2 ^ 63 \<le> uint x \<Longrightarrow> as_i64 x = uint x - 2 ^ 64"
proof -
  assume big: "2 ^ 63 \<le> uint x"
  have "uint x < 2 ^ 64" using uint_lt2p [of x] by simp
  then have "signed_take_bit 63 (uint x - 2 ^ 64) = uint x - 2 ^ 64"
    using big by (simp add: signed_take_bit_int_eq_self_iff)
  moreover have "signed_take_bit 63 (uint x - 2 ^ 64) = signed_take_bit 63 (uint x)"
    by (simp add: signed_take_bit_eq_iff_take_bit_eq take_bit_eq_mod)
  ultimately show ?thesis by (simp add: as_i64_def sint_uint)
qed

lemma uint_saturating_add:
  "uint (saturating_add a b) = min (uint a + uint b) 18446744073709551615"
proof (cases "uint a + uint b \<le> 18446744073709551615")
  case True
  have "0 \<le> uint a + uint b" by (simp add: uint_ge_0)
  with True have "uint (a + b) = uint a + uint b"
    by (simp add: uint_word_ariths)
  with True show ?thesis by (simp add: saturating_add_def)
next
  case False
  then show ?thesis by (simp add: saturating_add_def u64_max_def)
qed

lemma uint_checked_mul:
  "checked_mul a b = Some c \<Longrightarrow> uint c = uint a * uint b"
  by (auto simp: checked_mul_def uint_word_ariths uint_ge_0 split: if_splits)

section \<open>SQL statement forms over row lists\<close>

text \<open>
  A table is the list of its rows in insertion order.  \<open>INSERT OR IGNORE\<close> adds the row
  unless it conflicts with a row already there; the statement reports how many rows it
  changed.  \<open>UPDATE\<close> and \<open>DELETE\<close> report the number of rows their \<open>WHERE\<close> clause matched.
\<close>

definition sql_insert_or_ignore :: "('r \<Rightarrow> 'r \<Rightarrow> bool) \<Rightarrow> 'r \<Rightarrow> 'r list \<Rightarrow> nat \<times> 'r list" where
  "sql_insert_or_ignore conflict r rows =
     (if list_ex (conflict r) rows then (0, rows) else (1, rows @ [r]))"

definition sql_update :: "('r \<Rightarrow> bool) \<Rightarrow> ('r \<Rightarrow> 'r) \<Rightarrow> 'r list \<Rightarrow> nat \<times> 'r list" where
  "sql_update P f rows =
     (length (filter P rows), map (\<lambda>r. if P r then f r else r) rows)"

definition sql_delete :: "('r \<Rightarrow> bool) \<Rightarrow> 'r list \<Rightarrow> nat \<times> 'r list" where
  "sql_delete P rows = (length (filter P rows), filter (\<lambda>r. \<not> P r) rows)"

definition sql_query_row :: "('r \<Rightarrow> bool) \<Rightarrow> 'r list \<Rightarrow> 'r option" where
  "sql_query_row P rows = find P rows"

text \<open>\<open>SELECT MAX(seq) ... \<close>: no row gives \<open>NULL\<close>.\<close>

definition sql_max :: "('r \<Rightarrow> int) \<Rightarrow> 'r list \<Rightarrow> int option" where
  "sql_max f rows =
     (case rows of [] \<Rightarrow> None | r # rs \<Rightarrow> Some (fold (\<lambda>x m. max (f x) m) rs (f r)))"

text \<open>
  \<open>ORDER BY key\<close> sorts; rows with equal keys come in whatever order the query plan
  visits them, which SQL leaves open.  A plan is a function that permutes the rows it is
  given; statements whose \<open>ORDER BY\<close> is not a total order take the plan as an argument.
\<close>

definition is_plan :: "('r list \<Rightarrow> 'r list) \<Rightarrow> bool" where
  "is_plan plan \<longleftrightarrow> (\<forall>rows. mset (plan rows) = mset rows)"

definition sql_order_by :: "('r \<Rightarrow> 'k::linorder) \<Rightarrow> 'r list \<Rightarrow> 'r list" where
  "sql_order_by key rows = sort_key key rows"

text \<open>\<open>LIMIT n\<close> with \<open>n\<close> an \<open>i64\<close>: a negative limit is no limit.\<close>

definition sql_limit :: "int \<Rightarrow> 'r list \<Rightarrow> 'r list" where
  "sql_limit n rows = (if n < 0 then rows else take (nat n) rows)"

text \<open>\<open>COALESCE(new, old)\<close>.\<close>

definition coalesce :: "'a option \<Rightarrow> 'a option \<Rightarrow> 'a option" where
  "coalesce new old = (case new of Some v \<Rightarrow> Some v | None \<Rightarrow> old)"

text \<open>A nullable bind: \<open>(?1 IS NULL OR col = ?1)\<close>.\<close>

definition null_or_eq :: "'a option \<Rightarrow> 'a \<Rightarrow> bool" where
  "null_or_eq p v \<longleftrightarrow> (case p of None \<Rightarrow> True | Some x \<Rightarrow> v = x)"

lemma null_or_eq_simps [simp]: "null_or_eq None v" "null_or_eq (Some x) v \<longleftrightarrow> v = x"
  by (simp_all add: null_or_eq_def)

lemma coalesce_simps [simp]: "coalesce (Some v) old = Some v" "coalesce None old = old"
  by (simp_all add: coalesce_def)

declare sql_insert_or_ignore_def [sql_defs] sql_update_def [sql_defs] sql_delete_def [sql_defs]
  sql_query_row_def [sql_defs]

lemma snd_sql_insert_set:
  "set (snd (sql_insert_or_ignore c r rows)) \<subseteq> insert r (set rows)"
  by (auto simp add: sql_insert_or_ignore_def)

lemma sql_insert_count:
  "fst (sql_insert_or_ignore c r rows) > 0 \<longleftrightarrow> (\<forall>x\<in>set rows. \<not> c r x)"
  by (auto simp: sql_insert_or_ignore_def list_ex_iff)

lemma set_snd_sql_update:
  "set (snd (sql_update P f rows)) = (\<lambda>r. if P r then f r else r) ` set rows"
  by (simp add: sql_update_def)

lemma sql_update_none: "(\<And>r. r \<in> set rows \<Longrightarrow> \<not> P r) \<Longrightarrow> sql_update P f rows = (0, rows)"
  by (simp add: sql_update_def filter_False map_idI)

text \<open>An update that hits one row and moves it out of a selection removes just that row.\<close>

lemma filter_update_single:
  assumes "\<And>x. x \<in> set rows \<Longrightarrow> P x \<longleftrightarrow> x = r" and "\<not> Q (f r)"
  shows "filter Q (snd (sql_update P f rows)) = filter (\<lambda>x. Q x \<and> x \<noteq> r) rows"
  using assms(1)
proof (induction rows)
  case Nil
  then show ?case by (simp add: sql_update_def)
next
  case (Cons x xs)
  from Cons.prems have IH: "filter Q (snd (sql_update P f xs)) = filter (\<lambda>x. Q x \<and> x \<noteq> r) xs"
    by (intro Cons.IH) simp
  from Cons.prems [of x] have "P x \<longleftrightarrow> x = r" by simp
  with IH assms(2) show ?case by (cases "x = r") (simp_all add: sql_update_def)
qed

lemma sql_query_row_Some:
  "sql_query_row P rows = Some r \<Longrightarrow> r \<in> set rows \<and> P r"
  by (auto simp: sql_query_row_def find_Some_iff)

lemma sql_query_row_None: "sql_query_row P rows = None \<longleftrightarrow> (\<forall>r\<in>set rows. \<not> P r)"
  by (auto simp: sql_query_row_def find_None_iff)

lemma fold_max_ge:
  "m \<le> fold (\<lambda>x m. max (f x) m) rs m" for m :: int
proof (induction rs arbitrary: m)
  case Nil
  then show ?case by simp
next
  case (Cons y ys)
  have "max (f y) m \<le> fold (\<lambda>x m. max (f x) m) ys (max (f y) m)" by (rule Cons.IH)
  then show ?case by simp
qed

lemma fold_max_upper:
  "x \<in> set rs \<Longrightarrow> f x \<le> fold (\<lambda>x m. max (f x) m) rs m" for m :: int
proof (induction rs arbitrary: m)
  case Nil
  then show ?case by simp
next
  case (Cons y ys)
  show ?case
  proof (cases "x = y")
    case True
    have "max (f y) m \<le> fold (\<lambda>x m. max (f x) m) ys (max (f y) m)" by (rule fold_max_ge)
    with True show ?thesis by simp
  next
    case False
    with Cons show ?thesis by simp
  qed
qed

lemma fold_max_mem:
  "fold (\<lambda>x m. max (f x) m) rs m \<in> insert m (f ` set rs)" for m :: int
proof (induction rs arbitrary: m)
  case Nil
  then show ?case by simp
next
  case (Cons y ys)
  from Cons [of "max (f y) m"] show ?case by (auto simp: max_def split: if_splits)
qed

lemma sql_max_None [simp]: "sql_max f rows = None \<longleftrightarrow> rows = []"
  by (simp add: sql_max_def split: list.splits)

lemma sql_max_upper: "sql_max f rows = Some m \<Longrightarrow> x \<in> set rows \<Longrightarrow> f x \<le> m"
  by (auto simp: sql_max_def fold_max_ge fold_max_upper split: list.splits)

lemma sql_max_mem: "sql_max f rows = Some m \<Longrightarrow> m \<in> f ` set rows"
proof (cases rows)
  case Nil
  then show "sql_max f rows = Some m \<Longrightarrow> ?thesis" by (simp add: sql_max_def)
next
  case (Cons r rs)
  assume "sql_max f rows = Some m"
  with Cons have "m = fold (\<lambda>x m. max (f x) m) rs (f r)" by (simp add: sql_max_def)
  then show ?thesis using fold_max_mem [of f rs "f r"] Cons by simp
qed

lemma sql_max_eqI:
  "x \<in> set rows \<Longrightarrow> (\<And>y. y \<in> set rows \<Longrightarrow> f y \<le> f x) \<Longrightarrow> sql_max f rows = Some (f x)"
proof -
  assume x: "x \<in> set rows" and ub: "\<And>y. y \<in> set rows \<Longrightarrow> f y \<le> f x"
  from x have "sql_max f rows \<noteq> None" by auto
  then obtain m where m: "sql_max f rows = Some m" by blast
  from sql_max_mem [OF m] ub have "m \<le> f x" by auto
  moreover from sql_max_upper [OF m x] have "f x \<le> m" .
  ultimately show ?thesis using m by simp
qed

lemma is_plan_mset: "is_plan plan \<Longrightarrow> mset (plan rows) = mset rows"
  by (simp add: is_plan_def)

lemma is_plan_set: "is_plan plan \<Longrightarrow> set (plan rows) = set rows"
  by (metis is_plan_mset set_mset_mset)

lemma is_plan_id [simp]: "is_plan (\<lambda>rows. rows)"
  by (simp add: is_plan_def)

lemma is_plan_rev: "is_plan rev"
  by (simp add: is_plan_def)

lemma mset_sql_order_by [simp]: "mset (sql_order_by key rows) = mset rows"
  by (simp add: sql_order_by_def)

lemma set_sql_order_by [simp]: "set (sql_order_by key rows) = set rows"
  by (simp add: sql_order_by_def)

lemma sorted_sql_order_by: "sorted (map key (sql_order_by key rows))"
  by (simp add: sql_order_by_def)

lemma set_sql_limit: "set (sql_limit n rows) \<subseteq> set rows"
  by (auto simp: sql_limit_def dest: in_set_takeD)

lemma sql_limit_Nil: "0 < n \<Longrightarrow> sql_limit n rows = [] \<longleftrightarrow> rows = []"
  by (auto simp: sql_limit_def)

lemma sorted_sql_limit: "sorted (map key rows) \<Longrightarrow> sorted (map key (sql_limit n rows))"
  by (simp add: sql_limit_def take_map [symmetric] sorted_wrt_take)

lemma distinct_set_single: "distinct xs \<Longrightarrow> set xs = {a} \<Longrightarrow> xs = [a]"
  by (cases xs) (auto simp: distinct_length_2_or_more subset_singleton_iff)

section \<open>Tables under a uniqueness constraint\<close>

definition unique_rows :: "('r \<Rightarrow> 'r \<Rightarrow> bool) \<Rightarrow> 'r list \<Rightarrow> bool" where
  "unique_rows conflict rows \<longleftrightarrow> sorted_wrt (\<lambda>a b. \<not> conflict a b) rows"

text \<open>
  The contract of a table with \<open>PRIMARY KEY\<close>/\<open>UNIQUE\<close> constraints: \<open>conflict a b\<close> says
  that rows \<open>a\<close> and \<open>b\<close> cannot both be stored.  What its clients use: every statement
  form keeps the constraint, and a lookup that determines a key finds at most one row.
\<close>

locale unique_table =
  fixes conflict :: "'r \<Rightarrow> 'r \<Rightarrow> bool"
  assumes conflict_refl: "conflict a a"
    and conflict_sym: "conflict a b \<Longrightarrow> conflict b a"
begin

lemma unique_empty: "unique_rows conflict []"
  by (simp add: unique_rows_def)

lemma unique_insert:
  "unique_rows conflict rows \<Longrightarrow> unique_rows conflict (snd (sql_insert_or_ignore conflict r rows))"
  by (auto simp: unique_rows_def sql_insert_or_ignore_def sorted_wrt_append list_ex_iff dest: conflict_sym)

lemma unique_append:
  "unique_rows conflict rows \<Longrightarrow> (\<And>x. x \<in> set rows \<Longrightarrow> \<not> conflict r x) \<Longrightarrow>
   unique_rows conflict (rows @ [r])"
  by (auto simp: unique_rows_def sorted_wrt_append dest: conflict_sym)

lemma unique_filter: "unique_rows conflict rows \<Longrightarrow> unique_rows conflict (filter P rows)"
  by (simp add: unique_rows_def sorted_wrt_filter)

lemma unique_delete: "unique_rows conflict rows \<Longrightarrow> unique_rows conflict (snd (sql_delete P rows))"
  by (simp add: sql_delete_def unique_filter)

lemma unique_update:
  assumes "unique_rows conflict rows"
    and "\<And>a b. conflict (if P a then f a else a) (if P b then f b else b) \<Longrightarrow> conflict a b"
  shows "unique_rows conflict (snd (sql_update P f rows))"
proof -
  have "sorted_wrt (\<lambda>a b. \<not> conflict (if P a then f a else a) (if P b then f b else b)) rows"
    by (rule sorted_wrt_mono_rel [OF _ assms(1) [unfolded unique_rows_def]])
      (use assms(2) in blast)
  then show ?thesis by (simp add: unique_rows_def sql_update_def sorted_wrt_map)
qed

lemma unique_distinct: "unique_rows conflict rows \<Longrightarrow> distinct rows"
  by (induction rows) (auto simp: unique_rows_def conflict_refl)

lemma unique_same:
  "unique_rows conflict rows \<Longrightarrow> a \<in> set rows \<Longrightarrow> b \<in> set rows \<Longrightarrow> conflict a b \<Longrightarrow> a = b"
proof (induction rows)
  case Nil
  then show ?case by simp
next
  case (Cons r rows)
  from Cons.prems(1) have u: "unique_rows conflict rows" and n: "\<forall>x\<in>set rows. \<not> conflict r x"
    by (simp_all add: unique_rows_def)
  from n have n': "\<forall>x\<in>set rows. \<not> conflict x r" using conflict_sym by blast
  from Cons.prems(2,3) consider "a = r" "b = r" | "a = r" "b \<in> set rows" | "a \<in> set rows" "b = r"
    | "a \<in> set rows" "b \<in> set rows" by auto
  then show ?case
  proof cases
    case 1
    then show ?thesis by simp
  next
    case 2
    with n Cons.prems(4) show ?thesis by blast
  next
    case 3
    with n' Cons.prems(4) show ?thesis by blast
  next
    case 4
    from u 4 Cons.prems(4) show ?thesis by (rule Cons.IH)
  qed
qed

lemma unique_filter_single:
  assumes "unique_rows conflict rows" and "r \<in> set rows" and "P r"
    and "\<And>x. P x \<Longrightarrow> conflict r x"
  shows "filter P rows = [r]"
proof -
  have only: "x = r" if "x \<in> set (filter P rows)" for x
  proof -
    from that have x: "x \<in> set rows" "P x" by simp_all
    show ?thesis by (rule unique_same [OF assms(1) x(1) assms(2) conflict_sym [OF assms(4) [OF x(2)]]])
  qed
  have "distinct (filter P rows)" using unique_distinct [OF assms(1)] by simp
  moreover have "r \<in> set (filter P rows)" using assms(2,3) by simp
  with only have "set (filter P rows) = {r}" by blast
  ultimately show ?thesis by (rule distinct_set_single)
qed

lemma unique_query:
  assumes "unique_rows conflict rows" and "r \<in> set rows" and "P r"
    and "\<And>x. P x \<Longrightarrow> conflict r x"
  shows "sql_query_row P rows = Some r"
proof -
  from assms(2,3) have "sql_query_row P rows \<noteq> None" by (auto simp: sql_query_row_None)
  then obtain x where x: "sql_query_row P rows = Some x" by blast
  from sql_query_row_Some [OF x] have "x \<in> set rows" "P x" by auto
  with assms(4) unique_same [OF assms(1,2)] have "x = r" by blast
  with x show ?thesis by simp
qed

end

section \<open>Logs that hand out MAX + 1\<close>

text \<open>
  Both message logs of the store number a new row \<open>COALESCE(MAX(seq), 0) + 1\<close> within a
  scope (sender and channel, or group and session).  SQLite adds in 64 bits and turns an
  overflowing sum into a \<open>REAL\<close>, which the typed read of the result refuses, so the number
  exists only below the largest \<open>i64\<close>.
\<close>

definition next_seq :: "('r \<Rightarrow> bool) \<Rightarrow> ('r \<Rightarrow> int) \<Rightarrow> 'r list \<Rightarrow> int option" where
  "next_seq in_scope sq rows =
     (let m = (case sql_max sq (filter in_scope rows) of None \<Rightarrow> 0 | Some m \<Rightarrow> m)
      in if m = max_i64 then None else Some (m + 1))"

lemma next_seq_upper:
  "next_seq P sq rows = Some n \<Longrightarrow> r \<in> set rows \<Longrightarrow> P r \<Longrightarrow> sq r < n"
proof -
  assume n: "next_seq P sq rows = Some n" and r: "r \<in> set rows" "P r"
  then have mem: "r \<in> set (filter P rows)" by simp
  then obtain m where m: "sql_max sq (filter P rows) = Some m"
    by (metis empty_iff list.set(1) not_None_eq sql_max_None)
  from sql_max_upper [OF m mem] n m show "sq r < n"
    by (auto simp: next_seq_def split: if_splits)
qed

locale seq_log =
  fixes scope :: "'r \<Rightarrow> 's" and sq :: "'r \<Rightarrow> int"
begin

lemma fresh_key:
  assumes "next_seq (\<lambda>r. scope r = s) sq rows = Some n" and "r \<in> set rows"
  shows "\<not> (scope r = s \<and> sq r = n)"
  using next_seq_upper [OF assms] by auto

lemma next_after_append:
  assumes n: "next_seq (\<lambda>r. scope r = s) sq rows = Some n"
    and new: "scope r = s" "sq r = n" and lt: "n < max_i64"
  shows "next_seq (\<lambda>r. scope r = s) sq (rows @ [r]) = Some (n + 1)"
proof -
  have "sql_max sq (filter (\<lambda>r. scope r = s) (rows @ [r])) = Some (sq r)"
  proof (rule sql_max_eqI)
    show "r \<in> set (filter (\<lambda>r. scope r = s) (rows @ [r]))" using new by simp
    show "sq y \<le> sq r" if "y \<in> set (filter (\<lambda>r. scope r = s) (rows @ [r]))" for y
      using that next_seq_upper [OF n, of y] new by auto
  qed
  with new lt show ?thesis by (simp add: next_seq_def)
qed

lemma next_other_scope:
  "scope r \<noteq> s \<Longrightarrow>
   next_seq (\<lambda>r. scope r = s) sq (rows @ [r]) = next_seq (\<lambda>r. scope r = s) sq rows"
  by (simp add: next_seq_def)

lemma next_first: "(\<And>r. r \<in> set rows \<Longrightarrow> scope r \<noteq> s) \<Longrightarrow>
   next_seq (\<lambda>r. scope r = s) sq rows = Some 1"
  by (simp add: next_seq_def filter_False sql_max_def max_i64_def)

end

section \<open>Results\<close>

text \<open>The value of a sum that is not an error, for statements about the success case.\<close>

definition is_ok :: "'e + 'a \<Rightarrow> bool" where
  "is_ok r \<longleftrightarrow> (case r of Inl _ \<Rightarrow> False | Inr _ \<Rightarrow> True)"

lemma is_ok_simps [simp]: "\<not> is_ok (Inl e)" "is_ok (Inr a)"
  by (simp_all add: is_ok_def)

text \<open>\<open>collect::<Result<Vec<_>, _>>()\<close>: the first error wins.\<close>

fun collect_ok :: "('e + 'a) list \<Rightarrow> 'e + 'a list" where
  "collect_ok [] = Inr []"
| "collect_ok (x # xs) =
     (case x of Inl e \<Rightarrow> Inl e
      | Inr a \<Rightarrow> (case collect_ok xs of Inl e \<Rightarrow> Inl e | Inr as \<Rightarrow> Inr (a # as)))"

lemma collect_ok_map_Inr: "(\<And>x. x \<in> set xs \<Longrightarrow> f x = Inr (g x)) \<Longrightarrow> collect_ok (map f xs) = Inr (map g xs)"
  by (induction xs) auto

lemma collect_ok_Inr: "collect_ok xs = Inr ys \<longleftrightarrow> xs = map Inr ys"
proof (induction xs arbitrary: ys)
  case Nil
  then show ?case by auto
next
  case (Cons x xs)
  show ?case
  proof (cases ys)
    case Nil
    then show ?thesis by (auto split: sum.splits)
  next
    case (Cons y zs)
    with Cons.IH [of zs] show ?thesis by (auto split: sum.splits)
  qed
qed

end
