(* ===== verification/Wt_Text.thy ===== *)
theory Wt_Text
  imports Wt_Prelude
begin

text \<open>
  What the sources use of Rust's \<^verbatim>\<open>str\<close>: a string is the list of its UTF-8 bytes (a HOL
  \<open>string\<close>, one \<open>char\<close> per byte), so \<open>len\<close>, \<open>as_bytes\<close> and byte offsets mean what they
  mean in Rust.  Modelled here: \<open>String::from_utf8_lossy\<close>, \<open>trim\<close> with the Unicode
  white-space set, \<open>split_whitespace\<close>, \<open>strip_prefix\<close>, decimal printing, and the integer
  parsers behind \<open>parse::<u64>\<close> and \<open>parse::<i64>\<close>.
\<close>

section \<open>Bytes of a string\<close>

definition bytes_of :: "string \<Rightarrow> bytes" where
  "bytes_of s = map of_char s"

definition string_of :: "bytes \<Rightarrow> string" where
  "string_of bs = map (\<lambda>b. char_of (unat b)) bs"

lemma char_of_unat_of_char [simp]: "char_of (unat (of_char c :: u8)) = c"
proof -
  have "(of_char c :: nat) mod 256 < 256" by (rule mod_less_divisor) simp
  then have lt: "(of_char c :: nat) < 256" by (simp only: of_char_mod_256)
  have "(of_char c :: u8) = of_nat (of_char c)" by (rule of_nat_of_char [symmetric])
  then have "unat (of_char c :: u8) = of_char c mod 256" by (simp only: unat_of_nat) simp
  with lt show ?thesis by simp
qed

lemma string_of_bytes_of [simp]: "string_of (bytes_of s) = s"
  by (simp add: string_of_def bytes_of_def o_def map_idI)

lemma bytes_of_inject [simp]: "bytes_of s = bytes_of t \<longleftrightarrow> s = t"
  by (metis string_of_bytes_of)

lemma bytes_of_append [simp]: "bytes_of (s @ t) = bytes_of s @ bytes_of t"
  by (simp add: bytes_of_def)

lemma bytes_of_Nil [simp]: "bytes_of s = [] \<longleftrightarrow> s = []"
  by (simp add: bytes_of_def)

lemma length_bytes_of [simp]: "length (bytes_of s) = length s"
  by (simp add: bytes_of_def)

section \<open>UTF-8\<close>

definition in_range8 :: "u8 \<Rightarrow> u8 \<Rightarrow> u8 \<Rightarrow> bool" where
  "in_range8 lo hi b \<longleftrightarrow> lo \<le> b \<and> b \<le> hi"

text \<open>
  One step of the standard library's UTF-8 scanner: is the next sequence well formed, and
  how many bytes does it take (for an ill-formed one, the maximal prefix that is replaced
  by a single U+FFFD).
\<close>

definition utf8_cont :: "u8 \<Rightarrow> bool" where
  "utf8_cont b \<longleftrightarrow> in_range8 0x80 0xBF b"

fun utf8_second :: "u8 \<Rightarrow> u8 \<Rightarrow> bool" where
  "utf8_second b c =
     (if b = 0xE0 then in_range8 0xA0 0xBF c
      else if b = 0xED then in_range8 0x80 0x9F c
      else if b = 0xF0 then in_range8 0x90 0xBF c
      else if b = 0xF4 then in_range8 0x80 0x8F c
      else utf8_cont c)"

definition utf8_step :: "u8 \<Rightarrow> bytes \<Rightarrow> bool \<times> nat" where
  "utf8_step b rest =
     (if b < 0x80 then (True, 1)
      else if in_range8 0xC2 0xDF b then
        (case rest of c # _ \<Rightarrow> if utf8_cont c then (True, 2) else (False, 1) | [] \<Rightarrow> (False, 1))
      else if in_range8 0xE0 0xEF b then
        (case rest of
           c # rest' \<Rightarrow>
             if \<not> utf8_second b c then (False, 1)
             else (case rest' of d # _ \<Rightarrow> if utf8_cont d then (True, 3) else (False, 2)
                   | [] \<Rightarrow> (False, 2))
         | [] \<Rightarrow> (False, 1))
      else if in_range8 0xF0 0xF4 b then
        (case rest of
           c # rest' \<Rightarrow>
             if \<not> utf8_second b c then (False, 1)
             else (case rest' of
                     d # rest'' \<Rightarrow>
                       if \<not> utf8_cont d then (False, 2)
                       else (case rest'' of e # _ \<Rightarrow> if utf8_cont e then (True, 4) else (False, 3)
                             | [] \<Rightarrow> (False, 3))
                   | [] \<Rightarrow> (False, 2))
         | [] \<Rightarrow> (False, 1))
      else (False, 1))"

definition replacement_char :: bytes where
  "replacement_char = [0xEF, 0xBF, 0xBD]"

text \<open>\<open>String::from_utf8_lossy\<close> as a byte list.\<close>

function utf8_lossy_bytes :: "bytes \<Rightarrow> bytes" where
  "utf8_lossy_bytes [] = []"
| "utf8_lossy_bytes (b # rest) =
     (case utf8_step b rest of (ok, n) \<Rightarrow>
        (if ok then take n (b # rest) else replacement_char) @ utf8_lossy_bytes (drop (n - 1) rest))"
  by pat_completeness auto
termination
  by (relation "measure length") auto

definition from_utf8_lossy :: "bytes \<Rightarrow> string" where
  "from_utf8_lossy bs = string_of (utf8_lossy_bytes bs)"

function valid_utf8 :: "bytes \<Rightarrow> bool" where
  "valid_utf8 [] = True"
| "valid_utf8 (b # rest) =
     (case utf8_step b rest of (ok, n) \<Rightarrow> ok \<and> valid_utf8 (drop (n - 1) rest))"
  by pat_completeness auto
termination
  by (relation "measure length") auto

lemma utf8_step_pos: "utf8_step b rest = (ok, n) \<Longrightarrow> 0 < n"
  by (auto simp: utf8_step_def split: if_splits list.splits)

lemma utf8_lossy_valid: "valid_utf8 bs \<Longrightarrow> utf8_lossy_bytes bs = bs"
proof (induction bs rule: valid_utf8.induct)
  case 1
  then show ?case by simp
next
  case (2 b rest)
  obtain ok n where s: "utf8_step b rest = (ok, n)" by fastforce
  with 2 have ok: ok and IH: "utf8_lossy_bytes (drop (n - 1) rest) = drop (n - 1) rest" by auto
  from utf8_step_pos [OF s] have "take n (b # rest) = b # take (n - 1) rest" by (cases n) auto
  with s ok IH show ?case by simp
qed

lemma from_utf8_lossy_bytes_of: "valid_utf8 (bytes_of s) \<Longrightarrow> from_utf8_lossy (bytes_of s) = s"
  by (simp add: from_utf8_lossy_def utf8_lossy_valid)

text \<open>A char boundary of a valid string: not a continuation byte.\<close>

definition is_char_boundary :: "string \<Rightarrow> nat \<Rightarrow> bool" where
  "is_char_boundary s i \<longleftrightarrow>
     i = 0 \<or> i = length s \<or> (i < length s \<and> \<not> utf8_cont (of_char (s ! i)))"

section \<open>White space\<close>

text \<open>
  The byte length of the white-space character a string starts with (0 when it starts
  with none): the ASCII ones, U+0085, U+00A0, U+1680, U+2000 to U+200A, U+2028, U+2029,
  U+202F, U+205F and U+3000.
\<close>

definition ascii_ws :: "u8 \<Rightarrow> bool" where
  "ascii_ws b \<longleftrightarrow> (0x09 \<le> b \<and> b \<le> 0x0D) \<or> b = 0x20"

definition ws2 :: "u8 \<Rightarrow> u8 \<Rightarrow> bool" where
  "ws2 a b \<longleftrightarrow> a = 0xC2 \<and> (b = 0x85 \<or> b = 0xA0)"

definition ws3 :: "u8 \<Rightarrow> u8 \<Rightarrow> u8 \<Rightarrow> bool" where
  "ws3 a b c \<longleftrightarrow>
     (a = 0xE1 \<and> b = 0x9A \<and> c = 0x80)
     \<or> (a = 0xE2 \<and> b = 0x80 \<and> ((0x80 \<le> c \<and> c \<le> 0x8A) \<or> c = 0xA8 \<or> c = 0xA9 \<or> c = 0xAF))
     \<or> (a = 0xE2 \<and> b = 0x81 \<and> c = 0x9F)
     \<or> (a = 0xE3 \<and> b = 0x80 \<and> c = 0x80)"

definition ws_len :: "bytes \<Rightarrow> nat" where
  "ws_len bs =
     (case bs of
        [] \<Rightarrow> 0
      | a # r \<Rightarrow>
          if ascii_ws a then 1
          else (case r of
                  [] \<Rightarrow> 0
                | b # r' \<Rightarrow>
                    if ws2 a b then 2
                    else (case r' of [] \<Rightarrow> 0 | c # _ \<Rightarrow> if ws3 a b c then 3 else 0)))"

text \<open>The same at the end of a string, read on the reversed bytes.\<close>

definition ws_len_rev :: "bytes \<Rightarrow> nat" where
  "ws_len_rev bs =
     (case bs of
        [] \<Rightarrow> 0
      | c # r \<Rightarrow>
          if ascii_ws c then 1
          else (case r of
                  [] \<Rightarrow> 0
                | b # r' \<Rightarrow>
                    if ws2 b c then 2
                    else (case r' of [] \<Rightarrow> 0 | a # _ \<Rightarrow> if ws3 a b c then 3 else 0)))"

fun drop_ws :: "(bytes \<Rightarrow> nat) \<Rightarrow> nat \<Rightarrow> bytes \<Rightarrow> bytes" where
  "drop_ws f 0 bs = bs"
| "drop_ws f (Suc k) bs = (if f bs = 0 then bs else drop_ws f k (drop (f bs) bs))"

definition trim_start :: "bytes \<Rightarrow> bytes" where
  "trim_start bs = drop_ws ws_len (length bs) bs"

definition trim_end :: "bytes \<Rightarrow> bytes" where
  "trim_end bs = rev (drop_ws ws_len_rev (length bs) (rev bs))"

definition trim :: "string \<Rightarrow> string" where
  "trim s = string_of (trim_end (trim_start (bytes_of s)))"

text \<open>A string that white space neither opens nor closes.\<close>

definition trimmed :: "string \<Rightarrow> bool" where
  "trimmed s \<longleftrightarrow> ws_len (bytes_of s) = 0 \<and> ws_len_rev (rev (bytes_of s)) = 0"

lemma trim_trimmed: "trimmed s \<Longrightarrow> trim s = s"
proof -
  assume "trimmed s"
  then have "drop_ws ws_len k (bytes_of s) = bytes_of s"
    "drop_ws ws_len_rev k (rev (bytes_of s)) = rev (bytes_of s)" for k
    by (cases k; simp add: trimmed_def)+
  then show ?thesis by (simp add: trim_def trim_start_def trim_end_def)
qed

text \<open>Printable ASCII other than the blank, as hex and base32 output is.\<close>

definition graphic :: "char \<Rightarrow> bool" where
  "graphic c \<longleftrightarrow> in_range8 0x21 0x7E (of_char c)"

definition ascii_blank :: "char \<Rightarrow> bool" where
  "ascii_blank c \<longleftrightarrow> ascii_ws (of_char c)"

lemma graphic_not_ws:
  assumes "in_range8 0x21 0x7E b"
  shows "\<not> ascii_ws b" "\<not> ws2 b x" "\<not> ws2 x b" "\<not> ws3 b x y" "\<not> ws3 x y b"
proof -
  from assms have lo: "0x21 \<le> b" and hi: "b \<le> 0x7E" by (simp_all add: in_range8_def)
  have big: "\<not> 0x80 \<le> b" using hi by (simp add: word_le_nat_alt)
  show "\<not> ascii_ws b" using lo by (auto simp: ascii_ws_def word_le_nat_alt)
  show "\<not> ws2 b x" "\<not> ws2 x b" using hi by (auto simp: ws2_def word_le_nat_alt)
  show "\<not> ws3 b x y" using hi by (auto simp: ws3_def word_le_nat_alt)
  show "\<not> ws3 x y b" using hi big by (auto simp: ws3_def word_le_nat_alt)
qed

lemma graphic_no_ws: "graphic c \<Longrightarrow> ws_len (of_char c # r) = 0" "graphic c \<Longrightarrow> ws_len_rev (of_char c # r) = 0"
  by (simp_all add: graphic_def ws_len_def ws_len_rev_def graphic_not_ws split: list.splits)

lemma drop_ws_stop: "f bs = 0 \<Longrightarrow> drop_ws f k bs = bs"
  by (cases k) auto

lemma drop_ws_blanks:
  assumes "list_all ascii_ws ws" and "length ws \<le> k" and "f rest = 0"
    and one: "\<And>b r. ascii_ws b \<Longrightarrow> f (b # r) = 1"
  shows "drop_ws f k (ws @ rest) = rest"
  using assms(1,2)
proof (induction ws arbitrary: k)
  case Nil
  then show ?case by (simp add: drop_ws_stop assms(3))
next
  case (Cons b ws)
  then obtain k' where "k = Suc k'" by (cases k) auto
  with Cons one [of b] show ?case by simp
qed

text \<open>Surrounding ASCII blanks are removed from a printable string and nothing else is.\<close>

lemma trim_pad:
  assumes "list_all ascii_blank w1" and "list_all ascii_blank w2" and "list_all graphic s" and "s \<noteq> []"
  shows "trim (w1 @ s @ w2) = s"
proof -
  have one: "ascii_ws b \<Longrightarrow> ws_len (b # r) = 1" "ascii_ws b \<Longrightarrow> ws_len_rev (b # r) = 1" for b r
    by (simp_all add: ws_len_def ws_len_rev_def)
  have w: "list_all ascii_ws (bytes_of w1)" "list_all ascii_ws (rev (bytes_of w2))"
    using assms(1,2) by (simp_all add: ascii_blank_def bytes_of_def list_all_iff)
  obtain c s' where s: "s = c # s'" and c: "graphic c" using assms(3,4) by (cases s) auto
  obtain d s'' where r: "rev s = d # s''" and d: "graphic d" using assms(3,4)
    by (cases "rev s") (auto simp: list_all_iff dest: arg_cong [where f = set])
  have "drop_ws ws_len (length (bytes_of (w1 @ s @ w2))) (bytes_of w1 @ bytes_of (s @ w2)) = bytes_of (s @ w2)"
    by (rule drop_ws_blanks [OF w(1)]) (use graphic_no_ws(1) [OF c] one in \<open>simp_all add: s bytes_of_def\<close>)
  then have start: "trim_start (bytes_of (w1 @ s @ w2)) = bytes_of (s @ w2)"
    by (simp add: trim_start_def)
  have "rev (bytes_of s) = of_char d # bytes_of s''"
    using arg_cong [OF r, of bytes_of] by (simp add: bytes_of_def rev_map)
  then have z: "ws_len_rev (rev (bytes_of s)) = 0" using graphic_no_ws(2) [OF d] by simp
  have "drop_ws ws_len_rev (length (bytes_of (s @ w2))) (rev (bytes_of w2) @ rev (bytes_of s)) = rev (bytes_of s)"
    by (rule drop_ws_blanks [OF w(2)]) (use z one in simp_all)
  then have "trim_end (bytes_of (s @ w2)) = bytes_of s"
    by (simp add: trim_end_def)
  with start show ?thesis by (simp add: trim_def)
qed

lemma trim_graphic: "list_all graphic s \<Longrightarrow> trim s = s"
proof (cases "s = []")
  case True
  then show "trim s = s" by (simp add: trim_def trim_start_def trim_end_def bytes_of_def string_of_def)
next
  case False
  assume "list_all graphic s"
  with False show "trim s = s" using trim_pad [of "[]" "[]" s] by simp
qed

text \<open>\<open>split_whitespace\<close>: the maximal runs between white-space characters.\<close>

fun split_ws_aux :: "nat \<Rightarrow> bytes \<Rightarrow> bytes \<Rightarrow> bytes list" where
  "split_ws_aux 0 acc bs = (if acc = [] then [] else [rev acc])"
| "split_ws_aux (Suc k) acc [] = (if acc = [] then [] else [rev acc])"
| "split_ws_aux (Suc k) acc (b # bs) =
     (let n = ws_len (b # bs)
      in if n = 0 then split_ws_aux k (b # acc) bs
         else (if acc = [] then [] else [rev acc]) @ split_ws_aux k [] (drop n (b # bs)))"

definition split_whitespace :: "string \<Rightarrow> string list" where
  "split_whitespace s = map string_of (split_ws_aux (length s) [] (bytes_of s))"

section \<open>Prefixes, decimal numbers\<close>

definition starts_with :: "string \<Rightarrow> string \<Rightarrow> bool" where
  "starts_with s p \<longleftrightarrow> take (length p) s = p"

definition strip_prefix :: "string \<Rightarrow> string \<Rightarrow> string option" where
  "strip_prefix p s = (if starts_with s p then Some (drop (length p) s) else None)"

lemma strip_prefix_append [simp]: "strip_prefix p (p @ s) = Some s"
  by (simp add: strip_prefix_def starts_with_def)

lemma starts_with_append [simp]: "starts_with (p @ s) p"
  by (simp add: starts_with_def)

definition digit_char :: "nat \<Rightarrow> char" where
  "digit_char d = char_of (48 + d)"

fun show_nat :: "nat \<Rightarrow> string" where
  "show_nat n = (if n < 10 then [digit_char n] else show_nat (n div 10) @ [digit_char (n mod 10)])"

declare show_nat.simps [simp del]

definition show_int :: "int \<Rightarrow> string" where
  "show_int i = (if i < 0 then ''-'' @ show_nat (nat (- i)) else show_nat (nat i))"

definition digit_value :: "char \<Rightarrow> int option" where
  "digit_value c = (let v = (of_char c :: int)
                    in if 48 \<le> v \<and> v \<le> 57 then Some (v - 48) else None)"

fun parse_digits :: "int \<Rightarrow> string \<Rightarrow> int option" where
  "parse_digits acc [] = Some acc"
| "parse_digits acc (c # cs) =
     (case digit_value c of None \<Rightarrow> None | Some d \<Rightarrow> parse_digits (acc * 10 + d) cs)"

text \<open>\<open>parse::<u64>\<close>: an optional \<open>+\<close>, at least one digit, and a value below \<open>2^64\<close>.\<close>

definition parse_u64 :: "string \<Rightarrow> u64 option" where
  "parse_u64 s =
     (let ds = (case s of c # cs \<Rightarrow> if c = CHR ''+'' then cs else s | [] \<Rightarrow> [])
      in if ds = [] then None
         else case parse_digits 0 ds of
                None \<Rightarrow> None
              | Some n \<Rightarrow> if n \<le> 18446744073709551615 then Some (word_of_int n) else None)"

text \<open>\<open>parse::<i64>\<close>: an optional sign and at least one digit, in range.\<close>

definition parse_i64 :: "string \<Rightarrow> int option" where
  "parse_i64 s =
     (let neg = (case s of c # _ \<Rightarrow> c = CHR ''-'' | [] \<Rightarrow> False);
          ds = (case s of c # cs \<Rightarrow> if c = CHR ''+'' \<or> c = CHR ''-'' then cs else s | [] \<Rightarrow> [])
      in if ds = [] then None
         else case parse_digits 0 ds of
                None \<Rightarrow> None
              | Some n \<Rightarrow>
                  (let v = (if neg then - n else n)
                   in if -9223372036854775808 \<le> v \<and> v \<le> max_i64 then Some v else None))"

lemma of_char_digit_char: "d < 10 \<Longrightarrow> (of_char (digit_char d) :: int) = 48 + int d"
proof -
  assume "d < 10"
  then have "(of_char (digit_char d) :: nat) = 48 + d" by (simp add: digit_char_def)
  moreover have "(of_char (digit_char d) :: int) = int (of_char (digit_char d))"
    by (rule of_nat_of_char [symmetric])
  ultimately show ?thesis by simp
qed

lemma digit_value_digit_char: "d < 10 \<Longrightarrow> digit_value (digit_char d) = Some (int d)"
  by (simp add: digit_value_def of_char_digit_char)

lemma parse_digits_append:
  "parse_digits acc (xs @ ys) =
     (case parse_digits acc xs of None \<Rightarrow> None | Some n \<Rightarrow> parse_digits n ys)"
  by (induction xs arbitrary: acc) (auto split: option.splits)

lemma parse_digits_show_nat: "parse_digits 0 (show_nat n) = Some (int n)"
proof (induction n rule: show_nat.induct)
  case (1 n)
  show ?case
  proof (cases "n < 10")
    case True
    then show ?thesis by (simp add: show_nat.simps [of n] digit_value_digit_char)
  next
    case False
    with 1 have "parse_digits 0 (show_nat (n div 10)) = Some (int (n div 10))" by simp
    moreover have "int (n div 10) * 10 + int (n mod 10) = int n" by presburger
    ultimately show ?thesis using False
      by (simp add: show_nat.simps [of n] parse_digits_append digit_value_digit_char)
  qed
qed

lemma show_nat_not_Nil [simp]: "show_nat n \<noteq> []"
  by (subst show_nat.simps) simp

lemma hd_show_nat_digit: "\<exists>d<10. hd (show_nat n) = digit_char d"
proof (induction n rule: show_nat.induct)
  case (1 n)
  show ?case
  proof (cases "n < 10")
    case True
    then show ?thesis by (subst show_nat.simps) auto
  next
    case False
    with 1 show ?thesis by (subst show_nat.simps) simp
  qed
qed

lemma digit_char_not_sign: "d < 10 \<Longrightarrow> digit_char d \<noteq> CHR ''+'' \<and> digit_char d \<noteq> CHR ''-''"
proof -
  assume d: "d < 10"
  then have "(of_char (digit_char d) :: int) = 48 + int d" by (rule of_char_digit_char)
  moreover have "(of_char (CHR ''+'') :: int) = 43" "(of_char (CHR ''-'') :: int) = 45" by simp_all
  ultimately show ?thesis by fastforce
qed

lemma show_nat_Cons: "\<exists>c cs. show_nat n = c # cs \<and> c \<noteq> CHR ''+'' \<and> c \<noteq> CHR ''-''"
  using hd_show_nat_digit [of n] digit_char_not_sign by (cases "show_nat n") auto

lemma parse_u64_show_nat: "n < 2 ^ 64 \<Longrightarrow> parse_u64 (show_nat n) = Some (of_nat n)"
proof -
  assume n: "n < 2 ^ 64"
  obtain c cs where s: "show_nat n = c # cs" and c: "c \<noteq> CHR ''+''"
    using show_nat_Cons by blast
  have "parse_digits 0 (c # cs) = Some (int n)" using parse_digits_show_nat [of n] s by simp
  with n c show ?thesis unfolding parse_u64_def s by simp
qed

lemma parse_i64_show_nat: "int n \<le> max_i64 \<Longrightarrow> parse_i64 (show_nat n) = Some (int n)"
proof -
  assume n: "int n \<le> max_i64"
  obtain c cs where s: "show_nat n = c # cs" and c: "c \<noteq> CHR ''+''" "c \<noteq> CHR ''-''"
    using show_nat_Cons by blast
  have "parse_digits 0 (c # cs) = Some (int n)" using parse_digits_show_nat [of n] s by simp
  with n c show ?thesis unfolding parse_i64_def s by simp
qed

end
