(* ===== verification/Wt_Proto.thy ===== *)
theory Wt_Proto
  imports Wt_Text
begin

text \<open>
  The crate \<^verbatim>\<open>src/crates/wt-proto\<close>: node ids, capabilities and tokens, address tickets, the
  wire frames of the peer protocol and the request and event types of the local IPC
  protocol.  The code that comes from other crates (hex, base32, CBOR, JSON, blake3,
  Ed25519) is collected in the record \<open>crates\<close>, an argument of every definition that uses
  it; the behaviour the sources rely on is stated by the law predicates beside it.
\<close>

section \<open>Identities, tokens, tickets and wire frames\<close>

text \<open>\<open>NodeId([u8; 32])\<close>; \<open>wf_nodeid\<close> is the length the array type gives.\<close>

datatype NodeId = NodeId (nid: bytes)

definition wf_nodeid :: "NodeId \<Rightarrow> bool" where
  "wf_nodeid n \<longleftrightarrow> length (nid n) = 32"

type_synonym TokenId = bytes

datatype Cap = Msg

record CapabilityToken =
  iss :: NodeId
  sub :: NodeId
  exp :: u64
  caps :: "Cap list"
  tid :: TokenId

definition wf_claims :: "CapabilityToken \<Rightarrow> bool" where
  "wf_claims c \<longleftrightarrow> wf_nodeid (iss c) \<and> wf_nodeid (sub c) \<and> length (tid c) = 16"

record SignedToken =
  claims_cbor :: bytes
  sig :: bytes

datatype SocketAddr = V4 "u8 list" "16 word" | V6 "16 word list" "16 word"

record AddrTicket =
  tk_nodeid :: NodeId
  relay_url :: "string option"
  direct_addrs :: "SocketAddr list"

datatype StreamOpen = StreamMsg (so_token: SignedToken) (so_channel: string)

record MessageFrame =
  mf_seq :: u64
  mf_ts_ms :: u64
  mf_payload :: bytes

record Ack =
  ack_seq :: u64

section \<open>IPC types\<close>

datatype PeerSelector = SelName string | SelNodeId NodeId

datatype IpcErrorCode =
    Unauthorized | Expired | Revoked | PeerNotKnown | NotFound | BadRequest | Unimplemented | Internal

record IpcError =
  code :: IpcErrorCode
  message :: string

datatype PeerFilter = FilterAll | FilterConnected | FilterRemote | FilterLocal

datatype PeerSource = Manual | Mdns

datatype PeerState = Connected u32 | Idle | Offline

record PeerInfo =
  pi_nodeid :: NodeId
  pi_name :: string
  pi_source :: PeerSource
  pi_state :: PeerState
  pi_last_seen_ms :: "u64 option"

record ConnInfo =
  ci_peer_name :: string
  ci_nodeid :: NodeId
  ci_since_ms :: u64
  ci_streams :: "string list"
  ci_rx_bytes :: u64
  ci_tx_bytes :: u64
  ci_rtt_us :: "u64 option"
  ci_via_relay :: bool

record TokenInfo =
  ti_id :: TokenId
  ti_iss :: NodeId
  ti_sub :: NodeId
  ti_exp :: u64
  ti_caps :: "Cap list"
  ti_revoked :: bool

datatype FsMode = Worktree | New

datatype AgentMsgKind = TurnOutput | TurnInput | User | Control | Trace

record GroupInfo =
  gi_name :: string
  gi_created_at_ms :: u64
  gi_session_count :: u32

record SessionInfo =
  si_group :: string
  si_name :: string
  si_child_agent :: string
  si_fs_mode :: FsMode
  si_workspace_path :: string
  si_branch :: "string option"
  si_status :: string
  si_child_status :: "string option"

record AgentInfo =
  ai_group :: string
  ai_name :: string
  ai_role :: string
  ai_status :: string
  ai_dir :: "string option"
  ai_pid :: "int option"

record WhoAmIInfo =
  wi_group :: string
  wi_agent :: string
  wi_role :: string
  wi_session :: "string option"

text \<open>The fields of \<open>IpcRequest::Spawn\<close>.\<close>

record SpawnReq =
  sp_token :: string
  sp_group :: string
  sp_session :: string
  sp_base_dir :: string
  sp_fs_mode :: FsMode
  sp_branch :: "string option"
  sp_label :: "string option"
  sp_prompt :: string
  sp_harness_argv :: "string list option"
  sp_idle_timeout_secs :: "u64 option"
  sp_permission_mode :: "string option"
  sp_skip_permissions :: bool
  sp_trace :: bool
  sp_coordinator :: bool

datatype IpcRequest =
    ReqStatus
  | ReqNodeId
  | ReqTicket
  | ReqPeerAdd NodeId string "bytes option"
  | ReqPeerRm PeerSelector
  | ReqPeerList PeerFilter
  | ReqConnList
  | ReqConnClose PeerSelector
  | ReqTokenGrant PeerSelector "Cap list" "u64 option"
  | ReqTokenImport bytes
  | ReqTokenList
  | ReqTokenRevoke TokenId
  | ReqSend PeerSelector string bytes
  | ReqRecvSubscribe "PeerSelector option" "string option" "u64 option" bool
  | ReqGroupNew string
  | ReqGroupList
  | ReqSessionList string
  | ReqAgentList "string option" "string option"
  | ReqSpawn SpawnReq
  | ReqAgentSend string string AgentMsgKind bytes
  | ReqAgentRecv string "string option" "u64 option" bool bool
  | ReqAgentKill string string
  | ReqSessionClose string string bool
  | ReqWhoAmI string

datatype IpcEvent =
    EvOk
  | EvErr IpcError
  | EvStatusInfo NodeId string bool
  | EvNodeIdValue NodeId
  | EvTicketValue string
  | EvPeerListItem PeerInfo
  | EvPeerListEnd
  | EvConnListItem ConnInfo
  | EvConnListEnd
  | EvTokenIssued bytes TokenInfo
  | EvTokenListItem TokenInfo
  | EvTokenListEnd
  | EvRecvMsg NodeId "string option" string bytes u64
  | EvRecvBacklogEnd
  | EvGroupCreated string string
  | EvSpawned string string string string
  | EvGroupListItem GroupInfo
  | EvGroupListEnd
  | EvSessionListItem SessionInfo
  | EvSessionListEnd
  | EvAgentListItem AgentInfo
  | EvAgentListEnd
  | EvAgentMsg string string AgentMsgKind bytes u64
  | EvAgentBacklogEnd
  | EvWhoAmIInfo WhoAmIInfo

definition ipc_error_internal :: "string \<Rightarrow> IpcError" where
  "ipc_error_internal msg = \<lparr>code = Internal, message = msg\<rparr>"

section \<open>Code of other crates\<close>

record crates =
  hex_encode :: "bytes \<Rightarrow> string"
  hex_decode :: "string \<Rightarrow> bytes option"
  base32_encode :: "bytes \<Rightarrow> string"
  base32_decode :: "bytes \<Rightarrow> bytes option"
  blake3 :: "bytes \<Rightarrow> bytes"
  claims_enc :: "CapabilityToken \<Rightarrow> bytes option"
  claims_dec :: "bytes \<Rightarrow> CapabilityToken option"
  signed_enc :: "SignedToken \<Rightarrow> bytes option"
  signed_dec :: "bytes \<Rightarrow> SignedToken option"
  ticket_enc :: "AddrTicket \<Rightarrow> bytes option"
  ticket_dec :: "bytes \<Rightarrow> AddrTicket option"
  frame_enc :: "MessageFrame \<Rightarrow> bytes option"
  frame_dec :: "bytes \<Rightarrow> MessageFrame option"
  open_enc :: "StreamOpen \<Rightarrow> bytes option"
  open_dec :: "bytes \<Rightarrow> StreamOpen option"
  caps_to_json :: "Cap list \<Rightarrow> string option"
  caps_from_json :: "string \<Rightarrow> Cap list option"
  ed_public :: "bytes \<Rightarrow> bytes"
  ed_sign :: "bytes \<Rightarrow> bytes \<Rightarrow> bytes"
  ed_valid_key :: "bytes \<Rightarrow> bool"
  ed_verify :: "bytes \<Rightarrow> bytes \<Rightarrow> bytes \<Rightarrow> bool"

text \<open>Documented behaviour the sources rely on, one predicate per crate.\<close>

definition hex_laws :: "crates \<Rightarrow> bool" where
  "hex_laws c \<longleftrightarrow> (\<forall>b. hex_decode c (hex_encode c b) = Some b)"

definition base32_laws :: "crates \<Rightarrow> bool" where
  "base32_laws c \<longleftrightarrow> (\<forall>b. base32_decode c (bytes_of (base32_encode c b)) = Some b)
     \<and> (\<forall>b. list_all graphic (base32_encode c b))"

definition cbor_laws :: "crates \<Rightarrow> bool" where
  "cbor_laws c \<longleftrightarrow>
     (\<forall>x b. claims_enc c x = Some b \<longrightarrow> wf_claims x \<longrightarrow> claims_dec c b = Some x)
     \<and> (\<forall>x b. signed_enc c x = Some b \<longrightarrow> signed_dec c b = Some x)
     \<and> (\<forall>x b. ticket_enc c x = Some b \<longrightarrow> wf_nodeid (tk_nodeid x) \<longrightarrow> ticket_dec c b = Some x)
     \<and> (\<forall>x b. frame_enc c x = Some b \<longrightarrow> frame_dec c b = Some x)
     \<and> (\<forall>x b. open_enc c x = Some b \<longrightarrow> open_dec c b = Some x)"

definition json_laws :: "crates \<Rightarrow> bool" where
  "json_laws c \<longleftrightarrow> (\<forall>x s. caps_to_json c x = Some s \<longrightarrow> caps_from_json c s = Some x)"

definition ed25519_laws :: "crates \<Rightarrow> bool" where
  "ed25519_laws c \<longleftrightarrow>
     (\<forall>sk. length (ed_public c sk) = 32 \<and> ed_valid_key c (ed_public c sk))
     \<and> (\<forall>sk m. length (ed_sign c sk m) = 64)
     \<and> (\<forall>sk m. ed_verify c (ed_public c sk) m (ed_sign c sk m))"

definition blake3_laws :: "crates \<Rightarrow> bool" where
  "blake3_laws c \<longleftrightarrow> (\<forall>m. length (blake3 c m) = 32)"

section \<open>Parsing and printing\<close>

datatype NodeIdParseError = NotHex | WrongLength nat

definition nodeid_display :: "crates \<Rightarrow> NodeId \<Rightarrow> string" where
  "nodeid_display c n = hex_encode c (nid n)"

definition nodeid_from_str :: "crates \<Rightarrow> string \<Rightarrow> NodeIdParseError + NodeId" where
  "nodeid_from_str c s =
     (case hex_decode c s of
        None \<Rightarrow> Inl NotHex
      | Some bs \<Rightarrow> if length bs \<noteq> 32 then Inl (WrongLength (length bs)) else Inr (NodeId bs))"

definition cap_from_str :: "string \<Rightarrow> string + Cap" where
  "cap_from_str s = (if s = ''msg'' then Inr Msg else Inl (''unknown capability: '' @ s))"

definition cap_display :: "Cap \<Rightarrow> string" where
  "cap_display c = (case c of Msg \<Rightarrow> ''msg'')"

datatype TicketError = WrongPrefix | Base32 | Decode | Encode

definition TICKET_PREFIX :: string where
  "TICKET_PREFIX = ''wt1:''"

definition ticket_encode :: "crates \<Rightarrow> AddrTicket \<Rightarrow> TicketError + string" where
  "ticket_encode c t =
     (case ticket_enc c t of
        None \<Rightarrow> Inl Encode
      | Some buf \<Rightarrow> Inr (TICKET_PREFIX @ base32_encode c buf))"

definition ticket_decode :: "crates \<Rightarrow> string \<Rightarrow> TicketError + AddrTicket" where
  "ticket_decode c s =
     (case strip_prefix TICKET_PREFIX (trim s) of
        None \<Rightarrow> Inl WrongPrefix
      | Some body \<Rightarrow>
          (case base32_decode c (bytes_of body) of
             None \<Rightarrow> Inl Base32
           | Some bs \<Rightarrow> (case ticket_dec c bs of None \<Rightarrow> Inl Decode | Some t \<Rightarrow> Inr t)))"

section \<open>Lemmas\<close>

lemma wf_claims_simps:
  "wf_claims c \<Longrightarrow> wf_nodeid (iss c)" "wf_claims c \<Longrightarrow> wf_nodeid (sub c)"
  by (simp_all add: wf_claims_def)

lemma cbor_claims: "cbor_laws c \<Longrightarrow> claims_enc c x = Some b \<Longrightarrow> wf_claims x \<Longrightarrow> claims_dec c b = Some x"
  by (simp add: cbor_laws_def)

lemma cbor_signed: "cbor_laws c \<Longrightarrow> signed_enc c x = Some b \<Longrightarrow> signed_dec c b = Some x"
  by (simp add: cbor_laws_def)

lemma cbor_ticket:
  "cbor_laws c \<Longrightarrow> ticket_enc c x = Some b \<Longrightarrow> wf_nodeid (tk_nodeid x) \<Longrightarrow> ticket_dec c b = Some x"
  by (simp add: cbor_laws_def)

lemma cbor_frame: "cbor_laws c \<Longrightarrow> frame_enc c x = Some b \<Longrightarrow> frame_dec c b = Some x"
  by (simp add: cbor_laws_def)

lemma cbor_open: "cbor_laws c \<Longrightarrow> open_enc c x = Some b \<Longrightarrow> open_dec c b = Some x"
  by (simp add: cbor_laws_def)

lemma ticket_prefix_graphic: "list_all graphic TICKET_PREFIX"
  by (simp add: TICKET_PREFIX_def graphic_def in_range8_def word_le_nat_alt)

lemma ticket_roundtrip_padded:
  assumes "cbor_laws c" and "base32_laws c" and "wf_nodeid (tk_nodeid t)"
    and enc: "ticket_encode c t = Inr s"
    and w: "list_all ascii_blank w1" "list_all ascii_blank w2"
  shows "ticket_decode c (w1 @ s @ w2) = Inr t"
proof -
  from enc obtain buf where buf: "ticket_enc c t = Some buf" and s: "s = TICKET_PREFIX @ base32_encode c buf"
    by (auto simp: ticket_encode_def split: option.splits)
  have g: "list_all graphic s" using assms(2) ticket_prefix_graphic by (simp add: s base32_laws_def)
  have "s \<noteq> []" by (simp add: s TICKET_PREFIX_def)
  with w g have "trim (w1 @ s @ w2) = s" by (intro trim_pad)
  then show ?thesis
    using assms(1-3) buf by (simp add: ticket_decode_def s base32_laws_def cbor_ticket)
qed

lemma nodeid_parse_display:
  "hex_laws c \<Longrightarrow> wf_nodeid n \<Longrightarrow> nodeid_from_str c (nodeid_display c n) = Inr n"
  by (simp add: nodeid_from_str_def nodeid_display_def hex_laws_def wf_nodeid_def)

lemma nodeid_from_str_wf: "nodeid_from_str c s = Inr n \<Longrightarrow> wf_nodeid n"
  by (auto simp: nodeid_from_str_def wf_nodeid_def split: option.splits if_splits)

lemma cap_parse_display: "cap_from_str (cap_display k) = Inr k"
  by (cases k) (simp add: cap_from_str_def cap_display_def)

lemma cap_from_str_strict: "cap_from_str s = Inr k \<longleftrightarrow> s = cap_display k"
  by (cases k) (auto simp: cap_from_str_def cap_display_def)

end
