(* ===== verification/Wt_Sample.thy ===== *)
theory Wt_Sample
  imports Wt_Proto
begin

unbundle bit_operations_syntax

text \<open>
  A concrete instance of the record \<open>crates\<close> on which every law of \<open>Wt_Proto\<close> holds: hexadecimal
  digits for hex and base32, a length-prefixed binary format for CBOR, and a signature that is
  the key and the message cut to 64 bytes.  It shows that the laws are consistent, and the
  witnesses evaluate the model on it.
\<close>

section \<open>Codecs\<close>

definition hex_digit :: "nat \<Rightarrow> char" where
  "hex_digit n = ''0123456789abcdef'' ! n"

definition s_hex_encode :: "bytes \<Rightarrow> string" where
  "s_hex_encode bs = concat (map (\<lambda>b. [hex_digit (unat b div 16), hex_digit (unat b mod 16)]) bs)"

fun find_index :: "'a \<Rightarrow> 'a list \<Rightarrow> nat option" where
  "find_index x [] = None"
| "find_index x (y # ys) = (if x = y then Some 0 else map_option Suc (find_index x ys))"

definition hex_value :: "char \<Rightarrow> nat option" where
  "hex_value c = find_index c ''0123456789abcdef''"

fun s_hex_decode :: "string \<Rightarrow> bytes option" where
  "s_hex_decode [] = Some []"
| "s_hex_decode [_] = None"
| "s_hex_decode (a # b # s) =
     (case (hex_value a, hex_value b, s_hex_decode s) of
        (Some x, Some y, Some bs) \<Rightarrow> Some (of_nat (16 * x + y) # bs)
      | _ \<Rightarrow> None)"

definition enc_u64 :: "u64 \<Rightarrow> bytes" where
  "enc_u64 x = [ucast (drop_bit 56 x), ucast (drop_bit 48 x), ucast (drop_bit 40 x), ucast (drop_bit 32 x),
     ucast (drop_bit 24 x), ucast (drop_bit 16 x), ucast (drop_bit 8 x), ucast x]"

definition dec_u64 :: "bytes \<Rightarrow> u64" where
  "dec_u64 bs =
     (case bs of
        [a, b, c, d, e, f, g, h] \<Rightarrow>
          push_bit 56 (ucast a) OR push_bit 48 (ucast b) OR push_bit 40 (ucast c) OR push_bit 32 (ucast d)
          OR push_bit 24 (ucast e) OR push_bit 16 (ucast f) OR push_bit 8 (ucast g) OR ucast h
      | _ \<Rightarrow> 0)"

definition enc_bytes :: "bytes \<Rightarrow> bytes" where
  "enc_bytes b = enc_u64 (of_nat (length b)) @ b"

definition dec_bytes :: "bytes \<Rightarrow> bytes \<times> bytes" where
  "dec_bytes bs = (let n = unat (dec_u64 (take 8 bs)) in (take n (drop 8 bs), drop n (drop 8 bs)))"

definition short :: "bytes \<Rightarrow> bool" where
  "short b \<longleftrightarrow> int (length b) < 4294967296"

section \<open>The instance\<close>

definition s_claims_enc :: "CapabilityToken \<Rightarrow> bytes option" where
  "s_claims_enc x = Some (nid (iss x) @ nid (sub x) @ tid x @ enc_u64 (exp x) @ map (\<lambda>_. 0) (caps x))"

definition s_claims_dec :: "bytes \<Rightarrow> CapabilityToken option" where
  "s_claims_dec b =
     (if length b < 88 then None
      else Some \<lparr>iss = NodeId (take 32 b), sub = NodeId (take 32 (drop 32 b)),
                 exp = dec_u64 (take 8 (drop 80 b)), caps = map (\<lambda>_. Msg) (drop 88 b),
                 tid = take 16 (drop 64 b)\<rparr>)"

definition s_signed_enc :: "SignedToken \<Rightarrow> bytes option" where
  "s_signed_enc x = (if short (claims_cbor x) then Some (enc_bytes (claims_cbor x) @ sig x) else None)"

definition s_signed_dec :: "bytes \<Rightarrow> SignedToken option" where
  "s_signed_dec b = (case dec_bytes b of (x, y) \<Rightarrow> Some \<lparr>claims_cbor = x, sig = y\<rparr>)"

definition s_frame_enc :: "MessageFrame \<Rightarrow> bytes option" where
  "s_frame_enc x = Some (enc_u64 (mf_seq x) @ enc_u64 (mf_ts_ms x) @ mf_payload x)"

definition s_frame_dec :: "bytes \<Rightarrow> MessageFrame option" where
  "s_frame_dec b =
     (if length b < 16 then None
      else Some \<lparr>mf_seq = dec_u64 (take 8 b), mf_ts_ms = dec_u64 (take 8 (drop 8 b)), mf_payload = drop 16 b\<rparr>)"

definition s_open_enc :: "StreamOpen \<Rightarrow> bytes option" where
  "s_open_enc x =
     (case s_signed_enc (so_token x) of
        None \<Rightarrow> None
      | Some t \<Rightarrow> if short t then Some (enc_bytes t @ bytes_of (so_channel x)) else None)"

definition s_open_dec :: "bytes \<Rightarrow> StreamOpen option" where
  "s_open_dec b =
     (case dec_bytes b of
        (t, ch) \<Rightarrow> (case s_signed_dec t of None \<Rightarrow> None | Some st \<Rightarrow> Some (StreamMsg st (string_of ch))))"

definition s_pad :: "nat \<Rightarrow> bytes \<Rightarrow> bytes" where
  "s_pad n b = take n (b @ replicate n 0)"

definition sample_crates :: crates where
  "sample_crates =
     \<lparr>hex_encode = s_hex_encode, hex_decode = s_hex_decode,
      base32_encode = s_hex_encode, base32_decode = (\<lambda>b. s_hex_decode (string_of b)),
      blake3 = s_pad 32,
      claims_enc = s_claims_enc, claims_dec = s_claims_dec,
      signed_enc = s_signed_enc, signed_dec = s_signed_dec,
      ticket_enc = (\<lambda>t. if relay_url t = None \<and> direct_addrs t = [] then Some (nid (tk_nodeid t)) else None),
      ticket_dec = (\<lambda>b. Some \<lparr>tk_nodeid = NodeId b, relay_url = None, direct_addrs = []\<rparr>),
      frame_enc = s_frame_enc, frame_dec = s_frame_dec,
      open_enc = s_open_enc, open_dec = s_open_dec,
      caps_to_json = (\<lambda>cs. Some (map (\<lambda>_. CHR ''m'') cs)),
      caps_from_json = (\<lambda>s. Some (map (\<lambda>_. Msg) s)),
      ed_public = s_pad 32,
      ed_sign = (\<lambda>sk m. s_pad 64 (s_pad 32 sk @ m)),
      ed_valid_key = (\<lambda>_. True),
      ed_verify = (\<lambda>pk m s. s = s_pad 64 (pk @ m))\<rparr>"

section \<open>The laws hold\<close>

lemma length_enc_u64 [simp]: "length (enc_u64 x) = 8"
  by (simp add: enc_u64_def)

lemma dec_enc_u64 [simp]: "dec_u64 (enc_u64 x) = x"
proof (rule bit_word_eqI)
  fix n
  assume "n < LENGTH(64)"
  then consider "n < 8" | "8 \<le> n" "n < 16" | "16 \<le> n" "n < 24" | "24 \<le> n" "n < 32"
    | "32 \<le> n" "n < 40" | "40 \<le> n" "n < 48" | "48 \<le> n" "n < 56" | "56 \<le> n" "n < 64" by fastforce
  then show "bit (dec_u64 (enc_u64 x)) n = bit x n"
    by cases (auto simp: dec_u64_def enc_u64_def bit_simps)
qed

lemma dec_enc_bytes: "short b \<Longrightarrow> dec_bytes (enc_bytes b @ rest) = (b, rest)"
proof -
  assume "short b"
  then have "int (length b) < 2 ^ 64" by (simp add: short_def)
  then have "unat (of_nat (length b) :: u64) = length b" by (simp add: unat_of_nat)
  then show ?thesis by (simp add: dec_bytes_def enc_bytes_def Let_def)
qed

lemma hex_value_digit: "n < 16 \<Longrightarrow> hex_value (hex_digit n) = Some n"
proof -
  assume "n < 16"
  then have "n \<in> set [0..<16]" by simp
  then show ?thesis by (simp add: hex_value_def hex_digit_def upt_rec nth_Cons') (auto simp: hex_value_def hex_digit_def)
qed

lemma hex_decode_encode: "s_hex_decode (s_hex_encode bs) = Some bs"
proof (induction bs)
  case Nil
  then show ?case by (simp add: s_hex_encode_def)
next
  case (Cons b bs)
  have "unat b < 256" using unsigned_less [of b] by simp
  then have "hex_value (hex_digit (unat b div 16)) = Some (unat b div 16)"
    "hex_value (hex_digit (unat b mod 16)) = Some (unat b mod 16)"
    by (simp_all add: hex_value_digit)
  moreover have "16 * (unat b div 16) + unat b mod 16 = unat b" by simp
  then have "(of_nat (16 * (unat b div 16) + unat b mod 16) :: u8) = b" by (simp only: of_nat_unat ucast_id)
  ultimately show ?case using Cons.IH by (simp add: s_hex_encode_def)
qed

lemma hex_graphic: "list_all graphic (s_hex_encode bs)"
proof -
  have "list_all graphic ''0123456789abcdef''"
    by (simp add: graphic_def in_range8_def word_le_nat_alt)
  then have "graphic (hex_digit n)" if "n < 16" for n
    using that unfolding hex_digit_def list_all_length by simp
  moreover have "unat b div 16 < 16" for b :: u8
    using unsigned_less [of b, where ?'a = nat] by (simp add: less_mult_imp_div_less)
  ultimately show ?thesis by (auto simp: s_hex_encode_def list_all_iff)
qed

lemma sample_hex: "hex_laws sample_crates"
  by (simp add: hex_laws_def sample_crates_def hex_decode_encode)

lemma sample_base32: "base32_laws sample_crates"
  by (simp add: base32_laws_def sample_crates_def hex_decode_encode hex_graphic)

lemma sample_cbor: "cbor_laws sample_crates"
proof -
  have "s_signed_dec b = Some x" if "s_signed_enc x = Some b" for x b
    using that by (auto simp: s_signed_enc_def s_signed_dec_def dec_enc_bytes split: if_splits)
  moreover from this have "s_open_dec b = Some x" if "s_open_enc x = Some b" for x b
    using that by (cases x) (auto simp: s_open_enc_def s_open_dec_def dec_enc_bytes split: if_splits option.splits)
  moreover have "s_frame_dec b = Some x" if "s_frame_enc x = Some b" for x b
    using that by (auto simp: s_frame_enc_def s_frame_dec_def)
  moreover have "s_claims_dec b = Some x" if "s_claims_enc x = Some b" "wf_claims x" for x b
  proof -
    have "map (\<lambda>_. Msg) (caps x) = caps x" by (rule map_idI) (metis Cap.exhaust)
    with that show ?thesis
      by (auto simp: s_claims_enc_def s_claims_dec_def wf_claims_def wf_nodeid_def o_def)
  qed
  moreover have "ticket_dec sample_crates b = Some x" if "ticket_enc sample_crates x = Some b" for x b
    using that by (auto simp: sample_crates_def split: if_splits)
  ultimately show ?thesis by (simp add: cbor_laws_def) (simp add: sample_crates_def)
qed

lemma sample_json: "json_laws sample_crates"
proof -
  have "map (\<lambda>_. Msg) cs = cs" for cs by (rule map_idI) (metis Cap.exhaust)
  then show ?thesis by (simp add: json_laws_def sample_crates_def o_def)
qed

lemma length_s_pad [simp]: "length (s_pad n b) = n"
  by (simp add: s_pad_def)

lemma sample_ed25519: "ed25519_laws sample_crates"
  by (simp add: ed25519_laws_def sample_crates_def)

lemma sample_blake3: "blake3_laws sample_crates"
  by (simp add: blake3_laws_def sample_crates_def)

lemmas sample_laws = sample_hex sample_base32 sample_cbor sample_json sample_ed25519 sample_blake3

text \<open>Node ids for examples.\<close>

definition sample_node :: "u8 \<Rightarrow> NodeId" where
  "sample_node b = NodeId (replicate 32 b)"

lemma wf_sample_node [simp]: "wf_nodeid (sample_node b)"
  by (simp add: wf_nodeid_def sample_node_def)

end
