(* ===== verification/Wt_Store_Base.thy ===== *)
theory Wt_Store_Base
  imports Wt_Sample "HOL-Library.Char_ord" "HOL-Library.List_Lexorder" "HOL-Library.Product_Lexorder"
begin

text \<open>
  The database behind \<^verbatim>\<open>src/crates/wt-core/src/store.rs\<close>: the rows of its tables, the
  database as a record, the call that runs a closure on the database thread, and the schema
  migrations.  \<open>peers\<close>, \<open>tokens\<close> and \<open>messages\<close> are kept as stored (blobs and 64-bit
  integers) beside the Rust row structs their readers build, because those readers can fail;
  the rows of the orchestration tables are kept with their \<open>u64\<close> fields, whose casts to and
  from the \<open>INTEGER\<close> columns cancel, and are compared as \<open>i64\<close>.
\<close>

section \<open>Rows\<close>

record peer_rec =
  p_nodeid :: bytes
  p_name :: string
  p_added_at_ms :: int
  p_last_seen_ms :: "int option"
  p_addr_blob :: "bytes option"

record token_rec =
  t_id :: bytes
  t_iss :: bytes
  t_sub :: bytes
  t_exp :: int
  t_caps :: string
  t_raw :: bytes
  t_revoked :: int

record msg_rec =
  m_sender :: bytes
  m_channel_id :: bytes
  m_seq :: int
  m_direction :: int
  m_channel :: string
  m_peer :: bytes
  m_payload :: bytes
  m_enqueued_at_ms :: int
  m_delivered_at_ms :: "int option"

datatype Direction = DirOut | DirIn

definition direction_from_i64 :: "int \<Rightarrow> Direction option" where
  "direction_from_i64 v = (if v = 0 then Some DirOut else if v = 1 then Some DirIn else None)"

record MessageRow =
  mr_sender :: NodeId
  mr_channel_id :: bytes
  mr_seq :: u64
  mr_direction :: Direction
  mr_channel :: string
  mr_peer :: NodeId
  mr_payload :: bytes
  mr_enqueued_at_ms :: u64
  mr_delivered_at_ms :: "u64 option"

record PeerRow =
  pr_nodeid :: NodeId
  pr_name :: string
  pr_added_at_ms :: u64
  pr_last_seen_ms :: "u64 option"
  pr_addr_blob :: "bytes option"

record TokenRow =
  tr_id :: TokenId
  tr_iss :: NodeId
  tr_sub :: NodeId
  tr_exp :: u64
  tr_caps :: "Cap list"
  tr_raw :: bytes
  tr_revoked :: bool

record GroupRow =
  gr_name :: string
  gr_created_at_ms :: u64

record AgentRow =
  ag_group :: string
  ag_name :: string
  ag_token_hash :: bytes
  ag_role :: string
  ag_dir :: "string option"
  ag_pid :: "int option"
  ag_status :: string
  ag_created_at_ms :: u64
  ag_last_seen_ms :: "u64 option"

record SessionRow =
  se_group :: string
  se_name :: string
  se_prime_agent :: string
  se_child_agent :: string
  se_fs_mode :: string
  se_base_dir :: "string option"
  se_workspace_path :: string
  se_branch :: "string option"
  se_status :: string
  se_created_at_ms :: u64

record AgentMsgRow =
  am_group :: string
  am_session :: string
  am_seq :: u64
  am_from :: string
  am_to :: string
  am_kind :: string
  am_payload :: bytes
  am_enqueued_at_ms :: u64
  am_consumed_at_ms :: "u64 option"

section \<open>The database and its thread\<close>

text \<open>
  \<open>db_alive\<close> is the database thread; a call on a store whose thread is gone fails before
  it touches a table.  \<open>db_tables\<close> are the tables the schema has so far.
\<close>

record db =
  db_alive :: bool
  db_tables :: "string list"
  db_meta :: "(string \<times> bytes) list"
  db_peers :: "peer_rec list"
  db_tokens :: "token_rec list"
  db_messages :: "msg_rec list"
  db_groups :: "GroupRow list"
  db_agents :: "AgentRow list"
  db_sessions :: "SessionRow list"
  db_agent_messages :: "AgentMsgRow list"

datatype store_error =
    StoreGone
  | NoSuchTable string
  | UniqueViolation
  | FromSqlConversion nat string
  | InvalidColumnType
  | CapsJson

type_synonym 'a store_result = "(store_error + 'a) \<times> db"

definition call :: "string \<Rightarrow> (db \<Rightarrow> 'a store_result) \<Rightarrow> db \<Rightarrow> 'a store_result" where
  "call t f d =
     (if \<not> db_alive d then (Inl StoreGone, d)
      else if t \<notin> set (db_tables d) then (Inl (NoSuchTable t), d)
      else f d)"

definition all_tables :: "string list" where
  "all_tables = [''meta'', ''peers'', ''tokens'', ''messages'', ''groups'', ''agents'', ''sessions'',
     ''agent_messages'']"

definition db_ok :: "db \<Rightarrow> bool" where
  "db_ok d \<longleftrightarrow> db_alive d \<and> set all_tables \<subseteq> set (db_tables d)"

definition empty_file :: db where
  "empty_file = \<lparr>db_alive = False, db_tables = [], db_meta = [], db_peers = [], db_tokens = [],
     db_messages = [], db_groups = [], db_agents = [], db_sessions = [], db_agent_messages = []\<rparr>"

section \<open>Schema migrations\<close>

text \<open>The tables each step of \<open>MIGRATIONS\<close> creates (\<open>CREATE TABLE IF NOT EXISTS\<close>).\<close>

definition MIGRATIONS :: "string list list" where
  "MIGRATIONS =
     [[''meta'', ''peers'', ''tokens''],
      [''messages''],
      [''groups'', ''agents'', ''sessions'', ''agent_messages'']]"

definition target_schema_version :: int where
  "target_schema_version = int (length MIGRATIONS)"

definition create_table :: "string \<Rightarrow> db \<Rightarrow> db" where
  "create_table t d = (if t \<in> set (db_tables d) then d else d\<lparr>db_tables := db_tables d @ [t]\<rparr>)"

definition meta_put :: "string \<Rightarrow> bytes \<Rightarrow> (string \<times> bytes) list \<Rightarrow> (string \<times> bytes) list" where
  "meta_put k v m =
     (if list_ex (\<lambda>p. fst p = k) m then map (\<lambda>p. if fst p = k then (k, v) else p) m else m @ [(k, v)])"

definition stored_version :: "db \<Rightarrow> int" where
  "stored_version d =
     (case map_of (db_meta d) ''schema_version'' of
        None \<Rightarrow> 0
      | Some v \<Rightarrow> (case parse_i64 (from_utf8_lossy v) of None \<Rightarrow> 0 | Some n \<Rightarrow> n))"

definition run_migrations :: "db \<Rightarrow> db" where
  "run_migrations d =
     (let d1 = create_table ''meta'' d;
          current = stored_version d1;
          target = target_schema_version
      in if current \<ge> target then d1
         else let skip = nat (uint (as_u64 current));
                  d2 = fold create_table (concat (drop skip MIGRATIONS)) d1
              in d2\<lparr>db_meta := meta_put ''schema_version'' (bytes_of (show_int target)) (db_meta d2)\<rparr>)"

text \<open>\<open>Store::open_at\<close>: migrate, then hand the connection to its thread.\<close>

definition open_at :: "db \<Rightarrow> db" where
  "open_at file = (run_migrations file)\<lparr>db_alive := True\<rparr>"

definition meta_get :: "string \<Rightarrow> db \<Rightarrow> bytes option store_result" where
  "meta_get key = call ''meta'' (\<lambda>d. (Inr (map_of (db_meta d) key), d))"

section \<open>Reading rows\<close>

definition fixed_16 :: "bytes \<Rightarrow> nat \<Rightarrow> string \<Rightarrow> store_error + bytes" where
  "fixed_16 bs col name = (if length bs = 16 then Inr bs else Inl (FromSqlConversion col name))"

definition fixed_32 :: "bytes \<Rightarrow> nat \<Rightarrow> string \<Rightarrow> store_error + bytes" where
  "fixed_32 bs col name = (if length bs = 32 then Inr bs else Inl (FromSqlConversion col name))"

definition row_to_message :: "msg_rec \<Rightarrow> store_error + MessageRow" where
  "row_to_message r =
     (case fixed_32 (m_sender r) 0 ''messages.id_sender'' of Inl e \<Rightarrow> Inl e | Inr sender \<Rightarrow>
      case fixed_16 (m_channel_id r) 1 ''messages.id_channel'' of Inl e \<Rightarrow> Inl e | Inr cid \<Rightarrow>
      case direction_from_i64 (m_direction r) of
        None \<Rightarrow> Inl (FromSqlConversion 3 ''invalid direction'')
      | Some dir \<Rightarrow>
      case fixed_32 (m_peer r) 5 ''messages.peer_nodeid'' of Inl e \<Rightarrow> Inl e | Inr peer \<Rightarrow>
        Inr \<lparr>mr_sender = NodeId sender, mr_channel_id = cid, mr_seq = as_u64 (m_seq r),
             mr_direction = dir, mr_channel = m_channel r, mr_peer = NodeId peer,
             mr_payload = m_payload r, mr_enqueued_at_ms = as_u64 (m_enqueued_at_ms r),
             mr_delivered_at_ms = map_option as_u64 (m_delivered_at_ms r)\<rparr>)"

definition row_to_peer :: "peer_rec \<Rightarrow> store_error + PeerRow" where
  "row_to_peer r =
     (case fixed_32 (p_nodeid r) 0 ''nodeid'' of
        Inl e \<Rightarrow> Inl e
      | Inr nb \<Rightarrow>
          Inr \<lparr>pr_nodeid = NodeId nb, pr_name = p_name r, pr_added_at_ms = as_u64 (p_added_at_ms r),
               pr_last_seen_ms = map_option as_u64 (p_last_seen_ms r), pr_addr_blob = p_addr_blob r\<rparr>)"

definition row_to_token :: "crates \<Rightarrow> token_rec \<Rightarrow> store_error + TokenRow" where
  "row_to_token c r =
     (case fixed_16 (t_id r) 0 ''id'' of Inl e \<Rightarrow> Inl e | Inr ident \<Rightarrow>
      case fixed_32 (t_iss r) 1 ''iss'' of Inl e \<Rightarrow> Inl e | Inr i \<Rightarrow>
      case fixed_32 (t_sub r) 2 ''sub'' of Inl e \<Rightarrow> Inl e | Inr s \<Rightarrow>
        Inr \<lparr>tr_id = ident, tr_iss = NodeId i, tr_sub = NodeId s, tr_exp = as_u64 (t_exp r),
             tr_caps = (case caps_from_json c (t_caps r) of None \<Rightarrow> [] | Some cs \<Rightarrow> cs),
             tr_raw = t_raw r, tr_revoked = (t_revoked r \<noteq> 0)\<rparr>)"

section \<open>Lemmas\<close>

lemma call_ok: "db_ok d \<Longrightarrow> t \<in> set all_tables \<Longrightarrow> call t f d = f d"
  by (auto simp: call_def db_ok_def)

lemma call_frame: "(\<And>r d'. f d = (r, d') \<Longrightarrow> P d') \<Longrightarrow> P d \<Longrightarrow> P (snd (call t f d))"
  by (cases "f d") (auto simp: call_def)

lemma call_dead: "\<not> db_alive d \<Longrightarrow> call t f d = (Inl StoreGone, d)"
  by (simp add: call_def)

lemma all_tables_mem [simp]:
  "''meta'' \<in> set all_tables" "''peers'' \<in> set all_tables" "''tokens'' \<in> set all_tables"
  "''messages'' \<in> set all_tables" "''groups'' \<in> set all_tables" "''agents'' \<in> set all_tables"
  "''sessions'' \<in> set all_tables" "''agent_messages'' \<in> set all_tables"
  by (simp_all add: all_tables_def)

lemma set_create_table: "set (db_tables (create_table t d)) = insert t (set (db_tables d))"
  by (auto simp: create_table_def)

lemma set_create_tables:
  "set (db_tables (fold create_table ts d)) = set ts \<union> set (db_tables d)"
  by (induction ts arbitrary: d) (auto simp: set_create_table)

lemma create_table_frame [simp]:
  "db_meta (create_table t d) = db_meta d" "db_alive (create_table t d) = db_alive d"
  "db_peers (create_table t d) = db_peers d" "db_tokens (create_table t d) = db_tokens d"
  "db_messages (create_table t d) = db_messages d" "db_groups (create_table t d) = db_groups d"
  "db_agents (create_table t d) = db_agents d" "db_sessions (create_table t d) = db_sessions d"
  "db_agent_messages (create_table t d) = db_agent_messages d"
  by (simp_all add: create_table_def)

lemma create_tables_frame [simp]:
  "db_meta (fold create_table ts d) = db_meta d" "db_alive (fold create_table ts d) = db_alive d"
  "db_peers (fold create_table ts d) = db_peers d" "db_tokens (fold create_table ts d) = db_tokens d"
  "db_messages (fold create_table ts d) = db_messages d" "db_groups (fold create_table ts d) = db_groups d"
  "db_agents (fold create_table ts d) = db_agents d" "db_sessions (fold create_table ts d) = db_sessions d"
  "db_agent_messages (fold create_table ts d) = db_agent_messages d"
  by (induction ts arbitrary: d) simp_all

lemma map_of_meta_put [simp]: "map_of (meta_put k v m) k = Some v"
proof (cases "list_ex (\<lambda>p. fst p = k) m")
  case True
  then have "map_of (map (\<lambda>p. if fst p = k then (k, v) else p) m) k = Some v"
    by (induction m) auto
  with True show ?thesis by (simp add: meta_put_def)
next
  case False
  then have "map_of m k = None" by (auto simp: list_ex_iff map_of_eq_None_iff)
  with False show ?thesis by (simp add: meta_put_def map_add_def)
qed

lemma map_of_meta_put_other: "k' \<noteq> k \<Longrightarrow> map_of (meta_put k v m) k' = map_of m k'"
proof -
  assume ne: "k' \<noteq> k"
  then have "map_of (map (\<lambda>p. if fst p = k then (k, v) else p) m) k' = map_of m k'"
    by (induction m) auto
  with ne show ?thesis by (simp add: meta_put_def map_add_def split: option.splits)
qed

lemma parse_target: "parse_i64 (from_utf8_lossy (bytes_of (show_int target_schema_version))) = Some 3"
  by (simp add: target_schema_version_def MIGRATIONS_def) code_simp

lemma show_target: "show_int target_schema_version = ''3''"
  by code_simp

lemma stored_version_put:
  "stored_version (d\<lparr>db_meta := meta_put ''schema_version'' (bytes_of (show_int target_schema_version)) m\<rparr>)
     = target_schema_version"
  by (simp add: stored_version_def parse_target) (simp add: target_schema_version_def MIGRATIONS_def)

text \<open>What a migration of a file at version \<open>n\<close> finds and leaves.\<close>

definition schema_at :: "nat \<Rightarrow> db \<Rightarrow> bool" where
  "schema_at n d \<longleftrightarrow> n \<le> length MIGRATIONS \<and> stored_version d = int n
     \<and> set (concat (take n MIGRATIONS)) \<subseteq> set (db_tables d)"

lemma run_migrations_data [simp]:
  "db_peers (run_migrations d) = db_peers d" "db_tokens (run_migrations d) = db_tokens d"
  "db_messages (run_migrations d) = db_messages d" "db_groups (run_migrations d) = db_groups d"
  "db_agents (run_migrations d) = db_agents d" "db_sessions (run_migrations d) = db_sessions d"
  "db_agent_messages (run_migrations d) = db_agent_messages d"
  by (simp_all add: run_migrations_def Let_def)

lemma stored_version_create [simp]: "stored_version (create_table t d) = stored_version d"
  by (simp add: stored_version_def)

lemma as_u64_nat: "n \<le> 3 \<Longrightarrow> unat (as_u64 (int n)) = n"
  by (simp add: as_u64_def unat_of_nat)

lemma concat_MIGRATIONS: "set (concat MIGRATIONS) = set all_tables"
  by (auto simp: MIGRATIONS_def all_tables_def)

lemma run_migrations_schema:
  assumes "schema_at n d"
  shows "set all_tables \<subseteq> set (db_tables (run_migrations d))"
    and "stored_version (run_migrations d) = target_schema_version"
proof -
  have len: "length MIGRATIONS = 3" by (simp add: MIGRATIONS_def)
  from assms have n: "n \<le> 3" and v: "stored_version d = int n"
    and t: "set (concat (take n MIGRATIONS)) \<subseteq> set (db_tables d)"
    by (simp_all add: schema_at_def len)
  have split: "set (concat MIGRATIONS) = set (concat (take n MIGRATIONS)) \<union> set (concat (drop n MIGRATIONS))"
    by (metis append_take_drop_id concat_append set_append)
  show "set all_tables \<subseteq> set (db_tables (run_migrations d))"
  proof (cases "n = 3")
    case True
    with v t show ?thesis
      by (auto simp: run_migrations_def Let_def target_schema_version_def len set_create_table concat_MIGRATIONS [symmetric])
  next
    case False
    with n v t split show ?thesis
      by (auto simp: run_migrations_def Let_def target_schema_version_def len set_create_table set_create_tables
          as_u64_nat concat_MIGRATIONS [symmetric])
  qed
  show "stored_version (run_migrations d) = target_schema_version"
  proof (cases "n = 3")
    case True
    with v show ?thesis
      by (simp add: run_migrations_def Let_def target_schema_version_def len)
  next
    case False
    with n v show ?thesis
      by (simp add: run_migrations_def Let_def stored_version_put) (simp add: target_schema_version_def len)
  qed
qed

text \<open>An opened, empty database, and what examples need of it.\<close>

definition sample_db :: db where
  "sample_db = empty_file\<lparr>db_alive := True, db_tables := all_tables\<rparr>"

lemma sample_db_ok [simp]: "db_ok sample_db"
  by (simp add: db_ok_def sample_db_def)

lemma sample_db_tables [simp]:
  "db_peers sample_db = []" "db_tokens sample_db = []" "db_messages sample_db = []" "db_groups sample_db = []"
  "db_agents sample_db = []" "db_sessions sample_db = []" "db_agent_messages sample_db = []"
  by (simp_all add: sample_db_def empty_file_def)

section \<open>Properties\<close>


lemma schema_at_empty: "schema_at 0 empty_file"
  by (simp add: schema_at_def stored_version_def empty_file_def)


end
