(* ===== verification/Wt_Registry.thy ===== *)
theory Wt_Registry
  imports Wt_Store_Base
begin

text \<open>
  The peer registry and the token table of \<^verbatim>\<open>src/crates/wt-core/src/store.rs\<close>: the upserts
  with their conflict targets, the reads with their row conversions, and the search for the
  newest usable token.  \<open>now\<close> is the value the clock returns to the operation.
\<close>

section \<open>Peers\<close>

datatype PeerSelectorBytes = PsName string | PsNodeId NodeId

definition peer_conflict :: "peer_rec \<Rightarrow> peer_rec \<Rightarrow> bool" where
  "peer_conflict a b \<longleftrightarrow> p_nodeid a = p_nodeid b \<or> p_name a = p_name b"

text \<open>\<open>ON CONFLICT(nodeid) DO UPDATE\<close>: only the node id is a conflict target, so a name that
  belongs to another row fails the statement, in the insert and in the update.\<close>

definition peer_add :: "u64 \<Rightarrow> NodeId \<Rightarrow> string \<Rightarrow> bytes option \<Rightarrow> db \<Rightarrow> unit store_result" where
  "peer_add now nodeid name addr_blob = call ''peers'' (\<lambda>d.
     if list_ex (\<lambda>r. p_nodeid r \<noteq> nid nodeid \<and> p_name r = name) (db_peers d)
     then (Inl UniqueViolation, d)
     else if list_ex (\<lambda>r. p_nodeid r = nid nodeid) (db_peers d)
     then (Inr (), d\<lparr>db_peers := snd (sql_update (\<lambda>r. p_nodeid r = nid nodeid)
             (\<lambda>r. r\<lparr>p_name := name, p_addr_blob := coalesce addr_blob (p_addr_blob r)\<rparr>) (db_peers d))\<rparr>)
     else (Inr (), d\<lparr>db_peers := db_peers d @
             [\<lparr>p_nodeid = nid nodeid, p_name = name, p_added_at_ms = as_i64 now,
               p_last_seen_ms = None, p_addr_blob = addr_blob\<rparr>]\<rparr>))"

definition peer_matches :: "PeerSelectorBytes \<Rightarrow> peer_rec \<Rightarrow> bool" where
  "peer_matches sel r = (case sel of PsNodeId n \<Rightarrow> p_nodeid r = nid n | PsName s \<Rightarrow> p_name r = s)"

definition peer_remove :: "PeerSelectorBytes \<Rightarrow> db \<Rightarrow> nat store_result" where
  "peer_remove sel = call ''peers'' (\<lambda>d.
     (case sql_delete (peer_matches sel) (db_peers d) of
        (n, rows) \<Rightarrow> (Inr n, d\<lparr>db_peers := rows\<rparr>)))"

definition peer_get :: "PeerSelectorBytes \<Rightarrow> db \<Rightarrow> PeerRow option store_result" where
  "peer_get sel = call ''peers'' (\<lambda>d.
     (case sql_query_row (peer_matches sel) (db_peers d) of
        None \<Rightarrow> (Inr None, d)
      | Some r \<Rightarrow> (case row_to_peer r of Inl e \<Rightarrow> (Inl e, d) | Inr p \<Rightarrow> (Inr (Some p), d))))"

definition peer_list :: "db \<Rightarrow> PeerRow list store_result" where
  "peer_list = call ''peers'' (\<lambda>d.
     (collect_ok (map row_to_peer (sql_order_by p_name (db_peers d))), d))"

definition peer_touch_seen :: "u64 \<Rightarrow> NodeId \<Rightarrow> db \<Rightarrow> unit store_result" where
  "peer_touch_seen now nodeid = call ''peers'' (\<lambda>d.
     (Inr (), d\<lparr>db_peers := snd (sql_update (\<lambda>r. p_nodeid r = nid nodeid)
        (\<lambda>r. r\<lparr>p_last_seen_ms := Some (as_i64 now)\<rparr>) (db_peers d))\<rparr>))"

section \<open>Tokens\<close>

definition token_conflict :: "token_rec \<Rightarrow> token_rec \<Rightarrow> bool" where
  "token_conflict a b \<longleftrightarrow> t_id a = t_id b"

definition token_to_rec :: "TokenRow \<Rightarrow> string \<Rightarrow> token_rec" where
  "token_to_rec row caps_json =
     \<lparr>t_id = tr_id row, t_iss = nid (tr_iss row), t_sub = nid (tr_sub row), t_exp = as_i64 (tr_exp row),
      t_caps = caps_json, t_raw = tr_raw row, t_revoked = (if tr_revoked row then 1 else 0)\<rparr>"

text \<open>\<open>ON CONFLICT(id) DO UPDATE SET raw = excluded.raw, revoked = excluded.revoked\<close>.\<close>

definition token_insert :: "crates \<Rightarrow> TokenRow \<Rightarrow> db \<Rightarrow> unit store_result" where
  "token_insert c row = call ''tokens'' (\<lambda>d.
     case caps_to_json c (tr_caps row) of
       None \<Rightarrow> (Inl CapsJson, d)
     | Some caps_json \<Rightarrow>
         (let new = token_to_rec row caps_json in
          if list_ex (\<lambda>r. t_id r = tr_id row) (db_tokens d)
          then (Inr (), d\<lparr>db_tokens := snd (sql_update (\<lambda>r. t_id r = tr_id row)
                  (\<lambda>r. r\<lparr>t_raw := t_raw new, t_revoked := t_revoked new\<rparr>) (db_tokens d))\<rparr>)
          else (Inr (), d\<lparr>db_tokens := db_tokens d @ [new]\<rparr>)))"

type_synonym token_plan = "token_rec list \<Rightarrow> token_rec list"

definition token_list :: "crates \<Rightarrow> token_plan \<Rightarrow> db \<Rightarrow> TokenRow list store_result" where
  "token_list c plan = call ''tokens'' (\<lambda>d.
     (collect_ok (map (row_to_token c) (sql_order_by (\<lambda>r. - t_exp r) (plan (db_tokens d)))), d))"

definition token_find :: "crates \<Rightarrow> TokenId \<Rightarrow> db \<Rightarrow> TokenRow option store_result" where
  "token_find c ident = call ''tokens'' (\<lambda>d.
     (case sql_query_row (\<lambda>r. t_id r = ident) (db_tokens d) of
        None \<Rightarrow> (Inr None, d)
      | Some r \<Rightarrow> (case row_to_token c r of Inl e \<Rightarrow> (Inl e, d) | Inr t \<Rightarrow> (Inr (Some t), d))))"

fun first_with_cap :: "crates \<Rightarrow> Cap \<Rightarrow> token_rec list \<Rightarrow> store_error + TokenRow option" where
  "first_with_cap c required [] = Inr None"
| "first_with_cap c required (r # rs) =
     (case row_to_token c r of
        Inl e \<Rightarrow> Inl e
      | Inr row \<Rightarrow> if list_ex (\<lambda>k. k = required) (tr_caps row) then Inr (Some row)
                   else first_with_cap c required rs)"

definition find_token_with_cap ::
  "crates \<Rightarrow> token_plan \<Rightarrow> NodeId \<Rightarrow> NodeId \<Rightarrow> Cap \<Rightarrow> u64 \<Rightarrow> db \<Rightarrow> TokenRow option store_result" where
  "find_token_with_cap c plan issuer subject required now_secs = call ''tokens'' (\<lambda>d.
     (first_with_cap c required
        (sql_order_by (\<lambda>r. - t_exp r) (plan (filter
           (\<lambda>r. t_iss r = nid issuer \<and> t_sub r = nid subject \<and> t_revoked r = 0 \<and> t_exp r > as_i64 now_secs)
           (db_tokens d)))), d))"

definition token_revoke :: "TokenId \<Rightarrow> db \<Rightarrow> nat store_result" where
  "token_revoke ident = call ''tokens'' (\<lambda>d.
     (case sql_update (\<lambda>r. t_id r = ident) (\<lambda>r. r\<lparr>t_revoked := 1\<rparr>) (db_tokens d) of
        (n, rows) \<Rightarrow> (Inr n, d\<lparr>db_tokens := rows\<rparr>)))"

text \<open>A stored token that serves for a stream from \<open>s\<close> to the issuer \<open>i\<close> at \<open>now\<close>.\<close>

definition usable_token :: "crates \<Rightarrow> NodeId \<Rightarrow> NodeId \<Rightarrow> Cap \<Rightarrow> u64 \<Rightarrow> token_rec \<Rightarrow> bool" where
  "usable_token c i s k now r \<longleftrightarrow>
     t_iss r = nid i \<and> t_sub r = nid s \<and> t_revoked r = 0 \<and> t_exp r > as_i64 now
     \<and> (case row_to_token c r of Inl _ \<Rightarrow> False | Inr t \<Rightarrow> k \<in> set (tr_caps t))"

section \<open>Table constraints\<close>

text \<open>A peer conflict needs equal node ids or equal names; a token conflict equal ids.\<close>

definition peers_unique :: "peer_rec list \<Rightarrow> bool" where
  "peers_unique rows \<longleftrightarrow> unique_rows peer_conflict rows"

definition tokens_unique :: "token_rec list \<Rightarrow> bool" where
  "tokens_unique rows \<longleftrightarrow> unique_rows token_conflict rows"

definition peer_rec_ok :: "peer_rec \<Rightarrow> bool" where
  "peer_rec_ok r \<longleftrightarrow> length (p_nodeid r) = 32"

definition token_rec_ok :: "token_rec \<Rightarrow> bool" where
  "token_rec_ok r \<longleftrightarrow> length (t_id r) = 16 \<and> length (t_iss r) = 32 \<and> length (t_sub r) = 32
     \<and> - (2 ^ 63) \<le> t_exp r \<and> t_exp r \<le> max_i64"

definition wf_token_row :: "TokenRow \<Rightarrow> bool" where
  "wf_token_row row \<longleftrightarrow> length (tr_id row) = 16 \<and> wf_nodeid (tr_iss row) \<and> wf_nodeid (tr_sub row)"

interpretation peers_t: unique_table peer_conflict
  by unfold_locales (auto simp: peer_conflict_def)

interpretation tokens_t: unique_table token_conflict
  by unfold_locales (auto simp: token_conflict_def)

section \<open>Lemmas: reads convert\<close>

lemma row_to_peer_ok:
  "peer_rec_ok r \<Longrightarrow> row_to_peer r = Inr \<lparr>pr_nodeid = NodeId (p_nodeid r), pr_name = p_name r,
     pr_added_at_ms = as_u64 (p_added_at_ms r), pr_last_seen_ms = map_option as_u64 (p_last_seen_ms r),
     pr_addr_blob = p_addr_blob r\<rparr>"
  by (simp add: row_to_peer_def fixed_32_def peer_rec_ok_def)

lemma row_to_peer_iff: "is_ok (row_to_peer r) \<longleftrightarrow> peer_rec_ok r"
  by (simp add: row_to_peer_def fixed_32_def peer_rec_ok_def)

lemma row_to_token_ok:
  "token_rec_ok r \<Longrightarrow> row_to_token c r = Inr \<lparr>tr_id = t_id r, tr_iss = NodeId (t_iss r),
     tr_sub = NodeId (t_sub r), tr_exp = as_u64 (t_exp r),
     tr_caps = (case caps_from_json c (t_caps r) of None \<Rightarrow> [] | Some cs \<Rightarrow> cs),
     tr_raw = t_raw r, tr_revoked = (t_revoked r \<noteq> 0)\<rparr>"
  by (simp add: row_to_token_def fixed_16_def fixed_32_def token_rec_ok_def)

lemma row_to_token_fields:
  assumes "row_to_token c r = Inr t"
  shows "tr_id t = t_id r" "nid (tr_iss t) = t_iss r" "nid (tr_sub t) = t_sub r"
    "tr_exp t = as_u64 (t_exp r)" "tr_raw t = t_raw r" "tr_revoked t \<longleftrightarrow> t_revoked r \<noteq> 0"
  using assms by (auto simp: row_to_token_def fixed_16_def fixed_32_def split: if_splits)

lemma token_to_rec_ok: "wf_token_row row \<Longrightarrow> token_rec_ok (token_to_rec row j)"
  using as_i64_bounds by (simp add: wf_token_row_def token_rec_ok_def token_to_rec_def wf_nodeid_def)

section \<open>Lemmas: what each operation leaves\<close>

lemma peer_add_unique:
  assumes "peers_unique (db_peers d)"
  shows "peers_unique (db_peers (snd (peer_add now n name addr d)))"
proof (cases "list_ex (\<lambda>r. p_nodeid r \<noteq> nid n \<and> p_name r = name) (db_peers d)")
  case True
  with assms show ?thesis by (simp add: peer_add_def call_def)
next
  case clash: False
  show ?thesis
  proof (cases "list_ex (\<lambda>r. p_nodeid r = nid n) (db_peers d)")
    case True
    let ?f = "\<lambda>r. if p_nodeid r = nid n then r\<lparr>p_name := name, p_addr_blob := coalesce addr (p_addr_blob r)\<rparr> else r"
    have "sorted_wrt (\<lambda>a b. \<not> peer_conflict (?f a) (?f b)) (db_peers d)"
    proof (rule sorted_wrt_mono_rel [OF _ assms [unfolded peers_unique_def unique_rows_def]])
      fix a b
      assume ab: "a \<in> set (db_peers d)" "b \<in> set (db_peers d)" and nc: "\<not> peer_conflict a b"
      have "p_name a \<noteq> name" if "p_nodeid a \<noteq> nid n" using clash ab that by (auto simp: list_ex_iff)
      moreover have "p_name b \<noteq> name" if "p_nodeid b \<noteq> nid n" using clash ab that by (auto simp: list_ex_iff)
      ultimately show "\<not> peer_conflict (?f a) (?f b)" using nc by (auto simp: peer_conflict_def)
    qed
    with True clash assms show ?thesis
      by (simp add: peer_add_def call_def sql_update_def peers_unique_def unique_rows_def sorted_wrt_map)
  next
    case False
    let ?r = "\<lparr>p_nodeid = nid n, p_name = name, p_added_at_ms = as_i64 now, p_last_seen_ms = None,
               p_addr_blob = addr\<rparr>"
    have "\<not> peer_conflict ?r x" if "x \<in> set (db_peers d)" for x
      using clash False that by (auto simp: peer_conflict_def list_ex_iff)
    then have "unique_rows peer_conflict (db_peers d @ [?r])"
      using assms by (intro peers_t.unique_append) (simp_all add: peers_unique_def)
    with False clash assms show ?thesis by (simp add: peer_add_def call_def peers_unique_def)
  qed
qed

lemma peer_remove_unique:
  "peers_unique (db_peers d) \<Longrightarrow> peers_unique (db_peers (snd (peer_remove sel d)))"
  using peers_t.unique_delete [of "db_peers d" "peer_matches sel"]
  by (simp add: peer_remove_def call_def peers_unique_def case_prod_unfold)

lemma peer_touch_unique:
  assumes "peers_unique (db_peers d)"
  shows "peers_unique (db_peers (snd (peer_touch_seen now n d)))"
proof -
  have "unique_rows peer_conflict (snd (sql_update (\<lambda>r. p_nodeid r = nid n)
          (\<lambda>r. r\<lparr>p_last_seen_ms := Some (as_i64 now)\<rparr>) (db_peers d)))"
    using assms by (intro peers_t.unique_update) (auto simp: peers_unique_def peer_conflict_def split: if_splits)
  with assms show ?thesis by (simp add: peer_touch_seen_def call_def peers_unique_def)
qed

lemma peer_add_rows:
  "wf_nodeid n \<Longrightarrow> list_all peer_rec_ok (db_peers d) \<Longrightarrow>
   list_all peer_rec_ok (db_peers (snd (peer_add now n name addr d)))"
  by (auto simp: peer_add_def call_def list_all_iff peer_rec_ok_def wf_nodeid_def sql_update_def)

lemma peer_remove_rows:
  "list_all peer_rec_ok (db_peers d) \<Longrightarrow> list_all peer_rec_ok (db_peers (snd (peer_remove sel d)))"
  by (auto simp: peer_remove_def call_def list_all_iff sql_delete_def)

lemma peer_touch_rows:
  "list_all peer_rec_ok (db_peers d) \<Longrightarrow> list_all peer_rec_ok (db_peers (snd (peer_touch_seen now n d)))"
  by (auto simp: peer_touch_seen_def call_def list_all_iff sql_update_def peer_rec_ok_def)

lemma token_insert_unique:
  assumes "tokens_unique (db_tokens d)"
  shows "tokens_unique (db_tokens (snd (token_insert c row d)))"
proof (cases "caps_to_json c (tr_caps row)")
  case None
  with assms show ?thesis by (simp add: token_insert_def call_def)
next
  case (Some j)
  have upd: "unique_rows token_conflict (snd (sql_update (\<lambda>r. t_id r = tr_id row)
      (\<lambda>r. r\<lparr>t_raw := t_raw (token_to_rec row j), t_revoked := t_revoked (token_to_rec row j)\<rparr>) (db_tokens d)))"
    using assms by (intro tokens_t.unique_update) (auto simp: tokens_unique_def token_conflict_def split: if_splits)
  have app: "unique_rows token_conflict (db_tokens d @ [token_to_rec row j])"
    if "\<not> list_ex (\<lambda>r. t_id r = tr_id row) (db_tokens d)"
    using assms that by (intro tokens_t.unique_append)
      (auto simp: tokens_unique_def token_conflict_def token_to_rec_def list_ex_iff)
  from Some upd app assms show ?thesis by (simp add: token_insert_def call_def tokens_unique_def Let_def)
qed

lemma token_revoke_unique:
  assumes "tokens_unique (db_tokens d)"
  shows "tokens_unique (db_tokens (snd (token_revoke i d)))"
proof -
  have "unique_rows token_conflict (snd (sql_update (\<lambda>r. t_id r = i) (\<lambda>r. r\<lparr>t_revoked := 1\<rparr>) (db_tokens d)))"
    using assms by (intro tokens_t.unique_update) (auto simp: tokens_unique_def token_conflict_def split: if_splits)
  with assms show ?thesis by (simp add: token_revoke_def call_def tokens_unique_def case_prod_unfold)
qed

lemma token_insert_rows:
  "wf_token_row row \<Longrightarrow> list_all token_rec_ok (db_tokens d) \<Longrightarrow>
   list_all token_rec_ok (db_tokens (snd (token_insert c row d)))"
  using token_to_rec_ok [of row]
  by (auto simp: token_insert_def call_def list_all_iff sql_update_def Let_def token_rec_ok_def split: option.splits)

lemma token_revoke_rows:
  "list_all token_rec_ok (db_tokens d) \<Longrightarrow> list_all token_rec_ok (db_tokens (snd (token_revoke i d)))"
  by (auto simp: token_revoke_def call_def list_all_iff sql_update_def token_rec_ok_def)

section \<open>Lemmas: the token search\<close>

lemma first_with_cap_Some:
  "first_with_cap c k rs = Inr (Some t) \<Longrightarrow>
     \<exists>pre r post. rs = pre @ r # post \<and> row_to_token c r = Inr t \<and> k \<in> set (tr_caps t)
       \<and> (\<forall>x\<in>set pre. \<exists>u. row_to_token c x = Inr u \<and> k \<notin> set (tr_caps u))"
proof (induction rs)
  case Nil
  then show ?case by simp
next
  case (Cons r rs)
  show ?case
  proof (cases "row_to_token c r")
    case (Inl e)
    with Cons.prems show ?thesis by simp
  next
    case (Inr u)
    show ?thesis
    proof (cases "list_ex (\<lambda>x. x = k) (tr_caps u)")
      case True
      with Cons.prems Inr have "u = t" by simp
      with True Inr show ?thesis
        by (intro exI [where x = "[]"] exI [where x = r] exI [where x = rs]) (auto simp: list_ex_iff)
    next
      case False
      with Cons.prems Inr have "first_with_cap c k rs = Inr (Some t)" by simp
      from Cons.IH [OF this] obtain pre q post where
        "rs = pre @ q # post" "row_to_token c q = Inr t" "k \<in> set (tr_caps t)"
        "\<forall>x\<in>set pre. \<exists>u. row_to_token c x = Inr u \<and> k \<notin> set (tr_caps u)" by blast
      with False Inr show ?thesis
        by (intro exI [where x = "r # pre"] exI [where x = q] exI [where x = post])
          (auto simp: list_ex_iff)
    qed
  qed
qed

lemma first_with_cap_None:
  assumes "list_all token_rec_ok rs"
  shows "first_with_cap c k rs = Inr None \<longleftrightarrow>
     (\<forall>r\<in>set rs. \<forall>u. row_to_token c r = Inr u \<longrightarrow> k \<notin> set (tr_caps u))"
  using assms by (induction rs) (auto simp: row_to_token_ok list_ex_iff)

lemma first_with_cap_no_error:
  "list_all token_rec_ok rs \<Longrightarrow> is_ok (first_with_cap c k rs)"
  by (induction rs) (auto simp: row_to_token_ok)

section \<open>Lemmas: writing and reading back\<close>

lemma find_append_new: "(\<And>x. x \<in> set xs \<Longrightarrow> \<not> P x) \<Longrightarrow> find P (xs @ [y]) = (if P y then Some y else None)"
  by (induction xs) auto

lemma db_ok_set_tokens [simp]: "db_ok (d\<lparr>db_tokens := rows\<rparr>) = db_ok d"
  by (simp add: db_ok_def)

lemma peer_get_unique:
  assumes "db_ok d" "peers_unique (db_peers d)" "r \<in> set (db_peers d)" "peer_rec_ok r"
  shows "peer_get (PsNodeId (NodeId (p_nodeid r))) d = (Inr (Some \<lparr>pr_nodeid = NodeId (p_nodeid r), pr_name = p_name r,
     pr_added_at_ms = as_u64 (p_added_at_ms r), pr_last_seen_ms = map_option as_u64 (p_last_seen_ms r),
     pr_addr_blob = p_addr_blob r\<rparr>), d)"
proof -
  have "sql_query_row (peer_matches (PsNodeId (NodeId (p_nodeid r)))) (db_peers d) = Some r"
    using assms(2,3) by (intro peers_t.unique_query) (auto simp: peers_unique_def peer_matches_def peer_conflict_def)
  with assms(1,4) show ?thesis by (simp add: peer_get_def call_ok row_to_peer_ok)
qed

lemma peer_get_name:
  assumes "db_ok d" "peers_unique (db_peers d)" "r \<in> set (db_peers d)" "peer_rec_ok r"
  shows "peer_get (PsName (p_name r)) d = (Inr (Some \<lparr>pr_nodeid = NodeId (p_nodeid r), pr_name = p_name r,
     pr_added_at_ms = as_u64 (p_added_at_ms r), pr_last_seen_ms = map_option as_u64 (p_last_seen_ms r),
     pr_addr_blob = p_addr_blob r\<rparr>), d)"
proof -
  have "sql_query_row (peer_matches (PsName (p_name r))) (db_peers d) = Some r"
    using assms(2,3) by (intro peers_t.unique_query) (auto simp: peers_unique_def peer_matches_def peer_conflict_def)
  with assms(1,4) show ?thesis by (simp add: peer_get_def call_ok row_to_peer_ok)
qed

text \<open>The row an accepted \<open>peer_add\<close> leaves.\<close>

lemma peer_add_row:
  assumes "db_ok d" and "peer_add now n name addr d = (Inr (), d')"
  shows "\<exists>r\<in>set (db_peers d'). p_nodeid r = nid n \<and> p_name r = name
     \<and> p_addr_blob r = coalesce addr (case sql_query_row (\<lambda>r. p_nodeid r = nid n) (db_peers d) of
                                        None \<Rightarrow> None | Some old \<Rightarrow> p_addr_blob old)"
proof (cases "sql_query_row (\<lambda>r. p_nodeid r = nid n) (db_peers d)")
  case None
  then have "\<not> list_ex (\<lambda>r. p_nodeid r = nid n) (db_peers d)" by (simp add: sql_query_row_None list_ex_iff)
  with assms None show ?thesis
    by (auto simp: peer_add_def call_ok split: if_splits) (auto simp: coalesce_def split: option.splits)
next
  case (Some old)
  from sql_query_row_Some [OF Some] have old: "old \<in> set (db_peers d)" "p_nodeid old = nid n" by auto
  then have "list_ex (\<lambda>r. p_nodeid r = nid n) (db_peers d)" by (auto simp: list_ex_iff)
  with assms have d': "d' = d\<lparr>db_peers := map (\<lambda>r. if p_nodeid r = nid n
      then r\<lparr>p_name := name, p_addr_blob := coalesce addr (p_addr_blob r)\<rparr> else r) (db_peers d)\<rparr>"
    by (auto simp: peer_add_def call_ok sql_update_def split: if_splits)
  have "old\<lparr>p_name := name, p_addr_blob := coalesce addr (p_addr_blob old)\<rparr> \<in> set (db_peers d')"
    using old by (force simp: d')
  with old Some show ?thesis by (intro bexI) auto
qed

section \<open>Properties\<close>

text \<open>
  The peer registry is an upsert keyed by node id.  An accepted \<open>peer_add\<close> makes the peer
  resolvable by its id and by its name with the stored address (the given one, or the old one when
  none is given); it is refused exactly when another peer owns the name, and then nothing changes.
\<close>

lemma peer_add_upsert:
  assumes "db_ok d" and "peers_unique (db_peers d)" and "list_all peer_rec_ok (db_peers d)" and "wf_nodeid n"
  shows "(fst (peer_add now n name addr d) = Inl UniqueViolation \<longleftrightarrow>
           (\<exists>r\<in>set (db_peers d). p_nodeid r \<noteq> nid n \<and> p_name r = name))
    \<and> (\<forall>e d'. peer_add now n name addr d = (Inl e, d') \<longrightarrow> d' = d)
    \<and> (\<forall>d'. peer_add now n name addr d = (Inr (), d') \<longrightarrow>
         (\<exists>p. peer_get (PsNodeId n) d' = (Inr (Some p), d') \<and> peer_get (PsName name) d' = (Inr (Some p), d')
            \<and> pr_nodeid p = n \<and> pr_name p = name
            \<and> pr_addr_blob p = coalesce addr (case sql_query_row (\<lambda>r. p_nodeid r = nid n) (db_peers d) of
                                                None \<Rightarrow> None | Some old \<Rightarrow> p_addr_blob old)))"
proof (intro conjI allI impI)
  show "fst (peer_add now n name addr d) = Inl UniqueViolation \<longleftrightarrow>
           (\<exists>r\<in>set (db_peers d). p_nodeid r \<noteq> nid n \<and> p_name r = name)"
    using assms(1) by (auto simp: peer_add_def call_ok list_ex_iff)
  show "d' = d" if "peer_add now n name addr d = (Inl e, d')" for e d'
    using that by (auto simp: peer_add_def call_def split: if_splits)
  fix d' assume add: "peer_add now n name addr d = (Inr (), d')"
  have snd: "d' = snd (peer_add now n name addr d)" using add by simp
  have ok: "db_ok d'" using assms(1) by (simp add: snd peer_add_def call_def db_ok_def)
  have u: "peers_unique (db_peers d')" unfolding snd by (rule peer_add_unique [OF assms(2)])
  have rows: "list_all peer_rec_ok (db_peers d')" unfolding snd by (rule peer_add_rows [OF assms(4,3)])
  from peer_add_row [OF assms(1) add] obtain r where r: "r \<in> set (db_peers d')" "p_nodeid r = nid n" "p_name r = name"
    "p_addr_blob r = coalesce addr (case sql_query_row (\<lambda>r. p_nodeid r = nid n) (db_peers d) of
                                      None \<Rightarrow> None | Some old \<Rightarrow> p_addr_blob old)" by blast
  have "peer_rec_ok r" using rows r(1) by (simp add: list_all_iff)
  with peer_get_unique [OF ok u r(1)] peer_get_name [OF ok u r(1)] r show
    "\<exists>p. peer_get (PsNodeId n) d' = (Inr (Some p), d') \<and> peer_get (PsName name) d' = (Inr (Some p), d')
       \<and> pr_nodeid p = n \<and> pr_name p = name
       \<and> pr_addr_blob p = coalesce addr (case sql_query_row (\<lambda>r. p_nodeid r = nid n) (db_peers d) of
                                           None \<Rightarrow> None | Some old \<Rightarrow> p_addr_blob old)" by simp
qed

text \<open>
  The token search returns only tokens that serve: the issuer and subject asked for, the
  capability, not revoked and not yet expired; among those it returns one with the latest expiry,
  and it finds none only when there is none, however the database orders rows of equal expiry.
\<close>

lemma find_token_newest:
  assumes "db_ok d" and "list_all token_rec_ok (db_tokens d)" and plan: "is_plan plan"
  shows "\<exists>res. find_token_with_cap c plan i s k now d = (Inr res, d)
    \<and> (\<forall>t. res = Some t \<longrightarrow>
         (\<exists>r\<in>set (db_tokens d). row_to_token c r = Inr t \<and> usable_token c i s k now r
            \<and> (\<forall>r'\<in>set (db_tokens d). usable_token c i s k now r' \<longrightarrow> t_exp r' \<le> t_exp r)))
    \<and> (res = None \<longrightarrow> (\<forall>r\<in>set (db_tokens d). \<not> usable_token c i s k now r))"
proof -
  let ?sel = "\<lambda>r. t_iss r = nid i \<and> t_sub r = nid s \<and> t_revoked r = 0 \<and> t_exp r > as_i64 now"
  let ?rs = "sql_order_by (\<lambda>r. - t_exp r) (plan (filter ?sel (db_tokens d)))"
  have set: "set ?rs = {r \<in> set (db_tokens d). ?sel r}" using is_plan_set [OF plan] by auto
  then have ok: "list_all token_rec_ok ?rs" using assms(2) by (auto simp: list_all_iff)
  have fwd: "find_token_with_cap c plan i s k now d = (first_with_cap c k ?rs, d)"
    using assms(1) by (simp add: find_token_with_cap_def call_ok)
  obtain res where res: "first_with_cap c k ?rs = Inr res"
    using first_with_cap_no_error [OF ok, of c k] by (cases "first_with_cap c k ?rs") auto
  have use: "usable_token c i s k now r \<longleftrightarrow> ?sel r \<and> (\<forall>u. row_to_token c r = Inr u \<longrightarrow> k \<in> set (tr_caps u))"
    if "r \<in> set (db_tokens d)" for r
    using that assms(2) by (auto simp: usable_token_def list_all_iff row_to_token_ok)
  show ?thesis
  proof (cases res)
    case None
    then have "\<forall>r\<in>set ?rs. \<forall>u. row_to_token c r = Inr u \<longrightarrow> k \<notin> set (tr_caps u)"
      using res first_with_cap_None [OF ok] by simp
    moreover have "\<exists>u. row_to_token c r = Inr u" if "r \<in> set (db_tokens d)" for r
      using that assms(2) by (simp add: list_all_iff row_to_token_ok)
    ultimately show ?thesis using None fwd res set use by fastforce
  next
    case (Some t)
    then obtain pre r post where split: "?rs = pre @ r # post" and t: "row_to_token c r = Inr t" "k \<in> set (tr_caps t)"
      and pre: "\<forall>x\<in>set pre. \<exists>u. row_to_token c x = Inr u \<and> k \<notin> set (tr_caps u)"
      using first_with_cap_Some [of c k ?rs t] res by auto
    have r: "r \<in> set (db_tokens d)" "?sel r" using set split by (auto simp: set_eq_iff)
    have best: "t_exp r' \<le> t_exp r" if "r' \<in> set (db_tokens d)" "usable_token c i s k now r'" for r'
    proof -
      have "r' \<in> set ?rs" using that use set by auto
      moreover have "r' \<notin> set pre" using pre that use [OF that(1)] by auto
      ultimately have "r' = r \<or> r' \<in> set post" using split by auto
      moreover have "sorted (map (\<lambda>r. - t_exp r) (pre @ r # post))"
        unfolding split [symmetric] by (rule sorted_sql_order_by)
      ultimately show ?thesis by (auto simp: sorted_append)
    qed
    have "usable_token c i s k now r" using r(2) t by (simp add: use [OF r(1)])
    with r(1) t(1) best have "\<exists>r\<in>set (db_tokens d). row_to_token c r = Inr t \<and> usable_token c i s k now r
            \<and> (\<forall>r'\<in>set (db_tokens d). usable_token c i s k now r' \<longrightarrow> t_exp r' \<le> t_exp r)" by blast
    with Some fwd res show ?thesis by simp
  qed
qed

text \<open>Two tokens from node 1 to node 2, the later one revoked.\<close>

definition sample_token_db :: db where
  "sample_token_db = sample_db\<lparr>db_tokens :=
     [\<lparr>t_id = replicate 16 1, t_iss = replicate 32 1, t_sub = replicate 32 2, t_exp = 100, t_caps = ''m'',
       t_raw = [1], t_revoked = 0\<rparr>,
      \<lparr>t_id = replicate 16 2, t_iss = replicate 32 1, t_sub = replicate 32 2, t_exp = 900, t_caps = ''m'',
       t_raw = [2], t_revoked = 1\<rparr>]\<rparr>"


text \<open>Importing a row over the revoked token of the example makes it valid again.\<close>

definition sample_reimport :: TokenRow where
  "sample_reimport = \<lparr>tr_id = replicate 16 2, tr_iss = sample_node 1, tr_sub = sample_node 2, tr_exp = 900,
     tr_caps = [Msg], tr_raw = [3], tr_revoked = False\<rparr>"


end
