(* ===== verification/Wt_Mailbox.thy ===== *)
theory Wt_Mailbox
  imports Wt_Store_Base
begin

text \<open>
  The peer message log of \<^verbatim>\<open>src/crates/wt-core/src/store.rs\<close>: one table holds the outbox
  (direction 0) and the inbox (direction 1), keyed by sender, channel id and sequence
  number.  The key numbers outgoing messages and removes duplicates of incoming ones.
\<close>

section \<open>Operations\<close>

definition channel_id :: "crates \<Rightarrow> string \<Rightarrow> bytes" where
  "channel_id c name = take 16 (blake3 c (bytes_of name))"

definition msg_scope :: "msg_rec \<Rightarrow> bytes \<times> bytes" where
  "msg_scope r = (m_sender r, m_channel_id r)"

definition msg_conflict :: "msg_rec \<Rightarrow> msg_rec \<Rightarrow> bool" where
  "msg_conflict a b \<longleftrightarrow> msg_scope a = msg_scope b \<and> m_seq a = m_seq b"

type_synonym msg_plan = "msg_rec list \<Rightarrow> msg_rec list"

definition outbox_enqueue ::
  "crates \<Rightarrow> u64 \<Rightarrow> NodeId \<Rightarrow> NodeId \<Rightarrow> string \<Rightarrow> bytes \<Rightarrow> db \<Rightarrow> MessageRow store_result" where
  "outbox_enqueue c now sender peer channel payload = call ''messages'' (\<lambda>d.
     let cid = channel_id c channel in
     case next_seq (\<lambda>r. msg_scope r = (nid sender, cid)) m_seq (db_messages d) of
       None \<Rightarrow> (Inl InvalidColumnType, d)
     | Some sq \<Rightarrow>
         (let row = \<lparr>m_sender = nid sender, m_channel_id = cid, m_seq = sq, m_direction = 0,
                     m_channel = channel, m_peer = nid peer, m_payload = payload,
                     m_enqueued_at_ms = as_i64 now, m_delivered_at_ms = None\<rparr> in
          if list_ex (msg_conflict row) (db_messages d) then (Inl UniqueViolation, d)
          else (Inr \<lparr>mr_sender = sender, mr_channel_id = cid, mr_seq = as_u64 sq,
                     mr_direction = DirOut, mr_channel = channel, mr_peer = peer,
                     mr_payload = payload, mr_enqueued_at_ms = now, mr_delivered_at_ms = None\<rparr>,
                d\<lparr>db_messages := db_messages d @ [row]\<rparr>)))"

definition msg_pending :: "msg_rec \<Rightarrow> bool" where
  "msg_pending r \<longleftrightarrow> m_direction r = 0 \<and> m_delivered_at_ms r = None"

text \<open>\<open>SELECT DISTINCT\<close> returns its rows in no particular order.\<close>

definition outbox_pending_peers :: "msg_plan \<Rightarrow> db \<Rightarrow> NodeId list store_result" where
  "outbox_pending_peers plan = call ''messages'' (\<lambda>d.
     (case collect_ok (map (\<lambda>b. fixed_32 b 0 ''messages.peer_nodeid'')
            (remdups (map m_peer (plan (filter msg_pending (db_messages d)))))) of
        Inl e \<Rightarrow> (Inl e, d)
      | Inr ids \<Rightarrow> (Inr (map NodeId ids), d)))"

definition pending_rows :: "msg_plan \<Rightarrow> NodeId \<Rightarrow> db \<Rightarrow> msg_rec list" where
  "pending_rows plan peer d =
     sql_order_by m_enqueued_at_ms
       (plan (filter (\<lambda>r. msg_pending r \<and> m_peer r = nid peer) (db_messages d)))"

definition outbox_pending_for_peer :: "msg_plan \<Rightarrow> NodeId \<Rightarrow> nat \<Rightarrow> db \<Rightarrow> MessageRow list store_result" where
  "outbox_pending_for_peer plan peer limit = call ''messages'' (\<lambda>d.
     (collect_ok (map row_to_message (sql_limit (int limit) (pending_rows plan peer d))), d))"

definition outbox_mark_delivered :: "u64 \<Rightarrow> NodeId \<Rightarrow> bytes \<Rightarrow> u64 \<Rightarrow> db \<Rightarrow> unit store_result" where
  "outbox_mark_delivered now sender cid sq = call ''messages'' (\<lambda>d.
     (Inr (), d\<lparr>db_messages := snd (sql_update
        (\<lambda>r. msg_scope r = (nid sender, cid) \<and> m_seq r = as_i64 sq \<and> m_direction r = 0)
        (\<lambda>r. r\<lparr>m_delivered_at_ms := Some (as_i64 now)\<rparr>) (db_messages d))\<rparr>))"

definition inbox_rec :: "crates \<Rightarrow> u64 \<Rightarrow> NodeId \<Rightarrow> string \<Rightarrow> u64 \<Rightarrow> bytes \<Rightarrow> u64 \<Rightarrow> msg_rec" where
  "inbox_rec c now sender channel sq payload ts_ms =
     \<lparr>m_sender = nid sender, m_channel_id = channel_id c channel, m_seq = as_i64 sq, m_direction = 1,
      m_channel = channel, m_peer = nid sender, m_payload = payload,
      m_enqueued_at_ms = as_i64 ts_ms, m_delivered_at_ms = Some (as_i64 now)\<rparr>"

definition inbox_record ::
  "crates \<Rightarrow> u64 \<Rightarrow> NodeId \<Rightarrow> string \<Rightarrow> u64 \<Rightarrow> bytes \<Rightarrow> u64 \<Rightarrow> db \<Rightarrow> bool store_result" where
  "inbox_record c now sender channel sq payload ts_ms = call ''messages'' (\<lambda>d.
     (case sql_insert_or_ignore msg_conflict (inbox_rec c now sender channel sq payload ts_ms) (db_messages d) of
        (n, rows) \<Rightarrow> (Inr (n > 0), d\<lparr>db_messages := rows\<rparr>)))"

definition inbox_backlog ::
  "msg_plan \<Rightarrow> NodeId option \<Rightarrow> string option \<Rightarrow> u64 option \<Rightarrow> nat \<Rightarrow> db \<Rightarrow> MessageRow list store_result" where
  "inbox_backlog plan peer channel after_enqueued_ms limit = call ''messages'' (\<lambda>d.
     let after = (case after_enqueued_ms of Some v \<Rightarrow> as_i64 v | None \<Rightarrow> 0) in
     (collect_ok (map row_to_message (sql_limit (int limit) (sql_order_by m_enqueued_at_ms
        (plan (filter (\<lambda>r. m_direction r = 1 \<and> null_or_eq (map_option nid peer) (m_peer r)
                         \<and> null_or_eq channel (m_channel r) \<and> m_enqueued_at_ms r > after)
                (db_messages d)))))), d))"

section \<open>Table constraints\<close>

definition msg_rec_ok :: "msg_rec \<Rightarrow> bool" where
  "msg_rec_ok r \<longleftrightarrow> length (m_sender r) = 32 \<and> length (m_channel_id r) = 16 \<and> length (m_peer r) = 32
     \<and> m_direction r \<in> {0, 1} \<and> - (2 ^ 63) \<le> m_seq r \<and> m_seq r \<le> max_i64
     \<and> - (2 ^ 63) \<le> m_enqueued_at_ms r \<and> m_enqueued_at_ms r \<le> max_i64"

definition messages_unique :: "msg_rec list \<Rightarrow> bool" where
  "messages_unique rows \<longleftrightarrow> unique_rows msg_conflict rows"

interpretation messages_t: unique_table msg_conflict
  by unfold_locales (auto simp: msg_conflict_def)

interpretation outbox_log: seq_log msg_scope m_seq .

lemma row_to_message_ok:
  "msg_rec_ok r \<Longrightarrow> row_to_message r = Inr \<lparr>mr_sender = NodeId (m_sender r), mr_channel_id = m_channel_id r,
     mr_seq = as_u64 (m_seq r), mr_direction = (if m_direction r = 0 then DirOut else DirIn),
     mr_channel = m_channel r, mr_peer = NodeId (m_peer r), mr_payload = m_payload r,
     mr_enqueued_at_ms = as_u64 (m_enqueued_at_ms r),
     mr_delivered_at_ms = map_option as_u64 (m_delivered_at_ms r)\<rparr>"
  by (auto simp: row_to_message_def fixed_16_def fixed_32_def msg_rec_ok_def direction_from_i64_def)

text \<open>A message row as its readers see it.\<close>

definition as_message :: "msg_rec \<Rightarrow> MessageRow" where
  "as_message r = \<lparr>mr_sender = NodeId (m_sender r), mr_channel_id = m_channel_id r,
     mr_seq = as_u64 (m_seq r), mr_direction = (if m_direction r = 0 then DirOut else DirIn),
     mr_channel = m_channel r, mr_peer = NodeId (m_peer r), mr_payload = m_payload r,
     mr_enqueued_at_ms = as_u64 (m_enqueued_at_ms r),
     mr_delivered_at_ms = map_option as_u64 (m_delivered_at_ms r)\<rparr>"

lemma row_to_message_as: "msg_rec_ok r \<Longrightarrow> row_to_message r = Inr (as_message r)"
  by (simp add: row_to_message_ok as_message_def)

lemma length_channel_id: "blake3_laws c \<Longrightarrow> length (channel_id c name) = 16"
  by (simp add: channel_id_def blake3_laws_def)

section \<open>Lemmas: numbering\<close>

lemma outbox_enqueue_cases:
  assumes "db_ok d"
  obtains (full) "next_seq (\<lambda>r. msg_scope r = (nid s, channel_id c ch)) m_seq (db_messages d) = None"
      "outbox_enqueue c now s p ch pl d = (Inl InvalidColumnType, d)"
  | (new) sq where
      "next_seq (\<lambda>r. msg_scope r = (nid s, channel_id c ch)) m_seq (db_messages d) = Some sq"
      "outbox_enqueue c now s p ch pl d =
         (Inr \<lparr>mr_sender = s, mr_channel_id = channel_id c ch, mr_seq = as_u64 sq,
               mr_direction = DirOut, mr_channel = ch, mr_peer = p, mr_payload = pl,
               mr_enqueued_at_ms = now, mr_delivered_at_ms = None\<rparr>,
          d\<lparr>db_messages := db_messages d @
             [\<lparr>m_sender = nid s, m_channel_id = channel_id c ch, m_seq = sq, m_direction = 0,
               m_channel = ch, m_peer = nid p, m_payload = pl,
               m_enqueued_at_ms = as_i64 now, m_delivered_at_ms = None\<rparr>]\<rparr>)"
proof (cases "next_seq (\<lambda>r. msg_scope r = (nid s, channel_id c ch)) m_seq (db_messages d)")
  case None
  with assms show thesis by (intro full) (simp_all add: outbox_enqueue_def call_ok Let_def)
next
  case (Some sq)
  have "\<not> list_ex (msg_conflict \<lparr>m_sender = nid s, m_channel_id = channel_id c ch, m_seq = sq,
          m_direction = 0, m_channel = ch, m_peer = nid p, m_payload = pl,
          m_enqueued_at_ms = as_i64 now, m_delivered_at_ms = None\<rparr>) (db_messages d)"
    using outbox_log.fresh_key [OF Some] by (fastforce simp: list_ex_iff msg_conflict_def msg_scope_def)
  with Some assms show thesis by (intro new [OF Some]) (simp_all add: outbox_enqueue_def call_ok Let_def)
qed

lemma next_seq_bounds:
  assumes "next_seq P m_seq rows = Some n" and "list_all msg_rec_ok rows"
  shows "- (2 ^ 63) \<le> n \<and> n \<le> max_i64"
proof (cases "sql_max m_seq (filter P rows)")
  case None
  with assms show ?thesis by (auto simp: next_seq_def max_i64_def split: if_splits)
next
  case (Some m)
  from sql_max_mem [OF Some] obtain r where "r \<in> set rows" "m = m_seq r" by auto
  with assms(2) have "- (2 ^ 63) \<le> m" "m \<le> max_i64" by (auto simp: list_all_iff msg_rec_ok_def)
  with assms(1) Some show ?thesis by (auto simp: next_seq_def split: if_splits)
qed

section \<open>Lemmas: what each operation leaves\<close>

lemma outbox_enqueue_unique:
  assumes "messages_unique (db_messages d)"
  shows "messages_unique (db_messages (snd (outbox_enqueue c now s p ch pl d)))"
  using assms messages_t.unique_append [of "db_messages d"]
  by (auto simp: outbox_enqueue_def call_def messages_unique_def Let_def list_ex_iff split: option.splits)

lemma outbox_enqueue_rows:
  assumes "blake3_laws c" "wf_nodeid s" "wf_nodeid p" and rows: "list_all msg_rec_ok (db_messages d)"
  shows "list_all msg_rec_ok (db_messages (snd (outbox_enqueue c now s p ch pl d)))"
proof -
  have "list_all msg_rec_ok (db_messages (snd (r, d')))"
    if "outbox_enqueue c now s p ch pl d = (r, d')" for r d'
    using that assms next_seq_bounds [OF _ rows] as_i64_bounds length_channel_id
    by (auto simp: outbox_enqueue_def call_def Let_def msg_rec_ok_def wf_nodeid_def split: option.splits if_splits)
  then show ?thesis by (metis prod.collapse)
qed

lemma inbox_record_unique:
  "messages_unique (db_messages d) \<Longrightarrow>
   messages_unique (db_messages (snd (inbox_record c now s ch sq pl ts d)))"
  using messages_t.unique_insert [of "db_messages d" "inbox_rec c now s ch sq pl ts"]
  by (simp add: inbox_record_def call_def messages_unique_def case_prod_unfold)

lemma inbox_record_rows:
  "blake3_laws c \<Longrightarrow> wf_nodeid s \<Longrightarrow> list_all msg_rec_ok (db_messages d) \<Longrightarrow>
   list_all msg_rec_ok (db_messages (snd (inbox_record c now s ch sq pl ts d)))"
  using as_i64_bounds length_channel_id
  by (simp add: inbox_record_def call_def case_prod_unfold sql_insert_or_ignore_def inbox_rec_def
      msg_rec_ok_def wf_nodeid_def)

lemma mark_delivered_unique:
  assumes "messages_unique (db_messages d)"
  shows "messages_unique (db_messages (snd (outbox_mark_delivered now s cid sq d)))"
proof -
  have "unique_rows msg_conflict (snd (sql_update
          (\<lambda>r. msg_scope r = (nid s, cid) \<and> m_seq r = as_i64 sq \<and> m_direction r = 0)
          (\<lambda>r. r\<lparr>m_delivered_at_ms := Some (as_i64 now)\<rparr>) (db_messages d)))"
    using assms by (intro messages_t.unique_update)
      (auto simp: messages_unique_def msg_conflict_def msg_scope_def split: if_splits)
  with assms show ?thesis by (simp add: outbox_mark_delivered_def call_def messages_unique_def)
qed

lemma mark_delivered_rows:
  "list_all msg_rec_ok (db_messages d) \<Longrightarrow>
   list_all msg_rec_ok (db_messages (snd (outbox_mark_delivered now s cid sq d)))"
  by (auto simp: outbox_mark_delivered_def call_def sql_update_def list_all_iff msg_rec_ok_def)

section \<open>Lemmas: the pending queue\<close>

lemma set_pending_rows:
  "is_plan plan \<Longrightarrow> set (pending_rows plan peer d) = {r \<in> set (db_messages d). msg_pending r \<and> m_peer r = nid peer}"
  by (auto simp: pending_rows_def is_plan_set)

lemma pending_for_peer_ok:
  assumes "db_ok d" and "is_plan plan" and "list_all msg_rec_ok (db_messages d)"
  shows "outbox_pending_for_peer plan peer limit d
           = (Inr (map as_message (take limit (pending_rows plan peer d))), d)"
proof -
  have "collect_ok (map row_to_message (take limit (pending_rows plan peer d)))
          = Inr (map as_message (take limit (pending_rows plan peer d)))"
  proof (rule collect_ok_map_Inr)
    fix r assume "r \<in> set (take limit (pending_rows plan peer d))"
    then have "r \<in> set (db_messages d)" using set_pending_rows [OF assms(2)] by (auto dest: in_set_takeD)
    then show "row_to_message r = Inr (as_message r)" using assms(3) by (simp add: list_all_iff row_to_message_as)
  qed
  with assms(1) show ?thesis by (simp add: outbox_pending_for_peer_def call_ok sql_limit_def)
qed

text \<open>Marking a pending row takes exactly that row out of the pending set.\<close>

lemma mark_delivered_pending:
  assumes ok: "db_ok d" and uniq: "messages_unique (db_messages d)" and mem: "r \<in> set (db_messages d)"
    and dir: "m_direction r = 0" and rok: "msg_rec_ok r"
    and d': "d' = snd (outbox_mark_delivered now (NodeId (m_sender r)) (m_channel_id r) (as_u64 (m_seq r)) d)"
  shows "filter (\<lambda>x. msg_pending x \<and> Q x) (db_messages d') =
         filter (\<lambda>x. (msg_pending x \<and> Q x) \<and> x \<noteq> r) (db_messages d)"
    and "map (m_delivered_at_ms_update (\<lambda>_. None)) (db_messages d')
         = map (m_delivered_at_ms_update (\<lambda>_. None)) (db_messages d)"
    and "db_ok d'"
proof -
  have sq: "as_i64 (as_u64 (m_seq r)) = m_seq r"
    using rok by (intro as_i64_as_u64) (simp_all add: msg_rec_ok_def)
  let ?P = "\<lambda>x. msg_scope x = (m_sender r, m_channel_id r) \<and> m_seq x = m_seq r \<and> m_direction x = 0"
  have P: "?P x \<longleftrightarrow> x = r" if "x \<in> set (db_messages d)" for x
  proof
    assume "?P x"
    then have "msg_conflict x r" by (simp add: msg_conflict_def msg_scope_def)
    with messages_t.unique_same [OF uniq [unfolded messages_unique_def] that mem] show "x = r" by simp
  qed (simp add: msg_scope_def dir)
  have rows: "db_messages d' = snd (sql_update ?P (m_delivered_at_ms_update (\<lambda>_. Some (as_i64 now))) (db_messages d))"
    using ok by (simp add: d' outbox_mark_delivered_def call_ok sq)
  show "filter (\<lambda>x. msg_pending x \<and> Q x) (db_messages d') =
         filter (\<lambda>x. (msg_pending x \<and> Q x) \<and> x \<noteq> r) (db_messages d)"
    unfolding rows by (rule filter_update_single [OF P]) (simp_all add: msg_pending_def)
  show "map (m_delivered_at_ms_update (\<lambda>_. None)) (db_messages d')
         = map (m_delivered_at_ms_update (\<lambda>_. None)) (db_messages d)"
    unfolding rows by (simp add: sql_update_def)
  show "db_ok d'"
    using ok by (auto simp: d' outbox_mark_delivered_def call_def db_ok_def)
qed

section \<open>Properties\<close>

text \<open>
  C24 Sending numbers messages without gaps or reuse.  An accepted \<open>outbox_enqueue\<close> appends one
  pending row that reads back as the returned message, its number is above every number this
  sender used on the channel, and the next message of the sender on that channel, to whichever
  peer, gets the following number.
\<close>

theorem outbox_numbers:
  assumes "db_ok d" and "list_all msg_rec_ok (db_messages d)" and "blake3_laws c" and "wf_nodeid s" and "wf_nodeid p"
    and enq: "outbox_enqueue c now s p ch pl d = (Inr row, d')"
  shows "(\<forall>r\<in>set (db_messages d). msg_scope r = (nid s, channel_id c ch) \<longrightarrow> m_seq r < as_i64 (mr_seq row))
    \<and> (\<exists>r. db_messages d' = db_messages d @ [r] \<and> msg_pending r \<and> m_peer r = nid p \<and> row_to_message r = Inr row)
    \<and> (as_i64 (mr_seq row) < max_i64 \<longrightarrow>
         (\<exists>row2 d2. outbox_enqueue c now2 s p2 ch pl2 d' = (Inr row2, d2)
            \<and> as_i64 (mr_seq row2) = as_i64 (mr_seq row) + 1))"
proof -
  from outbox_enqueue_cases [OF assms(1), of s c ch now p pl] enq obtain sq where
    sq: "next_seq (\<lambda>r. msg_scope r = (nid s, channel_id c ch)) m_seq (db_messages d) = Some sq"
    and row: "mr_seq row = as_u64 sq"
    and d': "db_messages d' = db_messages d @
             [\<lparr>m_sender = nid s, m_channel_id = channel_id c ch, m_seq = sq, m_direction = 0,
               m_channel = ch, m_peer = nid p, m_payload = pl,
               m_enqueued_at_ms = as_i64 now, m_delivered_at_ms = None\<rparr>]" (is "_ = _ @ [?r]")
    and ok': "db_ok d'"
    by (cases, auto simp: db_ok_def) (use assms(1) in \<open>simp add: db_ok_def\<close>)
  have b: "- (2 ^ 63) \<le> sq" "sq \<le> max_i64" using next_seq_bounds [OF sq assms(2)] by auto
  have i: "as_i64 (mr_seq row) = sq" unfolding row by (rule as_i64_as_u64 [OF b])
  have "row_to_message ?r = Inr row"
  proof -
    have "msg_rec_ok ?r"
      using b assms(3-5) length_channel_id [OF assms(3)] as_i64_bounds [of now]
      by (simp add: msg_rec_ok_def wf_nodeid_def)
    then show ?thesis using enq sq assms(1)
      by (auto simp: row_to_message_as as_message_def outbox_enqueue_def call_ok Let_def split: if_splits)
  qed
  moreover have "\<exists>row2 d2. outbox_enqueue c now2 s p2 ch pl2 d' = (Inr row2, d2)
            \<and> as_i64 (mr_seq row2) = sq + 1" if "sq < max_i64"
  proof -
    have nx: "next_seq (\<lambda>r. msg_scope r = (nid s, channel_id c ch)) m_seq (db_messages d') = Some (sq + 1)"
      unfolding d' by (rule outbox_log.next_after_append [OF sq _ _ that]) (simp_all add: msg_scope_def)
    have i2: "as_i64 (as_u64 (sq + 1)) = sq + 1" using b that by (intro as_i64_as_u64) simp_all
    show ?thesis
    proof (cases rule: outbox_enqueue_cases [OF ok', of s c ch now2 p2 pl2])
      case 1
      with nx show ?thesis by simp
    next
      case (2 sq2)
      with nx i2 show ?thesis by simp
    qed
  qed
  moreover have "m_seq r < sq" if "r \<in> set (db_messages d)" "msg_scope r = (nid s, channel_id c ch)" for r
    by (rule next_seq_upper [OF sq that(1)]) (rule that(2))
  ultimately show ?thesis unfolding i using d' by (auto simp: msg_pending_def)
qed

lemma outbox_numbers_witness:
  "\<exists>row d' row2 d2. outbox_enqueue sample_crates 10 (sample_node 1) (sample_node 2) ''a'' [1] sample_db = (Inr row, d')
     \<and> outbox_enqueue sample_crates 11 (sample_node 1) (sample_node 3) ''a'' [2] d' = (Inr row2, d2)
     \<and> as_i64 (mr_seq row2) = 2"
proof -
  let ?e = "outbox_enqueue sample_crates 10 (sample_node 1) (sample_node 2) ''a'' [1] sample_db"
  have n: "next_seq P m_seq [] = Some 1" for P by (simp add: next_seq_def sql_max_def max_i64_def)
  have f: "mr_seq (projr (fst ?e)) = 1" "?e = (Inr (projr (fst ?e)), snd ?e)"
    by (simp_all add: outbox_enqueue_def call_ok Let_def as_u64_def n)
  have one: "as_i64 1 = 1" by (simp add: as_i64_def)
  from outbox_numbers [OF sample_db_ok _ sample_blake3 wf_sample_node wf_sample_node f(2),
      of 11 "sample_node 3" "[2]"] f one show ?thesis
    by (simp add: max_i64_def) (metis)
qed

end
