(* ===== verification/Wt_Orch.thy ===== *)
theory Wt_Orch
  imports Wt_Store_Base
begin

text \<open>
  The orchestration tables of \<^verbatim>\<open>src/crates/wt-core/src/store.rs\<close>: groups, agents and
  sessions, keyed by name, and the reconciliation a fresh daemon runs over them.  Rows are
  appended and never deleted, so the position of a row is its \<open>rowid\<close> order.
\<close>

section \<open>Groups\<close>

definition group_conflict :: "GroupRow \<Rightarrow> GroupRow \<Rightarrow> bool" where
  "group_conflict a b \<longleftrightarrow> gr_name a = gr_name b"

definition group_create :: "u64 \<Rightarrow> string \<Rightarrow> db \<Rightarrow> bool store_result" where
  "group_create now name = call ''groups'' (\<lambda>d.
     (case sql_insert_or_ignore group_conflict \<lparr>gr_name = name, gr_created_at_ms = now\<rparr> (db_groups d) of
        (n, rows) \<Rightarrow> (Inr (n > 0), d\<lparr>db_groups := rows\<rparr>)))"

definition group_list :: "db \<Rightarrow> GroupRow list store_result" where
  "group_list = call ''groups'' (\<lambda>d.
     (Inr (sql_order_by (\<lambda>r. as_i64 (gr_created_at_ms r)) (db_groups d)), d))"

definition group_exists :: "string \<Rightarrow> db \<Rightarrow> bool store_result" where
  "group_exists name = call ''groups'' (\<lambda>d.
     (Inr (sql_query_row (\<lambda>r. gr_name r = name) (db_groups d) \<noteq> None), d))"

section \<open>Agents\<close>

definition agent_conflict :: "AgentRow \<Rightarrow> AgentRow \<Rightarrow> bool" where
  "agent_conflict a b \<longleftrightarrow>
     (ag_group a = ag_group b \<and> ag_name a = ag_name b) \<or> ag_token_hash a = ag_token_hash b"

definition agent_register :: "AgentRow \<Rightarrow> db \<Rightarrow> bool store_result" where
  "agent_register row = call ''agents'' (\<lambda>d.
     (case sql_insert_or_ignore agent_conflict row (db_agents d) of
        (n, rows) \<Rightarrow> (Inr (n > 0), d\<lparr>db_agents := rows\<rparr>)))"

definition agent_by_token :: "bytes \<Rightarrow> db \<Rightarrow> AgentRow option store_result" where
  "agent_by_token token_hash = call ''agents'' (\<lambda>d.
     (Inr (sql_query_row (\<lambda>r. ag_token_hash r = token_hash) (db_agents d)), d))"

definition agent_get :: "string \<Rightarrow> string \<Rightarrow> db \<Rightarrow> AgentRow option store_result" where
  "agent_get grp name = call ''agents'' (\<lambda>d.
     (Inr (sql_query_row (\<lambda>r. ag_group r = grp \<and> ag_name r = name) (db_agents d)), d))"

definition agent_list :: "string option \<Rightarrow> db \<Rightarrow> AgentRow list store_result" where
  "agent_list grp = call ''agents'' (\<lambda>d.
     (Inr (sql_order_by (\<lambda>r. as_i64 (ag_created_at_ms r))
        (filter (\<lambda>r. null_or_eq grp (ag_group r)) (db_agents d))), d))"

definition agent_set_status ::
  "u64 \<Rightarrow> string \<Rightarrow> string \<Rightarrow> string \<Rightarrow> int option \<Rightarrow> db \<Rightarrow> unit store_result" where
  "agent_set_status now grp name status pid = call ''agents'' (\<lambda>d.
     (Inr (), d\<lparr>db_agents := snd (sql_update (\<lambda>r. ag_group r = grp \<and> ag_name r = name)
        (\<lambda>r. r\<lparr>ag_status := status, ag_pid := coalesce pid (ag_pid r), ag_last_seen_ms := Some now\<rparr>)
        (db_agents d))\<rparr>))"

definition agent_touch :: "u64 \<Rightarrow> string \<Rightarrow> string \<Rightarrow> db \<Rightarrow> unit store_result" where
  "agent_touch now grp name = call ''agents'' (\<lambda>d.
     (Inr (), d\<lparr>db_agents := snd (sql_update (\<lambda>r. ag_group r = grp \<and> ag_name r = name)
        (\<lambda>r. r\<lparr>ag_last_seen_ms := Some now\<rparr>) (db_agents d))\<rparr>))"

definition live_status :: "string \<Rightarrow> bool" where
  "live_status s \<longleftrightarrow> s \<in> {''starting'', ''running'', ''awaiting_input''}"

text \<open>The two statements of \<open>reconcile_stale_agents\<close> run in one call.\<close>

definition reconcile_stale_agents :: "db \<Rightarrow> nat store_result" where
  "reconcile_stale_agents = call ''agents'' (\<lambda>d.
     (case sql_update (\<lambda>r. live_status (ag_status r)) (\<lambda>r. r\<lparr>ag_status := ''exited''\<rparr>) (db_agents d) of
        (n, rows) \<Rightarrow>
          (let d1 = d\<lparr>db_agents := rows\<rparr> in
           if ''sessions'' \<notin> set (db_tables d1) then (Inl (NoSuchTable ''sessions''), d1)
           else (Inr n, d1\<lparr>db_sessions := snd (sql_update (\<lambda>r. se_status r = ''active'')
                           (\<lambda>r. r\<lparr>se_status := ''closed''\<rparr>) (db_sessions d1))\<rparr>))))"

section \<open>Sessions\<close>

definition session_conflict :: "SessionRow \<Rightarrow> SessionRow \<Rightarrow> bool" where
  "session_conflict a b \<longleftrightarrow> se_group a = se_group b \<and> se_name a = se_name b"

definition session_create :: "SessionRow \<Rightarrow> db \<Rightarrow> bool store_result" where
  "session_create row = call ''sessions'' (\<lambda>d.
     (case sql_insert_or_ignore session_conflict row (db_sessions d) of
        (n, rows) \<Rightarrow> (Inr (n > 0), d\<lparr>db_sessions := rows\<rparr>)))"

definition session_get :: "string \<Rightarrow> string \<Rightarrow> db \<Rightarrow> SessionRow option store_result" where
  "session_get grp name = call ''sessions'' (\<lambda>d.
     (Inr (sql_query_row (\<lambda>r. se_group r = grp \<and> se_name r = name) (db_sessions d)), d))"

definition session_list :: "string \<Rightarrow> db \<Rightarrow> SessionRow list store_result" where
  "session_list grp = call ''sessions'' (\<lambda>d.
     (Inr (sql_order_by (\<lambda>r. as_i64 (se_created_at_ms r))
        (filter (\<lambda>r. se_group r = grp) (db_sessions d))), d))"

definition session_close :: "string \<Rightarrow> string \<Rightarrow> db \<Rightarrow> nat store_result" where
  "session_close grp name = call ''sessions'' (\<lambda>d.
     (case sql_update (\<lambda>r. se_group r = grp \<and> se_name r = name) (\<lambda>r. r\<lparr>se_status := ''closed''\<rparr>)
             (db_sessions d) of
        (n, rows) \<Rightarrow> (Inr n, d\<lparr>db_sessions := rows\<rparr>)))"

section \<open>Table constraints\<close>

definition orch_unique :: "db \<Rightarrow> bool" where
  "orch_unique d \<longleftrightarrow> unique_rows group_conflict (db_groups d) \<and> unique_rows agent_conflict (db_agents d)
     \<and> unique_rows session_conflict (db_sessions d)"

interpretation groups_t: unique_table group_conflict
  by unfold_locales (auto simp: group_conflict_def)

interpretation agents_t: unique_table agent_conflict
  by unfold_locales (auto simp: agent_conflict_def)

interpretation sessions_t: unique_table session_conflict
  by unfold_locales (auto simp: session_conflict_def)

lemmas orch_defs = group_create_def group_list_def group_exists_def agent_register_def agent_by_token_def
  agent_get_def agent_list_def agent_set_status_def agent_touch_def reconcile_stale_agents_def
  session_create_def session_get_def session_list_def session_close_def

section \<open>Lemmas: what each operation leaves\<close>

lemma group_create_unique: "orch_unique d \<Longrightarrow> orch_unique (snd (group_create now name d))"
  using groups_t.unique_insert [of "db_groups d" "\<lparr>gr_name = name, gr_created_at_ms = now\<rparr>"]
  by (simp add: group_create_def call_def orch_unique_def case_prod_unfold)

lemma agent_register_unique: "orch_unique d \<Longrightarrow> orch_unique (snd (agent_register row d))"
  using agents_t.unique_insert [of "db_agents d" row]
  by (simp add: agent_register_def call_def orch_unique_def case_prod_unfold)

lemma session_create_unique: "orch_unique d \<Longrightarrow> orch_unique (snd (session_create row d))"
  using sessions_t.unique_insert [of "db_sessions d" row]
  by (simp add: session_create_def call_def orch_unique_def case_prod_unfold)

lemma agents_update_unique:
  assumes "unique_rows agent_conflict (db_agents d)"
    and "\<And>r. ag_group (f r) = ag_group r" "\<And>r. ag_name (f r) = ag_name r" "\<And>r. ag_token_hash (f r) = ag_token_hash r"
  shows "unique_rows agent_conflict (snd (sql_update P f (db_agents d)))"
  using assms by (intro agents_t.unique_update) (auto simp: agent_conflict_def split: if_splits)

lemma sessions_update_unique:
  assumes "unique_rows session_conflict (db_sessions d)"
    and "\<And>r. se_group (f r) = se_group r" "\<And>r. se_name (f r) = se_name r"
  shows "unique_rows session_conflict (snd (sql_update P f (db_sessions d)))"
  using assms by (intro sessions_t.unique_update) (auto simp: session_conflict_def split: if_splits)

lemma agent_set_status_unique: "orch_unique d \<Longrightarrow> orch_unique (snd (agent_set_status now g n st pid d))"
  using agents_update_unique [of d]
  by (simp add: agent_set_status_def call_def orch_unique_def)

lemma agent_touch_unique: "orch_unique d \<Longrightarrow> orch_unique (snd (agent_touch now g n d))"
  using agents_update_unique [of d] by (simp add: agent_touch_def call_def orch_unique_def)

lemma session_close_unique: "orch_unique d \<Longrightarrow> orch_unique (snd (session_close g n d))"
  using sessions_update_unique [of d]
  by (simp add: session_close_def call_def orch_unique_def case_prod_unfold)

lemma reconcile_unique: "orch_unique d \<Longrightarrow> orch_unique (snd (reconcile_stale_agents d))"
  using agents_update_unique [of d] sessions_update_unique [of d]
  by (simp add: reconcile_stale_agents_def call_def orch_unique_def case_prod_unfold Let_def)

section \<open>Lemmas: lookups\<close>

lemma agent_get_unique:
  "orch_unique d \<Longrightarrow> db_ok d \<Longrightarrow> a \<in> set (db_agents d) \<Longrightarrow>
   agent_get (ag_group a) (ag_name a) d = (Inr (Some a), d)"
  using agents_t.unique_query [of "db_agents d" a "\<lambda>r. ag_group r = ag_group a \<and> ag_name r = ag_name a"]
  by (simp add: agent_get_def call_ok orch_unique_def agent_conflict_def)

lemma agent_by_token_unique:
  "orch_unique d \<Longrightarrow> db_ok d \<Longrightarrow> a \<in> set (db_agents d) \<Longrightarrow>
   agent_by_token (ag_token_hash a) d = (Inr (Some a), d)"
  using agents_t.unique_query [of "db_agents d" a "\<lambda>r. ag_token_hash r = ag_token_hash a"]
  by (simp add: agent_by_token_def call_ok orch_unique_def agent_conflict_def)

lemma session_get_unique:
  "orch_unique d \<Longrightarrow> db_ok d \<Longrightarrow> s \<in> set (db_sessions d) \<Longrightarrow>
   session_get (se_group s) (se_name s) d = (Inr (Some s), d)"
  using sessions_t.unique_query [of "db_sessions d" s "\<lambda>r. se_group r = se_group s \<and> se_name r = se_name s"]
  by (simp add: session_get_def call_ok orch_unique_def session_conflict_def)

text \<open>The reads of the orchestration tables leave the database alone.\<close>

lemma orch_reads [simp]:
  "snd (group_list d) = d" "snd (group_exists n d) = d" "snd (agent_by_token h d) = d"
  "snd (agent_get g n d) = d" "snd (agent_list og d) = d" "snd (session_get g n d) = d"
  "snd (session_list g d) = d"
  by (simp_all add: orch_defs call_def)

section \<open>Properties\<close>

text \<open>
  Reconciliation at start-up leaves no trace of a previous daemon's children: afterwards no agent
  has a live status and no session is active, agents that were not live and sessions that were not
  active are as before, the result counts the agents it changed, and a second run changes nothing.
\<close>

lemma reconcile_clears:
  assumes "db_ok d"
  shows "\<exists>d'. reconcile_stale_agents d = (Inr (length (filter (\<lambda>r. live_status (ag_status r)) (db_agents d))), d')
    \<and> list_all (\<lambda>r. \<not> live_status (ag_status r)) (db_agents d')
    \<and> list_all (\<lambda>r. se_status r \<noteq> ''active'') (db_sessions d')
    \<and> list_all2 (\<lambda>a b. b = (if live_status (ag_status a) then a\<lparr>ag_status := ''exited''\<rparr> else a)) (db_agents d) (db_agents d')
    \<and> list_all2 (\<lambda>a b. b = (if se_status a = ''active'' then a\<lparr>se_status := ''closed''\<rparr> else a)) (db_sessions d) (db_sessions d')
    \<and> reconcile_stale_agents d' = (Inr 0, d')"
proof -
  let ?live = "\<lambda>r. live_status (ag_status r)" and ?act = "\<lambda>r. se_status r = ''active''"
  let ?f = "\<lambda>r. r\<lparr>ag_status := ''exited''\<rparr>" and ?g = "\<lambda>r. r\<lparr>se_status := ''closed''\<rparr>"
  define as where "as = map (\<lambda>r. if ?live r then ?f r else r) (db_agents d)"
  define ss where "ss = map (\<lambda>r. if ?act r then ?g r else r) (db_sessions d)"
  let ?d = "d\<lparr>db_agents := as, db_sessions := ss\<rparr>"
  have run: "reconcile_stale_agents e = (Inr (fst (sql_update ?live ?f (db_agents e))),
      e\<lparr>db_agents := snd (sql_update ?live ?f (db_agents e)), db_sessions := snd (sql_update ?act ?g (db_sessions e))\<rparr>)"
    if "db_ok e" for e
  proof -
    have "''sessions'' \<in> set (db_tables e)" using that by (auto simp: db_ok_def all_tables_def)
    with that show ?thesis by (simp add: reconcile_stale_agents_def call_ok case_prod_unfold)
  qed
  have first: "reconcile_stale_agents d = (Inr (length (filter ?live (db_agents d))), ?d)"
    unfolding run [OF assms] by (simp add: sql_update_def as_def ss_def)
  have a: "\<And>r. r \<in> set as \<Longrightarrow> \<not> ?live r" by (auto simp: as_def live_status_def)
  have s: "\<And>r. r \<in> set ss \<Longrightarrow> \<not> ?act r" by (auto simp: ss_def)
  have ok: "db_ok ?d" using assms by (simp add: db_ok_def)
  have u: "sql_update ?live ?f as = (0, as)" "sql_update ?act ?g ss = (0, ss)"
    by (rule sql_update_none, erule a, rule sql_update_none, erule s)
  have again: "reconcile_stale_agents ?d = (Inr 0, ?d)"
    unfolding run [OF ok] by (simp add: u)
  have kept: "list_all2 (\<lambda>a b. b = (if ?live a then ?f a else a)) (db_agents d) as"
    "list_all2 (\<lambda>a b. b = (if ?act a then ?g a else a)) (db_sessions d) ss"
    by (simp_all add: as_def ss_def list_all2_map2 list_all2_same)
  have clear: "list_all (\<lambda>r. \<not> ?live r) as" "list_all (\<lambda>r. \<not> ?act r) ss" using a s by (simp_all add: list_all_iff)
  have f: "db_agents ?d = as" "db_sessions ?d = ss" by simp_all
  show ?thesis
    by (rule exI [where x = ?d], unfold f, intro conjI) (fact first clear kept again)+
qed

end
