(* ===== verification/Wt_Bus.thy ===== *)
theory Wt_Bus
  imports Wt_Store_Base
begin

text \<open>
  The local message bus of \<^verbatim>\<open>src/crates/wt-core/src/store.rs\<close>: a log per group and session
  with its own sequence numbers, trimmed to the last \<open>MAX_MSGS_PER_SESSION\<close> rows, and the
  queries its readers use.
\<close>

section \<open>Operations\<close>

definition MAX_MSGS_PER_SESSION :: int where
  "MAX_MSGS_PER_SESSION = 5000"

definition am_scope :: "AgentMsgRow \<Rightarrow> string \<times> string" where
  "am_scope r = (am_group r, am_session r)"

definition am_sq :: "AgentMsgRow \<Rightarrow> int" where
  "am_sq r = as_i64 (am_seq r)"

definition am_conflict :: "AgentMsgRow \<Rightarrow> AgentMsgRow \<Rightarrow> bool" where
  "am_conflict a b \<longleftrightarrow> am_scope a = am_scope b \<and> am_seq a = am_seq b"

type_synonym am_plan = "AgentMsgRow list \<Rightarrow> AgentMsgRow list"

definition agent_msg_enqueue ::
  "u64 \<Rightarrow> string \<Rightarrow> string \<Rightarrow> string \<Rightarrow> string \<Rightarrow> string \<Rightarrow> bytes \<Rightarrow> db \<Rightarrow> AgentMsgRow store_result" where
  "agent_msg_enqueue now grp session from_agent to_agent kind payload = call ''agent_messages'' (\<lambda>d.
     case next_seq (\<lambda>r. am_scope r = (grp, session)) am_sq (db_agent_messages d) of
       None \<Rightarrow> (Inl InvalidColumnType, d)
     | Some sq \<Rightarrow>
         (let row = \<lparr>am_group = grp, am_session = session, am_seq = as_u64 sq, am_from = from_agent,
                     am_to = to_agent, am_kind = kind, am_payload = payload,
                     am_enqueued_at_ms = now, am_consumed_at_ms = None\<rparr> in
          if list_ex (am_conflict row) (db_agent_messages d) then (Inl UniqueViolation, d)
          else (Inr row,
                d\<lparr>db_agent_messages :=
                    snd (sql_delete (\<lambda>r. am_scope r = (grp, session) \<and> am_sq r \<le> sq - MAX_MSGS_PER_SESSION)
                          (db_agent_messages d @ [row]))\<rparr>)))"

definition agent_msg_backlog ::
  "am_plan \<Rightarrow> string \<Rightarrow> string \<Rightarrow> string option \<Rightarrow> u64 option \<Rightarrow> nat \<Rightarrow> bool \<Rightarrow> db \<Rightarrow> AgentMsgRow list store_result" where
  "agent_msg_backlog plan grp to_agent session after_ms limit unconsumed_only = call ''agent_messages'' (\<lambda>d.
     let after = (case after_ms of Some v \<Rightarrow> as_i64 v | None \<Rightarrow> 0) in
     (Inr (sql_limit (int limit) (sql_order_by (\<lambda>r. (as_i64 (am_enqueued_at_ms r), am_sq r))
        (plan (filter (\<lambda>r. am_group r = grp \<and> am_to r = to_agent \<and> null_or_eq session (am_session r)
                         \<and> as_i64 (am_enqueued_at_ms r) > after
                         \<and> (\<not> unconsumed_only \<or> am_consumed_at_ms r = None))
                 (db_agent_messages d))))), d))"

definition agent_msg_mark_consumed :: "u64 \<Rightarrow> string \<Rightarrow> string \<Rightarrow> u64 \<Rightarrow> db \<Rightarrow> unit store_result" where
  "agent_msg_mark_consumed now grp session sq = call ''agent_messages'' (\<lambda>d.
     (Inr (), d\<lparr>db_agent_messages := snd (sql_update
        (\<lambda>r. am_scope r = (grp, session) \<and> am_seq r = sq)
        (\<lambda>r. r\<lparr>am_consumed_at_ms := Some now\<rparr>) (db_agent_messages d))\<rparr>))"

definition am_pending :: "string \<Rightarrow> string \<Rightarrow> string \<Rightarrow> AgentMsgRow \<Rightarrow> bool" where
  "am_pending grp to_agent kind r \<longleftrightarrow>
     am_group r = grp \<and> am_to r = to_agent \<and> am_kind r = kind \<and> am_consumed_at_ms r = None"

definition agent_msg_pending ::
  "am_plan \<Rightarrow> string \<Rightarrow> string \<Rightarrow> string \<Rightarrow> db \<Rightarrow> AgentMsgRow list store_result" where
  "agent_msg_pending plan grp to_agent kind = call ''agent_messages'' (\<lambda>d.
     (Inr (sql_order_by am_sq (plan (filter (am_pending grp to_agent kind) (db_agent_messages d)))), d))"

definition agent_msg_session_log :: "string \<Rightarrow> string \<Rightarrow> u64 \<Rightarrow> db \<Rightarrow> AgentMsgRow list store_result" where
  "agent_msg_session_log grp session after_seq = call ''agent_messages'' (\<lambda>d.
     (Inr (sql_order_by am_sq (filter (\<lambda>r. am_scope r = (grp, session) \<and> am_sq r > as_i64 after_seq)
        (db_agent_messages d))), d))"

definition agent_msg_group_feed :: "string \<Rightarrow> u64 \<Rightarrow> db \<Rightarrow> AgentMsgRow list store_result" where
  "agent_msg_group_feed grp after_ms = call ''agent_messages'' (\<lambda>d.
     (Inr (sql_order_by (\<lambda>r. (as_i64 (am_enqueued_at_ms r), am_session r, am_sq r))
        (filter (\<lambda>r. am_group r = grp \<and> as_i64 (am_enqueued_at_ms r) > as_i64 after_ms)
          (db_agent_messages d))), d))"

section \<open>Table constraints\<close>

definition bus_unique :: "AgentMsgRow list \<Rightarrow> bool" where
  "bus_unique rows \<longleftrightarrow> unique_rows am_conflict rows"

interpretation bus_t: unique_table am_conflict
  by unfold_locales (auto simp: am_conflict_def)

interpretation bus_log: seq_log am_scope am_sq .

text \<open>The sequence numbers one session holds.\<close>

definition session_seqs :: "string \<times> string \<Rightarrow> AgentMsgRow list \<Rightarrow> int set" where
  "session_seqs k rows = am_sq ` {r \<in> set rows. am_scope r = k}"

text \<open>Each session's log is the last run of its numbers, at most the retention cap long.\<close>

definition bus_window :: "AgentMsgRow list \<Rightarrow> bool" where
  "bus_window rows \<longleftrightarrow> (\<forall>k. \<exists>lo hi. 1 \<le> lo \<and> hi \<le> max_i64 \<and> hi - lo < MAX_MSGS_PER_SESSION
     \<and> session_seqs k rows = {lo..hi})"

section \<open>Lemmas: enqueueing\<close>

lemma am_seq_eq_iff: "am_seq a = am_seq b \<longleftrightarrow> am_sq a = am_sq b"
  by (simp add: am_sq_def)

lemma next_seq_window:
  assumes "session_seqs k rows = {lo..hi}" and "1 \<le> lo" and "hi \<le> max_i64"
  shows "next_seq (\<lambda>r. am_scope r = k) am_sq rows =
     (if lo \<le> hi then (if hi = max_i64 then None else Some (hi + 1)) else Some 1)"
proof (cases "lo \<le> hi")
  case True
  then have "hi \<in> session_seqs k rows" using assms(1) by simp
  then obtain r where r: "r \<in> set rows" "am_scope r = k" "am_sq r = hi" by (auto simp: session_seqs_def)
  have "sql_max am_sq (filter (\<lambda>r. am_scope r = k) rows) = Some (am_sq r)"
  proof (rule sql_max_eqI)
    show "r \<in> set (filter (\<lambda>r. am_scope r = k) rows)" using r by simp
    fix y assume "y \<in> set (filter (\<lambda>r. am_scope r = k) rows)"
    then have "am_sq y \<in> session_seqs k rows" by (auto simp: session_seqs_def)
    with assms(1) r(3) show "am_sq y \<le> am_sq r" by simp
  qed
  with True r(3) show ?thesis by (simp add: next_seq_def)
next
  case False
  then have "session_seqs k rows = {}" using assms(1) by simp
  then have "filter (\<lambda>r. am_scope r = k) rows = []" by (auto simp: session_seqs_def filter_empty_conv)
  with False show ?thesis by (simp add: next_seq_def sql_max_def max_i64_def)
qed

lemma agent_msg_enqueue_cases:
  assumes "db_ok d"
  obtains (full) "next_seq (\<lambda>r. am_scope r = (g, s)) am_sq (db_agent_messages d) = None"
      "agent_msg_enqueue now g s f t k pl d = (Inl InvalidColumnType, d)"
  | (new) sq row where
      "next_seq (\<lambda>r. am_scope r = (g, s)) am_sq (db_agent_messages d) = Some sq"
      "row = \<lparr>am_group = g, am_session = s, am_seq = as_u64 sq, am_from = f, am_to = t, am_kind = k,
              am_payload = pl, am_enqueued_at_ms = now, am_consumed_at_ms = None\<rparr>"
      "agent_msg_enqueue now g s f t k pl d =
         (if list_ex (am_conflict row) (db_agent_messages d) then (Inl UniqueViolation, d)
          else (Inr row, d\<lparr>db_agent_messages :=
             filter (\<lambda>r. \<not> (am_scope r = (g, s) \<and> am_sq r \<le> sq - MAX_MSGS_PER_SESSION))
               (db_agent_messages d @ [row])\<rparr>))"
proof (cases "next_seq (\<lambda>r. am_scope r = (g, s)) am_sq (db_agent_messages d)")
  case None
  with assms show thesis by (intro full) (simp_all add: agent_msg_enqueue_def call_ok)
next
  case (Some sq)
  with assms show thesis
    by (intro new [OF Some refl]) (simp add: agent_msg_enqueue_def call_ok Let_def sql_delete_def)
qed

text \<open>Within the window the number is fresh, the row is stored and the oldest one falls out.\<close>

lemma agent_msg_enqueue_window:
  fixes now :: u64 and g s f t k :: string and pl :: bytes
  assumes ok: "db_ok d" and win: "session_seqs (g, s) (db_agent_messages d) = {lo..hi}"
    and lo: "1 \<le> lo" and hi: "hi < max_i64" and len: "hi - lo < MAX_MSGS_PER_SESSION"
  defines "n \<equiv> (if lo \<le> hi then hi + 1 else 1)"
  defines "row \<equiv> \<lparr>am_group = g, am_session = s, am_seq = as_u64 n, am_from = f, am_to = t, am_kind = k,
              am_payload = pl, am_enqueued_at_ms = now, am_consumed_at_ms = None\<rparr>"
  shows "agent_msg_enqueue now g s f t k pl d = (Inr row, d\<lparr>db_agent_messages :=
       filter (\<lambda>r. \<not> (am_scope r = (g, s) \<and> am_sq r \<le> n - MAX_MSGS_PER_SESSION)) (db_agent_messages d) @ [row]\<rparr>)"
    and "am_sq row = n" and "1 \<le> n" and "n \<le> max_i64"
proof -
  show n1: "1 \<le> n" using lo by (auto simp: n_def)
  show n2: "n \<le> max_i64" using hi by (auto simp: n_def max_i64_def)
  have nb: "- (2 ^ 63) \<le> n" using n1 by simp
  show sq: "am_sq row = n" using as_i64_as_u64 [OF nb n2] by (simp add: row_def am_sq_def)
  have nx: "next_seq (\<lambda>r. am_scope r = (g, s)) am_sq (db_agent_messages d) = Some n"
    using next_seq_window [OF win lo] hi by (simp add: n_def)
  have sc: "am_scope row = (g, s)" by (simp add: row_def am_scope_def)
  have fresh: "\<not> list_ex (am_conflict row) (db_agent_messages d)"
  proof -
    have "\<not> am_conflict row x" if "x \<in> set (db_agent_messages d)" for x
      using bus_log.fresh_key [OF nx that] by (auto simp: am_conflict_def am_seq_eq_iff sc sq)
    then show ?thesis by (simp add: list_ex_iff)
  qed
  have keep: "\<not> (am_scope row = (g, s) \<and> am_sq row \<le> n - MAX_MSGS_PER_SESSION)"
    by (simp add: sq MAX_MSGS_PER_SESSION_def)
  from ok fresh keep show "agent_msg_enqueue now g s f t k pl d = (Inr row, d\<lparr>db_agent_messages :=
       filter (\<lambda>r. \<not> (am_scope r = (g, s) \<and> am_sq r \<le> n - MAX_MSGS_PER_SESSION)) (db_agent_messages d) @ [row]\<rparr>)"
    by (simp add: agent_msg_enqueue_def call_ok nx Let_def sql_delete_def row_def [symmetric])
qed

text \<open>The row an accepted enqueue returns is stored.\<close>

lemma next_am_seq_bounds:
  assumes "next_seq P am_sq rows = Some n"
  shows "am_sq \<lparr>am_group = g, am_session = s, am_seq = as_u64 n, am_from = f, am_to = t, am_kind = k,
     am_payload = pl, am_enqueued_at_ms = now, am_consumed_at_ms = None\<rparr> = n"
proof -
  have "- (2 ^ 63) \<le> n \<and> n \<le> max_i64"
  proof (cases "sql_max am_sq (filter P rows)")
    case None
    with assms show ?thesis by (auto simp: next_seq_def max_i64_def split: if_splits)
  next
    case (Some m)
    from sql_max_mem [OF Some] have "- (2 ^ 63) \<le> m" "m \<le> max_i64" using as_i64_bounds by (auto simp: am_sq_def)
    with Some assms show ?thesis by (auto simp: next_seq_def split: if_splits)
  qed
  then show ?thesis by (simp add: am_sq_def as_i64_as_u64)
qed

lemma agent_msg_enqueue_mem:
  assumes "db_ok d" and "agent_msg_enqueue now g s f t k pl d = (Inr row, d')"
  shows "row \<in> set (db_agent_messages d')" "am_scope row = (g, s)" "am_from row = f" "am_to row = t" "am_kind row = k"
    "am_payload row = pl" "am_enqueued_at_ms row = now" "am_consumed_at_ms row = None"
proof -
  from assms obtain sq where sq: "next_seq (\<lambda>r. am_scope r = (g, s)) am_sq (db_agent_messages d) = Some sq"
    and row: "row = \<lparr>am_group = g, am_session = s, am_seq = as_u64 sq, am_from = f, am_to = t, am_kind = k,
              am_payload = pl, am_enqueued_at_ms = now, am_consumed_at_ms = None\<rparr>"
    and d': "d' = d\<lparr>db_agent_messages := snd (sql_delete (\<lambda>r. am_scope r = (g, s) \<and> am_sq r \<le> sq - MAX_MSGS_PER_SESSION)
                          (db_agent_messages d @ [row]))\<rparr>"
    by (auto simp: agent_msg_enqueue_def call_ok Let_def split: option.splits if_splits)
  have "am_sq row = sq" unfolding row by (rule next_am_seq_bounds [OF sq])
  then show "row \<in> set (db_agent_messages d')" by (simp add: d' sql_delete_def MAX_MSGS_PER_SESSION_def)
  show "am_scope row = (g, s)" "am_from row = f" "am_to row = t" "am_kind row = k"
    "am_payload row = pl" "am_enqueued_at_ms row = now" "am_consumed_at_ms row = None"
    by (simp_all add: row am_scope_def)
qed

lemma session_seqs_trim:
  "session_seqs k' (filter (\<lambda>r. am_scope r = k \<longrightarrow> \<not> am_sq r \<le> m) rows) =
     (if k' = k then session_seqs k rows - {..m} else session_seqs k' rows)"
  by (auto simp: session_seqs_def)

lemma session_seqs_append:
  "session_seqs k (rows @ [r]) = (if am_scope r = k then insert (am_sq r) (session_seqs k rows) else session_seqs k rows)"
  by (auto simp: session_seqs_def)

lemma agent_msg_enqueue_bus_window:
  assumes ok: "db_ok d" and win: "bus_window (db_agent_messages d)"
  shows "bus_window (db_agent_messages (snd (agent_msg_enqueue now g s f t k pl d)))"
proof -
  from win obtain lo hi where w: "1 \<le> lo" "hi \<le> max_i64" "hi - lo < MAX_MSGS_PER_SESSION"
    "session_seqs (g, s) (db_agent_messages d) = {lo..hi}" unfolding bus_window_def by meson
  show ?thesis
  proof (cases "lo \<le> hi \<and> hi = max_i64")
    case True
    then have "next_seq (\<lambda>r. am_scope r = (g, s)) am_sq (db_agent_messages d) = None"
      using next_seq_window [OF w(4,1,2)] by simp
    with ok win show ?thesis by (simp add: agent_msg_enqueue_def call_ok)
  next
    case False
    define hi' where "hi' = (if lo \<le> hi then hi else 0)"
    define lo' where "lo' = (if lo \<le> hi then lo else 1)"
    have w': "1 \<le> lo'" "hi' < max_i64" "hi' - lo' < MAX_MSGS_PER_SESSION"
      "session_seqs (g, s) (db_agent_messages d) = {lo'..hi'}" "lo' \<le> hi' + 1"
      using w False by (auto simp: hi'_def lo'_def max_i64_def MAX_MSGS_PER_SESSION_def)
    have n: "(if lo' \<le> hi' then hi' + 1 else 1) = hi' + 1" by (simp add: hi'_def lo'_def)
    note enq = agent_msg_enqueue_window(1,2) [OF ok w'(4,1,2,3), where now = now and f = f and t = t and k = k and pl = pl, unfolded n]
    let ?row = "\<lparr>am_group = g, am_session = s, am_seq = as_u64 (hi' + 1), am_from = f, am_to = t, am_kind = k,
              am_payload = pl, am_enqueued_at_ms = now, am_consumed_at_ms = None\<rparr>"
    have sc: "am_scope ?row = (g, s)" by (simp add: am_scope_def)
    have "session_seqs (g, s) (db_agent_messages (snd (agent_msg_enqueue now g s f t k pl d)))
        = insert (hi' + 1) ({lo'..hi'} - {..hi' + 1 - MAX_MSGS_PER_SESSION})"
      unfolding enq(1) by (simp add: session_seqs_append session_seqs_trim sc enq(2) w'(4))
    also have "\<dots> = {max lo' (hi' + 2 - MAX_MSGS_PER_SESSION)..hi' + 1}"
      using w'(3,5) by (auto simp: MAX_MSGS_PER_SESSION_def)
    finally have new: "session_seqs (g, s) (db_agent_messages (snd (agent_msg_enqueue now g s f t k pl d)))
        = {max lo' (hi' + 2 - MAX_MSGS_PER_SESSION)..hi' + 1}" .
    have other: "session_seqs k' (db_agent_messages (snd (agent_msg_enqueue now g s f t k pl d)))
        = session_seqs k' (db_agent_messages d)" if "k' \<noteq> (g, s)" for k'
      unfolding enq(1) using that by (simp add: session_seqs_append session_seqs_trim sc)
    show ?thesis unfolding bus_window_def
    proof
      fix k'
      show "\<exists>lo hi. 1 \<le> lo \<and> hi \<le> max_i64 \<and> hi - lo < MAX_MSGS_PER_SESSION \<and>
          session_seqs k' (db_agent_messages (snd (agent_msg_enqueue now g s f t k pl d))) = {lo..hi}"
      proof (cases "k' = (g, s)")
        case True
        have "1 \<le> max lo' (hi' + 2 - MAX_MSGS_PER_SESSION)" "hi' + 1 \<le> max_i64"
          "hi' + 1 - max lo' (hi' + 2 - MAX_MSGS_PER_SESSION) < MAX_MSGS_PER_SESSION"
          using w' by (auto simp: MAX_MSGS_PER_SESSION_def)
        with new True show ?thesis by blast
      next
        case False
        from win [unfolded bus_window_def, rule_format, of k'] show ?thesis unfolding other [OF False] .
      qed
    qed
  qed
qed

lemma agent_msg_enqueue_unique:
  assumes "bus_unique (db_agent_messages d)"
  shows "bus_unique (db_agent_messages (snd (agent_msg_enqueue now g s f t k pl d)))"
  using assms bus_t.unique_append [of "db_agent_messages d"] bus_t.unique_filter
  by (auto simp: agent_msg_enqueue_def call_def bus_unique_def Let_def list_ex_iff sql_delete_def
      simp del: filter_append split: option.splits)

lemma mark_consumed_unique:
  assumes "bus_unique (db_agent_messages d)"
  shows "bus_unique (db_agent_messages (snd (agent_msg_mark_consumed now g s sq d)))"
proof -
  have "unique_rows am_conflict (snd (sql_update (\<lambda>r. am_scope r = (g, s) \<and> am_seq r = sq)
          (\<lambda>r. r\<lparr>am_consumed_at_ms := Some now\<rparr>) (db_agent_messages d)))"
    using assms by (intro bus_t.unique_update)
      (auto simp: bus_unique_def am_conflict_def am_scope_def split: if_splits)
  with assms show ?thesis by (simp add: agent_msg_mark_consumed_def call_def bus_unique_def)
qed

lemma mark_consumed_window:
  assumes "bus_window (db_agent_messages d)"
  shows "bus_window (db_agent_messages (snd (agent_msg_mark_consumed now g s sq d)))"
proof -
  have img: "session_seqs k rows = snd ` {p \<in> set (map (\<lambda>r. (am_scope r, am_sq r)) rows). fst p = k}" for k rows
    by (force simp: session_seqs_def)
  have "map (\<lambda>r. (am_scope r, am_sq r)) (db_agent_messages (snd (agent_msg_mark_consumed now g s sq d)))
      = map (\<lambda>r. (am_scope r, am_sq r)) (db_agent_messages d)"
    by (simp add: agent_msg_mark_consumed_def call_def sql_update_def am_scope_def am_sq_def)
  then have "session_seqs k (db_agent_messages (snd (agent_msg_mark_consumed now g s sq d)))
      = session_seqs k (db_agent_messages d)" for k by (simp only: img)
  with assms show ?thesis by (simp add: bus_window_def)
qed

text \<open>The cap: a session never holds more rows than \<open>MAX_MSGS_PER_SESSION\<close>.\<close>

lemma bus_window_length:
  assumes "bus_unique rows" and "bus_window rows"
  shows "int (length (filter (\<lambda>r. am_scope r = k) rows)) \<le> MAX_MSGS_PER_SESSION"
proof -
  let ?xs = "filter (\<lambda>r. am_scope r = k) rows"
  from assms(2) obtain lo hi where w: "hi - lo < MAX_MSGS_PER_SESSION" "session_seqs k rows = {lo..hi}"
    unfolding bus_window_def by meson
  have d: "distinct ?xs" using assms(1) by (auto simp: bus_unique_def intro: bus_t.unique_distinct distinct_filter)
  have inj: "inj_on am_sq (set ?xs)"
  proof (rule inj_onI)
    fix a b assume ab: "a \<in> set ?xs" "b \<in> set ?xs" "am_sq a = am_sq b"
    then have "am_conflict a b" by (simp add: am_conflict_def am_seq_eq_iff)
    with ab assms(1) show "a = b" by (auto simp: bus_unique_def intro: bus_t.unique_same)
  qed
  have "am_sq ` set ?xs = {lo..hi}" using w(2) by (simp add: session_seqs_def)
  then have "card (set ?xs) = card {lo..hi}" using card_image [OF inj] by simp
  then have "length ?xs = nat (hi - lo + 1)" unfolding distinct_card [OF d] by simp
  with w(1) show ?thesis by (simp add: MAX_MSGS_PER_SESSION_def)
qed

section \<open>Lemmas: the pending queue\<close>

lemma agent_msg_pending_ok:
  "db_ok d \<Longrightarrow> agent_msg_pending plan g t k d
     = (Inr (sql_order_by am_sq (plan (filter (am_pending g t k) (db_agent_messages d)))), d)"
  by (simp add: agent_msg_pending_def call_ok)

text \<open>Consuming a row takes exactly that row out of every selection of unconsumed rows.\<close>

lemma mark_consumed_filter:
  assumes ok: "db_ok d" and uniq: "bus_unique (db_agent_messages d)" and mem: "r \<in> set (db_agent_messages d)"
    and Q: "\<And>x. Q x \<Longrightarrow> am_consumed_at_ms x = None"
    and d': "d' = snd (agent_msg_mark_consumed now (am_group r) (am_session r) (am_seq r) d)"
  shows "filter Q (db_agent_messages d') = filter (\<lambda>x. Q x \<and> x \<noteq> r) (db_agent_messages d)"
    and "db_ok d'" and "bus_unique (db_agent_messages d')"
    and "length (db_agent_messages d') = length (db_agent_messages d)"
proof -
  let ?P = "\<lambda>x. am_scope x = (am_group r, am_session r) \<and> am_seq x = am_seq r"
  have P: "?P x \<longleftrightarrow> x = r" if "x \<in> set (db_agent_messages d)" for x
  proof
    assume "?P x"
    then have "am_conflict x r" by (simp add: am_conflict_def am_scope_def)
    with bus_t.unique_same [OF uniq [unfolded bus_unique_def] that mem] show "x = r" by simp
  qed (simp add: am_scope_def)
  have rows: "db_agent_messages d' = snd (sql_update ?P (am_consumed_at_ms_update (\<lambda>_. Some now)) (db_agent_messages d))"
    using ok by (simp add: d' agent_msg_mark_consumed_def call_ok)
  have nQ: "\<not> Q (am_consumed_at_ms_update (\<lambda>_. Some now) r)" using Q by fastforce
  show "filter Q (db_agent_messages d') = filter (\<lambda>x. Q x \<and> x \<noteq> r) (db_agent_messages d)"
    unfolding rows by (rule filter_update_single [where P = ?P and r = r], erule P, rule nQ)
  show "db_ok d'" using ok by (auto simp: d' agent_msg_mark_consumed_def call_def db_ok_def)
  show "bus_unique (db_agent_messages d')" unfolding d' by (rule mark_consumed_unique [OF uniq])
  show "length (db_agent_messages d') = length (db_agent_messages d)"
    unfolding rows by (simp add: sql_update_def)
qed

lemma bus_reads [simp]:
  "snd (agent_msg_backlog plan g t s a l u d) = d" "snd (agent_msg_pending plan g t k d) = d"
  "snd (agent_msg_session_log g s' sq d) = d" "snd (agent_msg_group_feed g a' d) = d"
  by (simp_all add: agent_msg_backlog_def agent_msg_pending_def agent_msg_session_log_def
      agent_msg_group_feed_def call_def Let_def)

section \<open>Properties\<close>

text \<open>
  C25 Retention.  An accepted enqueue on the bus stores the new row last, under a number above all
  numbers of its session, keeps exactly the session's rows among the last
  \<open>MAX_MSGS_PER_SESSION\<close> numbers, never holds more rows than that for a session, and does not touch
  another session's log.
\<close>

theorem bus_retention:
  assumes "db_ok d" and "bus_unique (db_agent_messages d)" and "bus_window (db_agent_messages d)"
    and enq: "agent_msg_enqueue now g s f t k pl d = (Inr row, d')"
  shows "filter (\<lambda>r. am_scope r = (g, s)) (db_agent_messages d') =
           filter (\<lambda>r. am_scope r = (g, s) \<and> am_sq r > am_sq row - MAX_MSGS_PER_SESSION) (db_agent_messages d) @ [row]
    \<and> (\<forall>r\<in>set (db_agent_messages d). am_scope r = (g, s) \<longrightarrow> am_sq r < am_sq row)
    \<and> int (length (filter (\<lambda>r. am_scope r = (g, s)) (db_agent_messages d'))) \<le> MAX_MSGS_PER_SESSION
    \<and> (\<forall>k'. k' \<noteq> (g, s) \<longrightarrow>
         filter (\<lambda>r. am_scope r = k') (db_agent_messages d') = filter (\<lambda>r. am_scope r = k') (db_agent_messages d))"
proof -
  from assms(3) obtain lo hi where w: "1 \<le> lo" "hi \<le> max_i64" "hi - lo < MAX_MSGS_PER_SESSION"
    "session_seqs (g, s) (db_agent_messages d) = {lo..hi}" unfolding bus_window_def by meson
  have "\<not> (lo \<le> hi \<and> hi = max_i64)"
    using enq next_seq_window [OF w(4,1,2)] assms(1) by (auto simp: agent_msg_enqueue_def call_ok)
  then obtain lo' hi' where w': "1 \<le> lo'" "hi' < max_i64" "hi' - lo' < MAX_MSGS_PER_SESSION"
    "session_seqs (g, s) (db_agent_messages d) = {lo'..hi'}"
  proof (cases "lo \<le> hi")
    case True
    with w that [of lo hi] \<open>\<not> (lo \<le> hi \<and> hi = max_i64)\<close> show thesis by auto
  next
    case False
    with w that [of 1 0] show thesis by (auto simp: max_i64_def MAX_MSGS_PER_SESSION_def)
  qed
  define n where "n = (if lo' \<le> hi' then hi' + 1 else 1)"
  let ?row = "\<lparr>am_group = g, am_session = s, am_seq = as_u64 n, am_from = f, am_to = t, am_kind = k,
              am_payload = pl, am_enqueued_at_ms = now, am_consumed_at_ms = None\<rparr>"
  note E = agent_msg_enqueue_window(1,2) [OF assms(1) w'(4,1,2,3), where now = now and f = f and t = t and k = k and pl = pl,
      folded n_def]
  from E(1) enq have row: "row = ?row" and d': "db_agent_messages d' =
      filter (\<lambda>r. \<not> (am_scope r = (g, s) \<and> am_sq r \<le> n - MAX_MSGS_PER_SESSION)) (db_agent_messages d) @ [row]" by auto
  have sq: "am_sq row = n" and sc: "am_scope row = (g, s)" using E(2) by (simp_all add: row am_scope_def)
  have "am_sq r < n" if "r \<in> set (db_agent_messages d)" "am_scope r = (g, s)" for r
  proof -
    have "am_sq r \<in> {lo'..hi'}" using that w'(4) by (auto simp: session_seqs_def)
    then show ?thesis by (simp add: n_def)
  qed
  moreover have "int (length (filter (\<lambda>r. am_scope r = (g, s)) (db_agent_messages d'))) \<le> MAX_MSGS_PER_SESSION"
  proof -
    have "d' = snd (agent_msg_enqueue now g s f t k pl d)" using enq by simp
    then show ?thesis
      using agent_msg_enqueue_unique [OF assms(2)] agent_msg_enqueue_bus_window [OF assms(1,3)]
      by (auto intro: bus_window_length)
  qed
  moreover have "filter (\<lambda>r. am_scope r = (g, s)) (db_agent_messages d') =
     filter (\<lambda>r. am_scope r = (g, s) \<and> am_sq r > n - MAX_MSGS_PER_SESSION) (db_agent_messages d) @ [row]"
    unfolding d' by (simp add: sc conj_commute not_le) (metis (mono_tags, lifting))
  moreover have "filter (\<lambda>r. am_scope r = k') (db_agent_messages d') = filter (\<lambda>r. am_scope r = k') (db_agent_messages d)"
    if "k' \<noteq> (g, s)" for k'
    unfolding d' using that by (auto simp: sc intro: filter_cong)
  ultimately show ?thesis unfolding sq by blast
qed

lemma bus_window_empty: "bus_window []"
  unfolding bus_window_def
  by (rule allI, rule exI [where x = 1], rule exI [where x = 0])
    (simp add: session_seqs_def MAX_MSGS_PER_SESSION_def max_i64_def)

lemma sample_db_bus: "bus_unique (db_agent_messages sample_db)" "bus_window (db_agent_messages sample_db)"
  by (simp_all add: bus_unique_def unique_rows_def bus_window_empty)

lemma bus_retention_witness:
  "\<exists>row d'. agent_msg_enqueue 5 ''g'' ''s'' ''p'' ''c'' ''user'' [1] sample_db = (Inr row, d')
     \<and> filter (\<lambda>r. am_scope r = (''g'', ''s'')) (db_agent_messages d') = [row]"
proof -
  have w: "session_seqs (''g'', ''s'') (db_agent_messages sample_db) = {1..0}" by (simp add: session_seqs_def)
  obtain row d' where e: "agent_msg_enqueue 5 ''g'' ''s'' ''p'' ''c'' ''user'' [1] sample_db = (Inr row, d')"
    using agent_msg_enqueue_window(1) [OF sample_db_ok w] by (auto simp: max_i64_def MAX_MSGS_PER_SESSION_def)
  from bus_retention [OF sample_db_ok sample_db_bus e] e show ?thesis by simp
qed

text \<open>
  A reader that takes pending rows takes each once.  The rows a query for an agent and a kind
  returns are the unconsumed ones, each once, in ascending order of their numbers; marking one of
  them consumed removes that row, and no other, from every such query.
\<close>

lemma consume_exactly_one:
  assumes "db_ok d" and "bus_unique (db_agent_messages d)" and "is_plan plan" and "is_plan plan'"
    and "agent_msg_pending plan g t k d = (Inr rows, d)" and "r \<in> set rows"
    and "d' = snd (agent_msg_mark_consumed now (am_group r) (am_session r) (am_seq r) d)"
    and "agent_msg_pending plan' g' t' k' d = (Inr before, d)"
  shows "distinct rows \<and> sorted (map am_sq rows) \<and> set rows = {x \<in> set (db_agent_messages d). am_pending g t k x}
    \<and> (\<exists>after. agent_msg_pending plan' g' t' k' d' = (Inr after, d') \<and> distinct after
         \<and> set after = set before - {r} \<and> sorted (map am_sq after))"
proof -
  have dist: "distinct (sql_order_by am_sq (p (filter Q (db_agent_messages e))))"
    if "is_plan p" "bus_unique (db_agent_messages e)" for p Q e
  proof -
    have "distinct (filter Q (db_agent_messages e))"
      using that(2) by (auto simp: bus_unique_def intro: bus_t.unique_distinct distinct_filter)
    then show ?thesis using that(1) by (metis is_plan_mset mset_eq_imp_distinct_iff mset_sql_order_by)
  qed
  have rows: "rows = sql_order_by am_sq (plan (filter (am_pending g t k) (db_agent_messages d)))"
    and before: "before = sql_order_by am_sq (plan' (filter (am_pending g' t' k') (db_agent_messages d)))"
    using assms(1,5,8) by (simp_all add: agent_msg_pending_ok)
  have mem: "r \<in> set (db_agent_messages d)" using assms(3,6) rows by (auto simp: is_plan_set)
  note mc = mark_consumed_filter [OF assms(1,2) mem _ assms(7), of "am_pending g' t' k'"]
  have "am_pending g' t' k' x \<Longrightarrow> am_consumed_at_ms x = None" for x by (simp add: am_pending_def)
  note mc' = mc [OF this]
  let ?after = "sql_order_by am_sq (plan' (filter (am_pending g' t' k') (db_agent_messages d')))"
  have "agent_msg_pending plan' g' t' k' d' = (Inr ?after, d')" using mc'(2) by (rule agent_msg_pending_ok)
  moreover have "set ?after = set before - {r}"
    using assms(4) by (auto simp: before is_plan_set mc'(1))
  moreover have "distinct ?after" by (rule dist [OF assms(4) mc'(3)])
  ultimately show ?thesis
    using dist [OF assms(3,2)] assms(3) by (auto simp: rows is_plan_set sorted_sql_order_by)
qed

definition sample_bus_row :: "u64 \<Rightarrow> AgentMsgRow" where
  "sample_bus_row n = \<lparr>am_group = ''g'', am_session = ''s'', am_seq = n, am_from = ''p'', am_to = ''c'',
     am_kind = ''turn_input'', am_payload = [1], am_enqueued_at_ms = n, am_consumed_at_ms = None\<rparr>"

definition sample_bus_db :: db where
  "sample_bus_db = sample_db\<lparr>db_agent_messages := [sample_bus_row 1, sample_bus_row 2]\<rparr>"

lemma sample_bus_db_ok:
  "db_ok sample_bus_db" "bus_unique (db_agent_messages sample_bus_db)"
  by (simp_all add: sample_bus_db_def sample_db_def db_ok_def bus_unique_def unique_rows_def am_conflict_def
      sample_bus_row_def)

end
