(* ===== verification/Wt_Store.thy ===== *)
theory Wt_Store
  imports Wt_Registry Wt_Mailbox Wt_Orch Wt_Bus
begin

text \<open>
  The store of \<^verbatim>\<open>src/crates/wt-core/src/store.rs\<close> as a whole.  Every handle sends its closure
  to the one database thread, so whatever tasks run, the database goes through a sequence of
  whole operations; \<open>store_step\<close> is one of them and \<open>store_reachable\<close> what any interleaving of
  them can produce from an opened file.  \<open>db_inv\<close> is the invariant: the declared keys hold in
  every table, every row converts to its Rust struct, and each bus log is a contiguous window.
\<close>

section \<open>The invariant\<close>

definition db_inv :: "db \<Rightarrow> bool" where
  "db_inv d \<longleftrightarrow> db_ok d
     \<and> peers_unique (db_peers d) \<and> list_all peer_rec_ok (db_peers d)
     \<and> tokens_unique (db_tokens d) \<and> list_all token_rec_ok (db_tokens d)
     \<and> messages_unique (db_messages d) \<and> list_all msg_rec_ok (db_messages d)
     \<and> orch_unique d \<and> bus_unique (db_agent_messages d) \<and> bus_window (db_agent_messages d)"

lemma db_invD:
  assumes "db_inv d"
  shows "db_ok d" "peers_unique (db_peers d)" "list_all peer_rec_ok (db_peers d)"
    "tokens_unique (db_tokens d)" "list_all token_rec_ok (db_tokens d)"
    "messages_unique (db_messages d)" "list_all msg_rec_ok (db_messages d)"
    "orch_unique d" "bus_unique (db_agent_messages d)" "bus_window (db_agent_messages d)"
  using assms by (simp_all add: db_inv_def)

section \<open>Operations\<close>

text \<open>One rule per operation of the store that writes; the side conditions are what the Rust
  types of the arguments guarantee (32-byte node ids, 16-byte token ids).\<close>

inductive store_step :: "crates \<Rightarrow> db \<Rightarrow> db \<Rightarrow> bool" for c where
  st_peer_add: "wf_nodeid n \<Longrightarrow> store_step c d (snd (peer_add now n name addr d))"
| st_peer_remove: "store_step c d (snd (peer_remove sel d))"
| st_peer_touch: "store_step c d (snd (peer_touch_seen now n d))"
| st_token_insert: "wf_token_row row \<Longrightarrow> store_step c d (snd (token_insert c row d))"
| st_token_revoke: "store_step c d (snd (token_revoke ident d))"
| st_outbox_enqueue: "wf_nodeid s \<Longrightarrow> wf_nodeid p \<Longrightarrow> store_step c d (snd (outbox_enqueue c now s p ch pl d))"
| st_mark_delivered: "store_step c d (snd (outbox_mark_delivered now s cid sq d))"
| st_inbox_record: "wf_nodeid s \<Longrightarrow> store_step c d (snd (inbox_record c now s ch sq pl ts d))"
| st_group_create: "store_step c d (snd (group_create now name d))"
| st_agent_register: "store_step c d (snd (agent_register arow d))"
| st_agent_set_status: "store_step c d (snd (agent_set_status now g name st pid d))"
| st_agent_touch: "store_step c d (snd (agent_touch now g name d))"
| st_reconcile: "store_step c d (snd (reconcile_stale_agents d))"
| st_session_create: "store_step c d (snd (session_create srow d))"
| st_session_close: "store_step c d (snd (session_close g name d))"
| st_bus_enqueue: "store_step c d (snd (agent_msg_enqueue now g s' f t k pl d))"
| st_mark_consumed: "store_step c d (snd (agent_msg_mark_consumed now g s' sq d))"

inductive store_reachable :: "crates \<Rightarrow> db \<Rightarrow> db \<Rightarrow> bool" for c where
  sr_refl: "store_reachable c d d"
| sr_step: "store_reachable c d d' \<Longrightarrow> store_step c d' d'' \<Longrightarrow> store_reachable c d d''"

lemmas store_intros = st_peer_add st_peer_remove st_peer_touch st_token_insert st_token_revoke
  st_outbox_enqueue st_mark_delivered st_inbox_record st_group_create st_agent_register
  st_agent_set_status st_agent_touch st_reconcile st_session_create st_session_close st_bus_enqueue
  st_mark_consumed

section \<open>Frames: the table each operation writes\<close>

lemma peer_ops_frame:
  "snd (peer_add now n name addr d) = d\<lparr>db_peers := db_peers (snd (peer_add now n name addr d))\<rparr>"
  "snd (peer_remove sel d) = d\<lparr>db_peers := db_peers (snd (peer_remove sel d))\<rparr>"
  "snd (peer_touch_seen now n d) = d\<lparr>db_peers := db_peers (snd (peer_touch_seen now n d))\<rparr>"
  by (simp_all add: peer_add_def peer_remove_def peer_touch_seen_def call_def split: prod.splits)

lemma token_ops_frame:
  "snd (token_insert c row d) = d\<lparr>db_tokens := db_tokens (snd (token_insert c row d))\<rparr>"
  "snd (token_revoke ident d) = d\<lparr>db_tokens := db_tokens (snd (token_revoke ident d))\<rparr>"
  by (simp_all add: token_insert_def token_revoke_def call_def Let_def split: prod.splits option.splits)

lemma message_ops_frame:
  "snd (outbox_enqueue c now s p ch pl d) = d\<lparr>db_messages := db_messages (snd (outbox_enqueue c now s p ch pl d))\<rparr>"
  "snd (outbox_mark_delivered now s cid sq d) = d\<lparr>db_messages := db_messages (snd (outbox_mark_delivered now s cid sq d))\<rparr>"
  "snd (inbox_record c now s ch sq pl ts d) = d\<lparr>db_messages := db_messages (snd (inbox_record c now s ch sq pl ts d))\<rparr>"
  by (simp_all add: outbox_enqueue_def outbox_mark_delivered_def inbox_record_def call_def Let_def
      split: prod.splits option.splits)

lemma orch_ops_frame:
  "snd (group_create now name d) = d\<lparr>db_groups := db_groups (snd (group_create now name d)), db_agents := db_agents (snd (group_create now name d)), db_sessions := db_sessions (snd (group_create now name d))\<rparr>"
  "snd (agent_register arow d) = d\<lparr>db_groups := db_groups (snd (agent_register arow d)), db_agents := db_agents (snd (agent_register arow d)), db_sessions := db_sessions (snd (agent_register arow d))\<rparr>"
  "snd (agent_set_status now g name st pid d) = d\<lparr>db_groups := db_groups (snd (agent_set_status now g name st pid d)), db_agents := db_agents (snd (agent_set_status now g name st pid d)), db_sessions := db_sessions (snd (agent_set_status now g name st pid d))\<rparr>"
  "snd (agent_touch now g name d) = d\<lparr>db_groups := db_groups (snd (agent_touch now g name d)), db_agents := db_agents (snd (agent_touch now g name d)), db_sessions := db_sessions (snd (agent_touch now g name d))\<rparr>"
  "snd (session_create srow d) = d\<lparr>db_groups := db_groups (snd (session_create srow d)), db_agents := db_agents (snd (session_create srow d)), db_sessions := db_sessions (snd (session_create srow d))\<rparr>"
  "snd (session_close g name d) = d\<lparr>db_groups := db_groups (snd (session_close g name d)), db_agents := db_agents (snd (session_close g name d)), db_sessions := db_sessions (snd (session_close g name d))\<rparr>"
  "snd (reconcile_stale_agents d) = d\<lparr>db_groups := db_groups (snd (reconcile_stale_agents d)), db_agents := db_agents (snd (reconcile_stale_agents d)), db_sessions := db_sessions (snd (reconcile_stale_agents d))\<rparr>"
  by (simp_all add: orch_defs call_def Let_def split: prod.splits)

lemma bus_ops_frame:
  "snd (agent_msg_enqueue now g s f t k pl d) = d\<lparr>db_agent_messages := db_agent_messages (snd (agent_msg_enqueue now g s f t k pl d))\<rparr>"
  "snd (agent_msg_mark_consumed now g s sq d) = d\<lparr>db_agent_messages := db_agent_messages (snd (agent_msg_mark_consumed now g s sq d))\<rparr>"
  by (simp_all add: agent_msg_enqueue_def agent_msg_mark_consumed_def call_def Let_def split: option.splits)

text \<open>What an operation does not write stays.\<close>

lemma peer_ops_keep [simp]:
  "db_ok (snd (peer_add now n name addr d)) = db_ok d"
  "db_ok (snd (peer_remove sel d)) = db_ok d"
  "db_ok (snd (peer_touch_seen now n d)) = db_ok d"
  "db_tokens (snd (peer_add now n name addr d)) = db_tokens d"
  "db_tokens (snd (peer_remove sel d)) = db_tokens d"
  "db_tokens (snd (peer_touch_seen now n d)) = db_tokens d"
  "db_messages (snd (peer_add now n name addr d)) = db_messages d"
  "db_messages (snd (peer_remove sel d)) = db_messages d"
  "db_messages (snd (peer_touch_seen now n d)) = db_messages d"
  "db_agents (snd (peer_add now n name addr d)) = db_agents d"
  "db_agents (snd (peer_remove sel d)) = db_agents d"
  "db_agents (snd (peer_touch_seen now n d)) = db_agents d"
  "db_sessions (snd (peer_add now n name addr d)) = db_sessions d"
  "db_sessions (snd (peer_remove sel d)) = db_sessions d"
  "db_sessions (snd (peer_touch_seen now n d)) = db_sessions d"
  "db_agent_messages (snd (peer_add now n name addr d)) = db_agent_messages d"
  "db_agent_messages (snd (peer_remove sel d)) = db_agent_messages d"
  "db_agent_messages (snd (peer_touch_seen now n d)) = db_agent_messages d"
  by (subst peer_ops_frame, simp add: db_ok_def)+

lemma token_ops_keep [simp]:
  "db_ok (snd (token_insert c row d)) = db_ok d"
  "db_ok (snd (token_revoke ident d)) = db_ok d"
  "db_peers (snd (token_insert c row d)) = db_peers d"
  "db_peers (snd (token_revoke ident d)) = db_peers d"
  "db_messages (snd (token_insert c row d)) = db_messages d"
  "db_messages (snd (token_revoke ident d)) = db_messages d"
  "db_agents (snd (token_insert c row d)) = db_agents d"
  "db_agents (snd (token_revoke ident d)) = db_agents d"
  "db_sessions (snd (token_insert c row d)) = db_sessions d"
  "db_sessions (snd (token_revoke ident d)) = db_sessions d"
  "db_agent_messages (snd (token_insert c row d)) = db_agent_messages d"
  "db_agent_messages (snd (token_revoke ident d)) = db_agent_messages d"
  by (subst token_ops_frame, simp add: db_ok_def)+

lemma message_ops_keep [simp]:
  "db_ok (snd (outbox_enqueue c now s p ch pl d)) = db_ok d"
  "db_ok (snd (outbox_mark_delivered now s cid sq d)) = db_ok d"
  "db_ok (snd (inbox_record c now s ch sq pl ts d)) = db_ok d"
  "db_peers (snd (outbox_enqueue c now s p ch pl d)) = db_peers d"
  "db_peers (snd (outbox_mark_delivered now s cid sq d)) = db_peers d"
  "db_peers (snd (inbox_record c now s ch sq pl ts d)) = db_peers d"
  "db_tokens (snd (outbox_enqueue c now s p ch pl d)) = db_tokens d"
  "db_tokens (snd (outbox_mark_delivered now s cid sq d)) = db_tokens d"
  "db_tokens (snd (inbox_record c now s ch sq pl ts d)) = db_tokens d"
  "db_agents (snd (outbox_enqueue c now s p ch pl d)) = db_agents d"
  "db_agents (snd (outbox_mark_delivered now s cid sq d)) = db_agents d"
  "db_agents (snd (inbox_record c now s ch sq pl ts d)) = db_agents d"
  "db_sessions (snd (outbox_enqueue c now s p ch pl d)) = db_sessions d"
  "db_sessions (snd (outbox_mark_delivered now s cid sq d)) = db_sessions d"
  "db_sessions (snd (inbox_record c now s ch sq pl ts d)) = db_sessions d"
  "db_agent_messages (snd (outbox_enqueue c now s p ch pl d)) = db_agent_messages d"
  "db_agent_messages (snd (outbox_mark_delivered now s cid sq d)) = db_agent_messages d"
  "db_agent_messages (snd (inbox_record c now s ch sq pl ts d)) = db_agent_messages d"
  by (subst message_ops_frame, simp add: db_ok_def)+

lemma orch_ops_keep [simp]:
  "db_ok (snd (group_create now name d)) = db_ok d"
  "db_ok (snd (agent_register arow d)) = db_ok d"
  "db_ok (snd (agent_set_status now g name st pid d)) = db_ok d"
  "db_ok (snd (agent_touch now g name d)) = db_ok d"
  "db_ok (snd (session_create srow d)) = db_ok d"
  "db_ok (snd (session_close g name d)) = db_ok d"
  "db_ok (snd (reconcile_stale_agents d)) = db_ok d"
  "db_peers (snd (group_create now name d)) = db_peers d"
  "db_peers (snd (agent_register arow d)) = db_peers d"
  "db_peers (snd (agent_set_status now g name st pid d)) = db_peers d"
  "db_peers (snd (agent_touch now g name d)) = db_peers d"
  "db_peers (snd (session_create srow d)) = db_peers d"
  "db_peers (snd (session_close g name d)) = db_peers d"
  "db_peers (snd (reconcile_stale_agents d)) = db_peers d"
  "db_tokens (snd (group_create now name d)) = db_tokens d"
  "db_tokens (snd (agent_register arow d)) = db_tokens d"
  "db_tokens (snd (agent_set_status now g name st pid d)) = db_tokens d"
  "db_tokens (snd (agent_touch now g name d)) = db_tokens d"
  "db_tokens (snd (session_create srow d)) = db_tokens d"
  "db_tokens (snd (session_close g name d)) = db_tokens d"
  "db_tokens (snd (reconcile_stale_agents d)) = db_tokens d"
  "db_messages (snd (group_create now name d)) = db_messages d"
  "db_messages (snd (agent_register arow d)) = db_messages d"
  "db_messages (snd (agent_set_status now g name st pid d)) = db_messages d"
  "db_messages (snd (agent_touch now g name d)) = db_messages d"
  "db_messages (snd (session_create srow d)) = db_messages d"
  "db_messages (snd (session_close g name d)) = db_messages d"
  "db_messages (snd (reconcile_stale_agents d)) = db_messages d"
  "db_agent_messages (snd (group_create now name d)) = db_agent_messages d"
  "db_agent_messages (snd (agent_register arow d)) = db_agent_messages d"
  "db_agent_messages (snd (agent_set_status now g name st pid d)) = db_agent_messages d"
  "db_agent_messages (snd (agent_touch now g name d)) = db_agent_messages d"
  "db_agent_messages (snd (session_create srow d)) = db_agent_messages d"
  "db_agent_messages (snd (session_close g name d)) = db_agent_messages d"
  "db_agent_messages (snd (reconcile_stale_agents d)) = db_agent_messages d"
  by (subst orch_ops_frame, simp add: db_ok_def)+

lemma bus_ops_keep [simp]:
  "db_ok (snd (agent_msg_enqueue now g s f t k pl d)) = db_ok d"
  "db_ok (snd (agent_msg_mark_consumed now g s sq d)) = db_ok d"
  "db_peers (snd (agent_msg_enqueue now g s f t k pl d)) = db_peers d"
  "db_peers (snd (agent_msg_mark_consumed now g s sq d)) = db_peers d"
  "db_tokens (snd (agent_msg_enqueue now g s f t k pl d)) = db_tokens d"
  "db_tokens (snd (agent_msg_mark_consumed now g s sq d)) = db_tokens d"
  "db_messages (snd (agent_msg_enqueue now g s f t k pl d)) = db_messages d"
  "db_messages (snd (agent_msg_mark_consumed now g s sq d)) = db_messages d"
  "db_agents (snd (agent_msg_enqueue now g s f t k pl d)) = db_agents d"
  "db_agents (snd (agent_msg_mark_consumed now g s sq d)) = db_agents d"
  "db_sessions (snd (agent_msg_enqueue now g s f t k pl d)) = db_sessions d"
  "db_sessions (snd (agent_msg_mark_consumed now g s sq d)) = db_sessions d"
  by (subst bus_ops_frame, simp add: db_ok_def)+

section \<open>Preservation\<close>

text \<open>Writing one table keeps the invariant when that table's own part of it is kept.\<close>

lemma db_inv_peers:
  assumes "db_inv d" "d' = d\<lparr>db_peers := db_peers d'\<rparr>" "peers_unique (db_peers d')"
    "list_all peer_rec_ok (db_peers d')"
  shows "db_inv d'"
proof -
  have "db_alive d' = db_alive d" "db_tables d' = db_tables d" "db_tokens d' = db_tokens d" "db_messages d' = db_messages d" "db_groups d' = db_groups d" "db_agents d' = db_agents d" "db_sessions d' = db_sessions d" "db_agent_messages d' = db_agent_messages d"
    by (subst assms(2), simp)+
  with assms show ?thesis by (simp add: db_inv_def db_ok_def orch_unique_def)
qed

lemma db_inv_tokens:
  assumes "db_inv d" "d' = d\<lparr>db_tokens := db_tokens d'\<rparr>" "tokens_unique (db_tokens d')"
    "list_all token_rec_ok (db_tokens d')"
  shows "db_inv d'"
proof -
  have "db_alive d' = db_alive d" "db_tables d' = db_tables d" "db_peers d' = db_peers d" "db_messages d' = db_messages d" "db_groups d' = db_groups d" "db_agents d' = db_agents d" "db_sessions d' = db_sessions d" "db_agent_messages d' = db_agent_messages d"
    by (subst assms(2), simp)+
  with assms show ?thesis by (simp add: db_inv_def db_ok_def orch_unique_def)
qed

lemma db_inv_messages:
  assumes "db_inv d" "d' = d\<lparr>db_messages := db_messages d'\<rparr>" "messages_unique (db_messages d')"
    "list_all msg_rec_ok (db_messages d')"
  shows "db_inv d'"
proof -
  have "db_alive d' = db_alive d" "db_tables d' = db_tables d" "db_peers d' = db_peers d" "db_tokens d' = db_tokens d" "db_groups d' = db_groups d" "db_agents d' = db_agents d" "db_sessions d' = db_sessions d" "db_agent_messages d' = db_agent_messages d"
    by (subst assms(2), simp)+
  with assms show ?thesis by (simp add: db_inv_def db_ok_def orch_unique_def)
qed

lemma db_inv_orch:
  assumes "db_inv d" "d' = d\<lparr>db_groups := db_groups d', db_agents := db_agents d', db_sessions := db_sessions d'\<rparr>" "orch_unique d'"
  shows "db_inv d'"
proof -
  have "db_alive d' = db_alive d" "db_tables d' = db_tables d" "db_peers d' = db_peers d" "db_tokens d' = db_tokens d" "db_messages d' = db_messages d" "db_agent_messages d' = db_agent_messages d"
    by (subst assms(2), simp)+
  with assms show ?thesis by (simp add: db_inv_def db_ok_def)
qed

lemma db_inv_bus:
  assumes "db_inv d" "d' = d\<lparr>db_agent_messages := db_agent_messages d'\<rparr>" "bus_unique (db_agent_messages d')"
    "bus_window (db_agent_messages d')"
  shows "db_inv d'"
proof -
  have "db_alive d' = db_alive d" "db_tables d' = db_tables d" "db_peers d' = db_peers d" "db_tokens d' = db_tokens d" "db_messages d' = db_messages d" "db_groups d' = db_groups d" "db_agents d' = db_agents d" "db_sessions d' = db_sessions d"
    by (subst assms(2), simp)+
  with assms show ?thesis by (simp add: db_inv_def db_ok_def orch_unique_def)
qed

lemma store_step_inv:
  assumes "store_step c d d'" and "blake3_laws c" and inv: "db_inv d"
  shows "db_inv d'"
  using assms(1)
proof cases
  case st_peer_add
  with inv show ?thesis
    by (auto intro: db_inv_peers peer_ops_frame peer_add_unique peer_add_rows dest: db_invD)
next
  case st_peer_remove
  with inv show ?thesis by (auto intro: db_inv_peers peer_ops_frame peer_remove_unique peer_remove_rows dest: db_invD)
next
  case st_peer_touch
  with inv show ?thesis by (auto intro: db_inv_peers peer_ops_frame peer_touch_unique peer_touch_rows dest: db_invD)
next
  case st_token_insert
  with inv show ?thesis by (auto intro: db_inv_tokens token_ops_frame token_insert_unique token_insert_rows dest: db_invD)
next
  case st_token_revoke
  with inv show ?thesis by (auto intro: db_inv_tokens token_ops_frame token_revoke_unique token_revoke_rows dest: db_invD)
next
  case st_outbox_enqueue
  with inv assms(2) show ?thesis
    by (auto intro: db_inv_messages message_ops_frame outbox_enqueue_unique outbox_enqueue_rows dest: db_invD)
next
  case st_mark_delivered
  with inv show ?thesis
    by (auto intro: db_inv_messages message_ops_frame mark_delivered_unique mark_delivered_rows dest: db_invD)
next
  case st_inbox_record
  with inv assms(2) show ?thesis
    by (auto intro: db_inv_messages message_ops_frame inbox_record_unique inbox_record_rows dest: db_invD)
next
  case st_bus_enqueue
  with inv show ?thesis
    by (auto intro: db_inv_bus bus_ops_frame agent_msg_enqueue_unique agent_msg_enqueue_bus_window dest: db_invD)
next
  case st_mark_consumed
  with inv show ?thesis
    by (auto intro: db_inv_bus bus_ops_frame mark_consumed_unique mark_consumed_window dest: db_invD)
qed (use inv in \<open>auto intro: db_inv_orch orch_ops_frame group_create_unique agent_register_unique agent_set_status_unique
    agent_touch_unique reconcile_unique session_create_unique session_close_unique dest: db_invD\<close>)

lemma store_reachable_inv:
  assumes "store_reachable c d d'" and "blake3_laws c" and "db_inv d"
  shows "db_inv d'"
  using assms by (induction rule: store_reachable.induct) (auto intro: store_step_inv)

text \<open>What a new database file holds once opened.\<close>

lemma open_at_inv:
  assumes "schema_at n d" and "db_inv (d\<lparr>db_alive := True, db_tables := all_tables\<rparr>)"
  shows "db_inv (open_at d)"
proof -
  have "db_ok (open_at d)" using run_migrations_schema(1) [OF assms(1)] by (simp add: db_ok_def open_at_def)
  with assms(2) show ?thesis by (simp add: db_inv_def open_at_def orch_unique_def)
qed

lemma db_inv_empty: "db_inv (empty_file\<lparr>db_alive := True, db_tables := all_tables\<rparr>)"
  using bus_window_empty
  by (simp add: db_inv_def db_ok_def empty_file_def peers_unique_def tokens_unique_def messages_unique_def
      orch_unique_def bus_unique_def unique_rows_def)

lemma open_empty_inv: "db_inv (open_at empty_file)"
  using open_at_inv [OF schema_at_empty db_inv_empty] .

lemma sample_db_inv [simp]: "db_inv sample_db"
  using db_inv_empty by (simp add: sample_db_def)

section \<open>Message keys persist\<close>

text \<open>No operation deletes or renumbers a row of the message log.\<close>

definition msg_key :: "msg_rec \<Rightarrow> (bytes \<times> bytes) \<times> int" where
  "msg_key r = (msg_scope r, m_seq r)"

lemma msg_conflict_key: "msg_conflict a b \<longleftrightarrow> msg_key a = msg_key b"
  by (auto simp: msg_conflict_def msg_key_def)

lemma mark_delivered_keys:
  "map msg_key (db_messages (snd (outbox_mark_delivered now s cid sq d))) = map msg_key (db_messages d)"
  by (simp add: outbox_mark_delivered_def call_def sql_update_def msg_key_def msg_scope_def)

lemma message_writes_keys:
  "msg_key ` set (db_messages d) \<subseteq> msg_key ` set (db_messages (snd (outbox_enqueue c now s p ch pl d)))"
  "msg_key ` set (db_messages d) \<subseteq> msg_key ` set (db_messages (snd (inbox_record c now s ch sq pl ts d)))"
  by (auto simp: outbox_enqueue_def inbox_record_def call_def Let_def sql_insert_or_ignore_def split: option.splits)

lemma store_step_keys:
  assumes "store_step c d d'"
  shows "msg_key ` set (db_messages d) \<subseteq> msg_key ` set (db_messages d')"
  using assms
proof cases
  case (st_mark_delivered now s cid sq)
  then show ?thesis using mark_delivered_keys [of now s cid sq d] by (metis list.set_map order_refl)
next
  case st_outbox_enqueue
  then show ?thesis by (simp add: message_writes_keys)
next
  case st_inbox_record
  then show ?thesis by (simp add: message_writes_keys)
qed simp_all

lemma store_reachable_keys:
  "store_reachable c d d' \<Longrightarrow> msg_key ` set (db_messages d) \<subseteq> msg_key ` set (db_messages d')"
  by (induction rule: store_reachable.induct) (blast dest: store_step_keys)+

section \<open>Properties\<close>

text \<open>
  C1 Whatever the daemon's tasks do to the store, in any interleaving of its operations, the
  database opened from a supported file keeps its invariant: primary keys and unique names hold in
  every table, every stored row can be read back, and each bus log is a contiguous window of
  numbers no longer than the retention cap.
\<close>

theorem store_invariant:
  assumes "blake3_laws c" and "schema_at n file"
    and "db_inv (file\<lparr>db_alive := True, db_tables := all_tables\<rparr>)"
    and "store_reachable c (open_at file) d"
  shows "db_inv d"
  using store_reachable_inv [OF assms(4,1) open_at_inv [OF assms(2,3)]] .

lemma store_invariant_witness:
  "db_inv (snd (group_create 2 ''team'' (snd (peer_add 1 (sample_node 1) ''alice'' None (open_at empty_file)))))"
  by (rule store_invariant [OF sample_blake3 schema_at_empty db_inv_empty])
    (rule sr_step [OF sr_step [OF sr_refl st_peer_add [OF wf_sample_node]] st_group_create])

text \<open>
  C11 An incoming message is recorded at most once, ever.  \<open>inbox_record\<close> answers \<open>true\<close> exactly when
  no row has the sender, channel and number yet; after it has answered, in every later state of
  the store, the same sender, channel and number are answered \<open>false\<close> and change nothing.
\<close>

theorem inbox_at_most_once:
  assumes "blake3_laws c" and "db_inv d" and "wf_nodeid s"
    and rec: "inbox_record c now s ch sq pl ts d = (Inr fresh, d')" and later: "store_reachable c d' d''"
  shows "(fresh \<longleftrightarrow> (\<forall>r\<in>set (db_messages d). \<not> (msg_scope r = (nid s, channel_id c ch) \<and> m_seq r = as_i64 sq)))
    \<and> inbox_record c now2 s ch sq pl2 ts2 d'' = (Inr False, d'')"
proof -
  let ?r = "inbox_rec c now s ch sq pl ts" and ?r2 = "inbox_rec c now2 s ch sq pl2 ts2"
  have key: "msg_key ?r2 = msg_key ?r" "msg_key ?r = ((nid s, channel_id c ch), as_i64 sq)"
    by (simp_all add: msg_key_def msg_scope_def inbox_rec_def)
  have d': "d' = snd (inbox_record c now s ch sq pl ts d)" using rec by simp
  have "db_inv d'" unfolding d' by (rule store_step_inv [OF st_inbox_record [OF assms(3)] assms(1,2)])
  then have inv: "db_inv d''" using store_reachable_inv [OF later assms(1)] by simp
  have "msg_key ?r \<in> msg_key ` set (db_messages d')"
    using db_invD(1) [OF assms(2)]
    by (auto simp: d' inbox_record_def call_ok sql_insert_or_ignore_def list_ex_iff msg_conflict_key)
  with store_reachable_keys [OF later] have "msg_key ?r2 \<in> msg_key ` set (db_messages d'')" by (auto simp: key)
  then have "list_ex (msg_conflict ?r2) (db_messages d'')" by (auto simp: list_ex_iff msg_conflict_key)
  then have "inbox_record c now2 s ch sq pl2 ts2 d'' = (Inr False, d'')"
    using db_invD(1) [OF inv] by (simp add: inbox_record_def call_ok sql_insert_or_ignore_def)
  moreover have "fresh \<longleftrightarrow> (\<forall>r\<in>set (db_messages d). msg_key ?r \<noteq> msg_key r)"
    using rec db_invD(1) [OF assms(2)]
    by (auto simp: inbox_record_def call_ok sql_insert_or_ignore_def list_ex_iff msg_conflict_key split: if_splits)
  ultimately show ?thesis unfolding key(2) by (auto simp: msg_key_def)
qed

lemma inbox_at_most_once_witness:
  "\<exists>d'. inbox_record sample_crates 4 (sample_node 1) ''a'' 1 [9] 3 sample_db = (Inr True, d')
     \<and> inbox_record sample_crates 6 (sample_node 1) ''a'' 1 [8] 5 d' = (Inr False, d')"
proof -
  let ?i = "inbox_record sample_crates 4 (sample_node 1) ''a'' 1 [9] 3 sample_db"
  have i: "?i = (Inr True, snd ?i)"
    by (simp add: inbox_record_def call_ok sql_insert_or_ignore_def)
  with inbox_at_most_once [OF sample_blake3 sample_db_inv wf_sample_node i sr_refl, of 6 "[8]" 5] show ?thesis by blast
qed

end
