(* ===== verification/Wt_Auth.thy ===== *)
theory Wt_Auth
  imports Wt_Store
begin

text \<open>
  \<^verbatim>\<open>src/crates/wt-core/src/auth.rs\<close> and the identity of \<^verbatim>\<open>identity.rs\<close>: signing, encoding and
  verifying capability tokens, the bearer tokens of local agents, and the guard on incoming
  peers.  The clock (\<open>now\<close>, in seconds) and the random bytes are arguments.  \<open>claims.exp\<close> and the
  clock are compared as \<open>i64\<close>, with the wrap-around of the cast written out.
\<close>

section \<open>Signing and encoding\<close>

definition CLOCK_SKEW_SECS :: int where
  "CLOCK_SKEW_SECS = 300"

text \<open>\<open>Identity::nodeid\<close>: the public key of the install's secret key.\<close>

definition identity_nodeid :: "crates \<Rightarrow> bytes \<Rightarrow> NodeId" where
  "identity_nodeid c secret = NodeId (ed_public c secret)"

datatype EncodeError = EncodeClaims | EncodeSigned

definition sign_token ::
  "crates \<Rightarrow> u64 \<Rightarrow> bytes \<Rightarrow> bytes \<Rightarrow> NodeId \<Rightarrow> Cap list \<Rightarrow> u64 option \<Rightarrow> EncodeError + CapabilityToken \<times> SignedToken" where
  "sign_token c now rnd issuer subject cs ttl_secs =
     (let iss_id = identity_nodeid c issuer;
          expiry = (case ttl_secs of Some ttl \<Rightarrow> saturating_add now ttl | None \<Rightarrow> 4102444800);
          claims = \<lparr>iss = iss_id, sub = subject, exp = expiry, caps = cs, tid = rnd\<rparr>
      in case claims_enc c claims of
           None \<Rightarrow> Inl EncodeClaims
         | Some cb \<Rightarrow> Inr (claims, \<lparr>claims_cbor = cb, sig = ed_sign c issuer cb\<rparr>))"

definition token_encode_base32 :: "crates \<Rightarrow> SignedToken \<Rightarrow> EncodeError + string" where
  "token_encode_base32 c t =
     (case signed_enc c t of None \<Rightarrow> Inl EncodeSigned | Some buf \<Rightarrow> Inr (base32_encode c buf))"

datatype TokenDecodeError = TokenNotBase32 | TokenNotCbor

definition token_decode_base32 :: "crates \<Rightarrow> string \<Rightarrow> TokenDecodeError + SignedToken" where
  "token_decode_base32 c s =
     (case base32_decode c (bytes_of (trim s)) of
        None \<Rightarrow> Inl TokenNotBase32
      | Some bs \<Rightarrow> (case signed_dec c bs of None \<Rightarrow> Inl TokenNotCbor | Some t \<Rightarrow> Inr t))"

definition new_agent_token :: "crates \<Rightarrow> bytes \<Rightarrow> string" where
  "new_agent_token c secret = base32_encode c secret"

definition agent_token_hash :: "crates \<Rightarrow> string \<Rightarrow> bytes" where
  "agent_token_hash c token = blake3 c (bytes_of (trim token))"

section \<open>Verification\<close>

datatype AuthError =
    AuBadSignature
  | AuBadClaims
  | AuExpired u64 u64
  | AuSubjectMismatch
  | AuRevoked
  | AuMissingCap Cap
  | AuNotForUs
  | AuPeerNotKnown NodeId

definition verify_signed_claims :: "crates \<Rightarrow> SignedToken \<Rightarrow> AuthError + CapabilityToken" where
  "verify_signed_claims c stok =
     (case claims_dec c (claims_cbor stok) of
        None \<Rightarrow> Inl AuBadClaims
      | Some claims \<Rightarrow>
          if \<not> ed_valid_key c (nid (iss claims)) then Inl AuBadSignature
          else if length (sig stok) \<noteq> 64 then Inl AuBadSignature
          else if \<not> ed_verify c (nid (iss claims)) (claims_cbor stok) (sig stok) then Inl AuBadSignature
          else Inr claims)"

text \<open>A revocation lookup that fails, or finds no row, lets the token pass.\<close>

definition validate_claims ::
  "crates \<Rightarrow> u64 \<Rightarrow> CapabilityToken \<Rightarrow> Cap \<Rightarrow> db \<Rightarrow> AuthError + unit" where
  "validate_claims c now claims required_cap d =
     (if as_i64 (as_u64 (as_i64 now - CLOCK_SKEW_SECS)) > as_i64 (exp claims)
      then Inl (AuExpired (exp claims) now)
      else if (case fst (token_find c (tid claims) d) of Inr (Some row) \<Rightarrow> tr_revoked row | _ \<Rightarrow> False)
      then Inl AuRevoked
      else if \<not> list_ex (\<lambda>k. k = required_cap) (caps claims) then Inl (AuMissingCap required_cap)
      else Inr ())"

definition verify_token ::
  "crates \<Rightarrow> u64 \<Rightarrow> SignedToken \<Rightarrow> NodeId \<Rightarrow> NodeId \<Rightarrow> Cap \<Rightarrow> db \<Rightarrow> AuthError + CapabilityToken" where
  "verify_token c now stok local_nodeid initiator required_cap d =
     (case verify_signed_claims c stok of
        Inl e \<Rightarrow> Inl e
      | Inr claims \<Rightarrow>
          if iss claims \<noteq> local_nodeid then Inl AuNotForUs
          else if sub claims \<noteq> initiator then Inl AuSubjectMismatch
          else (case validate_claims c now claims required_cap d of
                  Inl e \<Rightarrow> Inl e
                | Inr _ \<Rightarrow> Inr claims))"

definition token_row :: "crates \<Rightarrow> CapabilityToken \<Rightarrow> SignedToken \<Rightarrow> EncodeError + TokenRow" where
  "token_row c claims stok =
     (case signed_enc c stok of
        None \<Rightarrow> Inl EncodeSigned
      | Some raw \<Rightarrow> Inr \<lparr>tr_id = tid claims, tr_iss = iss claims, tr_sub = sub claims, tr_exp = exp claims,
                         tr_caps = caps claims, tr_raw = raw, tr_revoked = False\<rparr>)"

definition decode_claims :: "crates \<Rightarrow> SignedToken \<Rightarrow> CapabilityToken option" where
  "decode_claims c stok = claims_dec c (claims_cbor stok)"

definition require_peer_known :: "NodeId \<Rightarrow> db \<Rightarrow> AuthError + unit" where
  "require_peer_known nodeid d =
     (case fst (peer_get (PsNodeId nodeid) d) of
        Inr (Some _) \<Rightarrow> Inr ()
      | _ \<Rightarrow> Inl (AuPeerNotKnown nodeid))"

section \<open>Lemmas: signed tokens\<close>

definition wf_secret :: "crates \<Rightarrow> bytes \<Rightarrow> bool" where
  "wf_secret c sk \<longleftrightarrow> wf_nodeid (identity_nodeid c sk)"

lemma wf_secret_laws: "ed25519_laws c \<Longrightarrow> wf_secret c sk"
  by (simp add: wf_secret_def identity_nodeid_def wf_nodeid_def ed25519_laws_def)

lemma sign_token_claims:
  assumes "sign_token c now rnd sk s cs ttl = Inr (claims, stok)"
  shows "iss claims = identity_nodeid c sk" "sub claims = s" "caps claims = cs" "tid claims = rnd"
    "exp claims = (case ttl of Some t \<Rightarrow> saturating_add now t | None \<Rightarrow> 4102444800)"
    "claims_enc c claims = Some (claims_cbor stok)" "sig stok = ed_sign c sk (claims_cbor stok)"
  using assms by (auto simp: sign_token_def Let_def split: option.splits)

text \<open>Every token \<open>sign_token\<close> makes passes the signature check and decodes to its claims.\<close>

lemma verify_signed_sign:
  assumes laws: "cbor_laws c" "ed25519_laws c" and wf: "wf_nodeid s" "length rnd = 16"
    and s: "sign_token c now rnd sk s cs ttl = Inr (claims, stok)"
  shows "verify_signed_claims c stok = Inr claims"
proof -
  note f = sign_token_claims [OF s]
  have "wf_claims claims" using f wf wf_secret_laws [OF laws(2), of sk] by (simp add: wf_claims_def wf_secret_def)
  with cbor_claims [OF laws(1) f(6)] have "claims_dec c (claims_cbor stok) = Some claims" by simp
  with laws(2) f show ?thesis
    by (simp add: verify_signed_claims_def ed25519_laws_def identity_nodeid_def)
qed

lemma verify_signed_claims_Inr:
  "verify_signed_claims c stok = Inr claims \<longleftrightarrow>
     claims_dec c (claims_cbor stok) = Some claims \<and> ed_valid_key c (nid (iss claims))
     \<and> length (sig stok) = 64 \<and> ed_verify c (nid (iss claims)) (claims_cbor stok) (sig stok)"
  by (auto simp: verify_signed_claims_def split: option.splits if_splits)

section \<open>Lemmas: expiry and revocation\<close>

text \<open>The test \<open>validate_claims\<close> makes, on clocks and expiries below \<open>2 ^ 63\<close>.\<close>

lemma skewed_clock:
  assumes "uint now < 2 ^ 63"
  shows "as_i64 (as_u64 (as_i64 now - CLOCK_SKEW_SECS)) = uint now - 300"
proof -
  have "as_i64 now = uint now" using assms by (rule as_i64_small)
  moreover have "as_i64 (as_u64 (uint now - 300)) = uint now - 300"
    using assms uint_ge_0 [of now] by (intro as_i64_as_u64) (simp_all add: max_i64_def)
  ultimately show ?thesis by (simp add: CLOCK_SKEW_SECS_def)
qed

definition revoked_in :: "crates \<Rightarrow> TokenId \<Rightarrow> db \<Rightarrow> bool" where
  "revoked_in c i d \<longleftrightarrow> (\<exists>row. fst (token_find c i d) = Inr (Some row) \<and> tr_revoked row)"

lemma revoked_in_case:
  "(case fst (token_find c i d) of Inr (Some row) \<Rightarrow> tr_revoked row | _ \<Rightarrow> False) \<longleftrightarrow> revoked_in c i d"
  by (auto simp: revoked_in_def split: sum.splits option.splits)

lemma token_find_ok:
  assumes "db_ok d" "list_all token_rec_ok (db_tokens d)"
  shows "token_find c i d = (Inr (case sql_query_row (\<lambda>r. t_id r = i) (db_tokens d) of
           None \<Rightarrow> None
         | Some r \<Rightarrow> Some \<lparr>tr_id = t_id r, tr_iss = NodeId (t_iss r), tr_sub = NodeId (t_sub r),
             tr_exp = as_u64 (t_exp r), tr_caps = (case caps_from_json c (t_caps r) of None \<Rightarrow> [] | Some cs \<Rightarrow> cs),
             tr_raw = t_raw r, tr_revoked = (t_revoked r \<noteq> 0)\<rparr>), d)"
proof (cases "sql_query_row (\<lambda>r. t_id r = i) (db_tokens d)")
  case None
  with assms show ?thesis by (simp add: token_find_def call_ok)
next
  case (Some r)
  with assms(2) have "token_rec_ok r" using sql_query_row_Some by (fastforce simp: list_all_iff)
  with Some assms show ?thesis by (simp add: token_find_def call_ok row_to_token_ok)
qed

text \<open>On a database that keeps its invariant a token counts as revoked when a row says so.\<close>

lemma revoked_in_rows:
  assumes "db_inv d"
  shows "revoked_in c i d \<longleftrightarrow> (\<exists>r\<in>set (db_tokens d). t_id r = i \<and> t_revoked r \<noteq> 0)"
proof -
  note inv = db_invD [OF assms]
  have one: "a = b" if "a \<in> set (db_tokens d)" "b \<in> set (db_tokens d)" "t_id a = t_id b" for a b
    using tokens_t.unique_same [OF inv(4) [unfolded tokens_unique_def] that(1,2)] that(3)
    by (simp add: token_conflict_def)
  show ?thesis
  proof (cases "sql_query_row (\<lambda>r. t_id r = i) (db_tokens d)")
    case None
    then have "\<forall>r\<in>set (db_tokens d). t_id r \<noteq> i" by (simp add: sql_query_row_None)
    with None show ?thesis by (simp add: revoked_in_def token_find_ok [OF inv(1,5)])
  next
    case (Some r)
    with sql_query_row_Some [OF Some] one show ?thesis
      by (auto simp: revoked_in_def token_find_ok [OF inv(1,5)])
  qed
qed

lemma revoke_marks:
  "\<forall>r\<in>set (snd (sql_update (\<lambda>r. t_id r = i) (\<lambda>r. r\<lparr>t_revoked := 1\<rparr>) rows)). t_id r = i \<longrightarrow> t_revoked r = 1"
  by (rule ballI, unfold set_snd_sql_update, erule imageE, hypsubst) simp

lemma token_revoke_marks:
  assumes "db_inv d" and "token_revoke i d = (Inr n, d')" and "0 < n"
  shows "revoked_in c i d'"
proof -
  have inv': "db_inv d'"
  proof -
    have "d' = snd (token_revoke i d)" using assms(2) by simp
    then show ?thesis
      using assms(1) token_ops_frame(2) [of i d] token_revoke_unique [OF db_invD(4) [OF assms(1)]]
        token_revoke_rows [OF db_invD(5) [OF assms(1)]]
      by (auto intro: db_inv_tokens)
  qed
  from assms(2,3) db_invD(1) [OF assms(1)] have
    "0 < length (filter (\<lambda>r. t_id r = i) (db_tokens d))"
    and d': "d' = d\<lparr>db_tokens := map (\<lambda>r. if t_id r = i then r\<lparr>t_revoked := 1\<rparr> else r) (db_tokens d)\<rparr>"
    by (auto simp: token_revoke_def call_ok sql_update_def)
  then obtain r where r: "r \<in> set (db_tokens d)" "t_id r = i" by (auto simp: filter_empty_conv)
  then have "r\<lparr>t_revoked := 1\<rparr> \<in> set (db_tokens d')" by (force simp: d')
  moreover have "t_id (r\<lparr>t_revoked := 1\<rparr>) = i" "t_revoked (r\<lparr>t_revoked := 1\<rparr>) \<noteq> 0" using r by simp_all
  ultimately show ?thesis unfolding revoked_in_rows [OF inv'] by blast
qed

text \<open>The value of \<open>validate_claims\<close>, with its tests named.\<close>

lemma validate_claims_small:
  assumes "uint now < 2 ^ 63" "uint (exp claims) < 2 ^ 63"
  shows "validate_claims c now claims k d =
     (if uint now - 300 > uint (exp claims) then Inl (AuExpired (exp claims) now)
      else if revoked_in c (tid claims) d then Inl AuRevoked
      else if k \<notin> set (caps claims) then Inl (AuMissingCap k) else Inr ())"
  by (simp add: validate_claims_def skewed_clock [OF assms(1)] as_i64_small [OF assms(2)] revoked_in_case list_ex_iff)

section \<open>Properties\<close>

text \<open>
  C6 What an incoming stream's token must be.  \<open>verify_token\<close> accepts exactly the tokens whose
  claims decode and are signed under the public key of this install, that name the connecting peer
  as subject, are not past their expiry plus five minutes, carry the capability and whose id no row
  of the token table marks revoked.
\<close>

theorem verify_token_accepts:
  assumes "db_inv d" and "uint now < 2 ^ 63"
  shows "verify_token c now stok us peer k d = Inr claims \<longleftrightarrow>
     claims_dec c (claims_cbor stok) = Some claims \<and> iss claims = us \<and> sub claims = peer
     \<and> ed_valid_key c (nid us) \<and> length (sig stok) = 64 \<and> ed_verify c (nid us) (claims_cbor stok) (sig stok)
     \<and> uint now \<le> as_i64 (exp claims) + 300 \<and> k \<in> set (caps claims)
     \<and> (\<forall>r\<in>set (db_tokens d). t_id r = tid claims \<longrightarrow> t_revoked r = 0)"
proof -
  have "validate_claims c now claims k d = Inr () \<longleftrightarrow>
      uint now \<le> as_i64 (exp claims) + 300 \<and> k \<in> set (caps claims)
      \<and> (\<forall>r\<in>set (db_tokens d). t_id r = tid claims \<longrightarrow> t_revoked r = 0)" for claims
    by (auto simp: validate_claims_def skewed_clock [OF assms(2)] revoked_in_case revoked_in_rows [OF assms(1)] list_ex_iff)
  moreover have "verify_token c now stok us peer k d = Inr claims \<longleftrightarrow>
      verify_signed_claims c stok = Inr claims \<and> iss claims = us \<and> sub claims = peer
      \<and> validate_claims c now claims k d = Inr ()"
    by (auto simp: verify_token_def split: sum.splits if_splits)
  ultimately show ?thesis by (auto simp: verify_signed_claims_Inr)
qed

definition sample_grant :: "EncodeError + CapabilityToken \<times> SignedToken" where
  "sample_grant = sign_token sample_crates 1000 (replicate 16 5) (replicate 32 1) (sample_node 2) [Msg] (Some 60)"

definition sample_claims :: CapabilityToken where
  "sample_claims = \<lparr>iss = sample_node 1, sub = sample_node 2, exp = 1060, caps = [Msg], tid = replicate 16 5\<rparr>"

definition sample_signed :: SignedToken where
  "sample_signed = snd (projr sample_grant)"

definition sample_granted_db :: db where
  "sample_granted_db = sample_db\<lparr>db_tokens :=
     [\<lparr>t_id = replicate 16 5, t_iss = replicate 32 1, t_sub = replicate 32 2, t_exp = 1060, t_caps = ''m'',
       t_raw = [1], t_revoked = 0\<rparr>]\<rparr>"

lemma sample_identity: "identity_nodeid sample_crates (replicate 32 1) = sample_node 1"
  by (simp add: identity_nodeid_def sample_crates_def s_pad_def sample_node_def)

lemma sample_grant_eq: "sample_grant = Inr (sample_claims, sample_signed)"
proof -
  have "saturating_add 1000 60 = 1060" by (simp add: saturating_add_def)
  then show ?thesis
    by (simp add: sample_signed_def)
      (simp add: sample_grant_def sign_token_def Let_def sample_identity sample_claims_def,
       simp add: sample_crates_def s_claims_enc_def)
qed

lemma sample_verified: "verify_signed_claims sample_crates sample_signed = Inr sample_claims"
  by (rule verify_signed_sign [OF sample_cbor sample_ed25519 wf_sample_node, where rnd = "replicate 16 5"])
    (simp, rule sample_grant_eq [unfolded sample_grant_def])

lemma verify_token_accepts_witness:
  "verify_token sample_crates 1200 sample_signed (sample_node 1) (sample_node 2) Msg sample_db = Inr sample_claims"
proof -
  have "as_i64 1060 = 1060" by (simp add: as_i64_def)
  with verify_token_accepts [OF sample_db_inv, of 1200 sample_crates sample_signed "sample_node 1" "sample_node 2" Msg
      sample_claims] sample_verified
  show ?thesis by (auto simp: verify_signed_claims_Inr sample_claims_def)
qed

text \<open>
  C29 A granted token opens the door it was granted for and no other.  While its expiry (plus the
  skew) is not past and it is not revoked, the issuer accepts it from the peer it names; from another
  peer it is a subject mismatch, and at another install it is not for that install.
\<close>

theorem granted_token_works:
  assumes "cbor_laws c" and "ed25519_laws c" and "wf_nodeid peer" and "length rnd = 16"
    and "sign_token c issued rnd sk peer cs ttl = Inr (claims, stok)"
    and "uint now < 2 ^ 63" and "uint (exp claims) < 2 ^ 63" and "uint now \<le> uint (exp claims) + 300"
    and "\<not> revoked_in c rnd d" and "k \<in> set cs"
  shows "verify_token c now stok (identity_nodeid c sk) peer k d = Inr claims
    \<and> (other \<noteq> peer \<longrightarrow> verify_token c now stok (identity_nodeid c sk) other k d = Inl AuSubjectMismatch)
    \<and> (host \<noteq> identity_nodeid c sk \<longrightarrow> verify_token c now stok host other k d = Inl AuNotForUs)"
  using sign_token_claims [OF assms(5)] verify_signed_sign [OF assms(1-5)] assms(6-10)
  by (simp add: verify_token_def validate_claims_small)

lemma granted_token_works_witness:
  "verify_token sample_crates 1300 sample_signed (sample_node 1) (sample_node 2) Msg sample_db = Inr sample_claims
   \<and> verify_token sample_crates 1300 sample_signed (sample_node 1) (sample_node 3) Msg sample_db = Inl AuSubjectMismatch"
proof -
  have g: "sign_token sample_crates 1000 (replicate 16 5) (replicate 32 1) (sample_node 2) [Msg] (Some 60)
      = Inr (sample_claims, sample_signed)" using sample_grant_eq by (simp add: sample_grant_def)
  have r: "\<not> revoked_in sample_crates (replicate 16 5) sample_db" by (simp add: revoked_in_rows)
  have "sample_node 3 \<noteq> sample_node 2" by (simp add: sample_node_def)
  with granted_token_works [OF sample_cbor sample_ed25519 wf_sample_node _ g, of 1300 sample_db Msg "sample_node 3"
      "sample_node 4"] r
  show ?thesis by (simp add: sample_identity sample_claims_def)
qed

text \<open>
  C30 Revocation bites.  Once \<open>token_revoke\<close> has found the id, no token with that id is accepted from
  anyone for any capability at any time, and it is no longer offered for outgoing streams.
\<close>

theorem revoked_token_refused:
  assumes "db_inv d" and "token_revoke i d = (Inr n, d')" and "0 < n" and "is_plan plan"
  shows "(\<forall>now stok us peer k claims. verify_token c now stok us peer k d' = Inr claims \<longrightarrow> tid claims \<noteq> i)
    \<and> (\<forall>issuer subject k now t. find_token_with_cap c plan issuer subject k now d' = (Inr (Some t), d') \<longrightarrow> tr_id t \<noteq> i)"
proof (intro conjI allI impI notI)
  note rev = token_revoke_marks [OF assms(1-3), of c]
  show False if "verify_token c now stok us peer k d' = Inr claims" "tid claims = i" for now stok us peer k claims
  proof -
    have "validate_claims c now claims k d' \<noteq> Inr ()"
      unfolding validate_claims_def revoked_in_case using rev that(2) by simp
    with that(1) show False by (auto simp: verify_token_def split: sum.splits if_splits)
  qed
  have d': "d' = snd (token_revoke i d)" using assms(2) by simp
  have "db_tokens d' = snd (sql_update (\<lambda>r. t_id r = i) (\<lambda>r. r\<lparr>t_revoked := 1\<rparr>) (db_tokens d))"
    using db_invD(1) [OF assms(1)] by (simp add: d' token_revoke_def call_ok case_prod_unfold)
  then have rows: "t_revoked r = 1" if "r \<in> set (db_tokens d')" "t_id r = i" for r
    using that revoke_marks [of i "db_tokens d"] by simp
  have ok': "db_ok d'" unfolding d' using db_invD(1) [OF assms(1)] by simp
  fix issuer subject k now t
  assume f: "find_token_with_cap c plan issuer subject k now d' = (Inr (Some t), d')" "tr_id t = i"
  let ?rs = "sql_order_by (\<lambda>r. - t_exp r) (plan (filter
           (\<lambda>r. t_iss r = nid issuer \<and> t_sub r = nid subject \<and> t_revoked r = 0 \<and> t_exp r > as_i64 now) (db_tokens d')))"
  from f ok' have "first_with_cap c k ?rs = Inr (Some t)" by (simp add: find_token_with_cap_def call_ok)
  from first_with_cap_Some [OF this] obtain pre r post where "?rs = pre @ r # post" and t: "row_to_token c r = Inr t" by blast
  then have "r \<in> set ?rs" by (metis in_set_conv_decomp)
  note r = this t
  with assms(4) have "r \<in> set (db_tokens d')" "t_revoked r = 0" by (auto simp: is_plan_set)
  with rows r(2) f(2) row_to_token_fields(1) [OF r(2)] show False by fastforce
qed

lemma revoked_token_refused_witness:
  "verify_token sample_crates 1200 sample_signed (sample_node 1) (sample_node 2) Msg
     (snd (token_revoke (replicate 16 5) sample_granted_db)) \<noteq> Inr sample_claims"
proof -
  have inv: "db_inv sample_granted_db"
    by (rule db_inv_tokens [OF sample_db_inv])
      (simp_all add: sample_granted_db_def tokens_unique_def unique_rows_def token_rec_ok_def max_i64_def)
  have t: "token_revoke (replicate 16 5) sample_granted_db = (Inr 1, snd (token_revoke (replicate 16 5) sample_granted_db))"
    by (simp add: token_revoke_def call_ok db_invD(1) [OF inv] sql_update_def) (simp add: sample_granted_db_def)
  have "tid sample_claims = replicate 16 5" by (simp add: sample_claims_def)
  with revoked_token_refused [OF inv t zero_less_one is_plan_id, of sample_crates] show ?thesis by blast
qed

text \<open>
  A lifetime that does not fit is no lifetime.  The expiry of a grant saturates at the largest
  \<open>u64\<close>, but it is compared as an \<open>i64\<close>: a token granted for so long that the sum reaches
  \<open>2 ^ 63\<close> is expired from the start.
\<close>

lemma overlong_ttl_expired:
  assumes "cbor_laws c" and "ed25519_laws c" and "wf_nodeid peer" and "length rnd = 16"
    and "sign_token c issued rnd sk peer cs (Some ttl) = Inr (claims, stok)"
    and "2 ^ 63 \<le> uint issued + uint ttl" and "300 \<le> uint now" and "uint now < 2 ^ 63"
  shows "verify_token c now stok (identity_nodeid c sk) peer k d = Inl (AuExpired (exp claims) now)"
proof -
  note f = sign_token_claims [OF assms(5)]
  have "2 ^ 63 \<le> uint (exp claims)" using assms(6) by (simp add: f(5) uint_saturating_add)
  then have "as_i64 (exp claims) < 0"
    using as_i64_big [of "exp claims"] uint_lt2p [of "exp claims"] by simp
  with skewed_clock [OF assms(8)] assms(7) have
    "validate_claims c now claims k d = Inl (AuExpired (exp claims) now)" by (simp add: validate_claims_def)
  with f verify_signed_sign [OF assms(1-5)] show ?thesis by (simp add: verify_token_def)
qed

end
