(* ===== verification/Wt_Framing.thy ===== *)
theory Wt_Framing
  imports Wt_Sample
begin

unbundle bit_operations_syntax

text \<open>
  \<^verbatim>\<open>src/crates/wt-core/src/framing.rs\<close>, \<^verbatim>\<open>services/msg.rs\<close> and the socket framing of
  \<^verbatim>\<open>src/crates/wt-daemon/src/ipc.rs\<close> and \<^verbatim>\<open>src/crates/wt-cli/src/main.rs\<close>: frames
  \<open>u32_be(len) || body\<close>.  A send stream carries the bytes it has accepted and how many more
  it will accept before the connection is lost; a receive stream carries the bytes that
  arrive and whether the peer then finished the stream or the connection was lost.
\<close>

section \<open>Big-endian lengths\<close>

definition to_be_bytes :: "u32 \<Rightarrow> bytes" where
  "to_be_bytes x = [ucast (drop_bit 24 x), ucast (drop_bit 16 x), ucast (drop_bit 8 x), ucast x]"

definition from_be_bytes :: "bytes \<Rightarrow> u32" where
  "from_be_bytes bs =
     (case bs of
        [a, b, c, d] \<Rightarrow> push_bit 24 (ucast a) OR push_bit 16 (ucast b) OR push_bit 8 (ucast c) OR ucast d
      | _ \<Rightarrow> 0)"

section \<open>Streams\<close>

record SendStream =
  ss_out :: bytes
  ss_budget :: "nat option"

definition write_all :: "SendStream \<Rightarrow> bytes \<Rightarrow> bool \<times> SendStream" where
  "write_all s bs =
     (case ss_budget s of
        None \<Rightarrow> (True, s\<lparr>ss_out := ss_out s @ bs\<rparr>)
      | Some n \<Rightarrow>
          if length bs \<le> n then (True, s\<lparr>ss_out := ss_out s @ bs, ss_budget := Some (n - length bs)\<rparr>)
          else (False, s\<lparr>ss_out := ss_out s @ take n bs, ss_budget := Some 0\<rparr>))"

datatype StreamEnd = Finished | Lost

record RecvStream =
  rs_in :: bytes
  rs_end :: StreamEnd

datatype ReadExactError = FinishedEarly nat | ReadLost

definition read_exact :: "RecvStream \<Rightarrow> nat \<Rightarrow> (ReadExactError + bytes) \<times> RecvStream" where
  "read_exact s n =
     (if n \<le> length (rs_in s) then (Inr (take n (rs_in s)), s\<lparr>rs_in := drop n (rs_in s)\<rparr>)
      else (Inl (case rs_end s of Finished \<Rightarrow> FinishedEarly (length (rs_in s)) | Lost \<Rightarrow> ReadLost),
            s\<lparr>rs_in := []\<rparr>))"

section \<open>Frames of the peer protocol\<close>

definition MAX_FRAME_BYTES :: u32 where
  "MAX_FRAME_BYTES = 16777216"

datatype FrameError = CleanEof | TooLarge u32 | FrameRead ReadExactError

datatype WriteError = FrameTooLarge nat | WriteFrameLen | WriteFrameBody

definition write_cbor_frame :: "SendStream \<Rightarrow> bytes \<Rightarrow> (WriteError + unit) \<times> SendStream" where
  "write_cbor_frame send body =
     (if int (length body) > uint MAX_FRAME_BYTES then (Inl (FrameTooLarge (length body)), send)
      else let len = to_be_bytes (of_nat (length body)) in
        (case write_all send len of
           (False, send') \<Rightarrow> (Inl WriteFrameLen, send')
         | (True, send') \<Rightarrow>
             (case write_all send' body of
                (False, send'') \<Rightarrow> (Inl WriteFrameBody, send'')
              | (True, send'') \<Rightarrow> (Inr (), send''))))"

definition read_cbor_frame :: "RecvStream \<Rightarrow> (FrameError + bytes) \<times> RecvStream" where
  "read_cbor_frame recv =
     (case read_exact recv 4 of
        (Inl (FinishedEarly 0), recv') \<Rightarrow> (Inl CleanEof, recv')
      | (Inl e, recv') \<Rightarrow> (Inl (FrameRead e), recv')
      | (Inr len_buf, recv') \<Rightarrow>
          (let len = from_be_bytes len_buf in
             if len > MAX_FRAME_BYTES then (Inl (TooLarge len), recv')
             else (case read_exact recv' (unat len) of
                     (Inl e, recv'') \<Rightarrow> (Inl (FrameRead e), recv'')
                   | (Inr buf, recv'') \<Rightarrow> (Inr buf, recv''))))"

section \<open>Message streams\<close>

datatype MsgError = MsgEncode | MsgDecode | MsgFrame FrameError | MsgWrite WriteError

definition write_stream_open :: "crates \<Rightarrow> SendStream \<Rightarrow> StreamOpen \<Rightarrow> (MsgError + unit) \<times> SendStream" where
  "write_stream_open c send so =
     (case open_enc c so of
        None \<Rightarrow> (Inl MsgEncode, send)
      | Some buf \<Rightarrow> (case write_cbor_frame send buf of
                        (Inl e, send') \<Rightarrow> (Inl (MsgWrite e), send')
                      | (Inr _, send') \<Rightarrow> (Inr (), send')))"

definition read_stream_open :: "crates \<Rightarrow> RecvStream \<Rightarrow> (MsgError + StreamOpen) \<times> RecvStream" where
  "read_stream_open c recv =
     (case read_cbor_frame recv of
        (Inl e, recv') \<Rightarrow> (Inl (MsgFrame e), recv')
      | (Inr bs, recv') \<Rightarrow>
          (case open_dec c bs of None \<Rightarrow> (Inl MsgDecode, recv') | Some so \<Rightarrow> (Inr so, recv')))"

lemma read_exact_shorter:
  "read_exact s n = (Inr bs, s') \<Longrightarrow> length (rs_in s') + n = length (rs_in s)"
  by (auto simp: read_exact_def split: if_splits)

lemma read_cbor_frame_shorter:
  "read_cbor_frame s = (Inr bs, s') \<Longrightarrow> length (rs_in s') < length (rs_in s)"
  by (auto simp: read_cbor_frame_def Let_def split: prod.splits sum.splits if_splits ReadExactError.splits nat.splits
      dest!: read_exact_shorter)

text \<open>
  The receive loop forwards each decoded frame to a channel whose consumer may go away
  after \<open>room\<close> frames (\<open>None\<close>: it stays); the result pairs the forwarded frames with how
  the loop ended.
\<close>

function run_recv_loop :: "crates \<Rightarrow> nat option \<Rightarrow> RecvStream \<Rightarrow> MessageFrame list \<times> (MsgError + unit)" where
  "run_recv_loop c room recv =
     (case read_cbor_frame recv of
        (Inl CleanEof, _) \<Rightarrow> ([], Inr ())
      | (Inl e, _) \<Rightarrow> ([], Inl (MsgFrame e))
      | (Inr frame_bytes, recv') \<Rightarrow>
          (case frame_dec c frame_bytes of
             None \<Rightarrow> ([], Inl MsgDecode)
           | Some mf \<Rightarrow>
               (if room = Some 0 then ([], Inr ())
                else (case run_recv_loop c (map_option (\<lambda>n. n - 1) room) recv' of
                        (mfs, r) \<Rightarrow> (mf # mfs, r)))))"
  by pat_completeness auto
termination
  by (relation "measure (\<lambda>(c, room, recv). length (rs_in recv))")
    (auto dest!: sym [THEN read_cbor_frame_shorter])

declare run_recv_loop.simps [simp del]

fun run_send_loop :: "crates \<Rightarrow> SendStream \<Rightarrow> MessageFrame list \<Rightarrow> (MsgError + unit) \<times> SendStream" where
  "run_send_loop c send [] = (Inr (), send)"
| "run_send_loop c send (mf # mfs) =
     (case frame_enc c mf of
        None \<Rightarrow> (Inl MsgEncode, send)
      | Some buf \<Rightarrow>
          (case write_cbor_frame send buf of
             (Inl e, send') \<Rightarrow> (Inl (MsgWrite e), send')
           | (Inr _, send') \<Rightarrow> run_send_loop c send' mfs))"

section \<open>Frames of the IPC socket\<close>

definition MAX_IPC_FRAME :: u32 where
  "MAX_IPC_FRAME = 67108864"

datatype IpcReadError = IpcReadLen | IpcTooLarge u32 | IpcReadBody

text \<open>\<open>read_frame\<close> of the daemon: an end of input inside the length prefix is an end of
  the conversation (\<open>None\<close>), as \<open>UnexpectedEof\<close> does not say how much was read.\<close>

definition ipc_read_frame :: "RecvStream \<Rightarrow> (IpcReadError + bytes option) \<times> RecvStream" where
  "ipc_read_frame s =
     (case read_exact s 4 of
        (Inl (FinishedEarly _), s') \<Rightarrow> (Inr None, s')
      | (Inl ReadLost, s') \<Rightarrow> (Inl IpcReadLen, s')
      | (Inr len_buf, s') \<Rightarrow>
          (let len = from_be_bytes len_buf in
             if len > MAX_IPC_FRAME then (Inl (IpcTooLarge len), s')
             else (case read_exact s' (unat len) of
                     (Inl _, s'') \<Rightarrow> (Inl IpcReadBody, s'')
                   | (Inr buf, s'') \<Rightarrow> (Inr (Some buf), s''))))"

text \<open>\<open>write_event\<close>/\<open>request_one\<close> after encoding: the length is cast with \<open>as u32\<close> and not
  checked.\<close>

definition ipc_write_frame :: "SendStream \<Rightarrow> bytes \<Rightarrow> bool \<times> SendStream" where
  "ipc_write_frame s buf =
     (case write_all s (to_be_bytes (of_nat (length buf))) of
        (False, s') \<Rightarrow> (False, s')
      | (True, s') \<Rightarrow> write_all s' buf)"

section \<open>Lemmas\<close>

lemma length_to_be_bytes [simp]: "length (to_be_bytes x) = 4"
  by (simp add: to_be_bytes_def)

lemma from_to_be_bytes [simp]: "from_be_bytes (to_be_bytes x) = x"
proof (rule bit_word_eqI)
  fix n
  assume "n < LENGTH(32)"
  then consider "n < 8" | "8 \<le> n" "n < 16" | "16 \<le> n" "n < 24" | "24 \<le> n" "n < 32" by fastforce
  then show "bit (from_be_bytes (to_be_bytes x)) n = bit x n"
    by cases (auto simp: from_be_bytes_def to_be_bytes_def bit_simps)
qed

text \<open>The bytes of one frame, and of a run of frames.\<close>

definition frame_bytes :: "bytes \<Rightarrow> bytes" where
  "frame_bytes body = to_be_bytes (of_nat (length body)) @ body"

definition fits :: "bytes \<Rightarrow> bool" where
  "fits body \<longleftrightarrow> int (length body) \<le> uint MAX_FRAME_BYTES"

lemma fits_len:
  "fits body \<Longrightarrow> unat (of_nat (length body) :: u32) = length body"
  "fits body \<Longrightarrow> (of_nat (length body) :: u32) \<le> MAX_FRAME_BYTES"
proof -
  assume f: "fits body"
  then have l: "length body \<le> 16777216" by (simp add: fits_def MAX_FRAME_BYTES_def)
  then show u: "unat (of_nat (length body) :: u32) = length body"
    by (simp add: unat_of_nat)
  show "(of_nat (length body) :: u32) \<le> MAX_FRAME_BYTES"
    using l u by (simp add: word_le_nat_alt MAX_FRAME_BYTES_def)
qed

lemma write_cbor_frame_ok:
  assumes "fits body" and "ss_budget s = None"
  shows "write_cbor_frame s body = (Inr (), s\<lparr>ss_out := ss_out s @ frame_bytes body\<rparr>)"
  using assms by (simp add: write_cbor_frame_def write_all_def fits_def frame_bytes_def)

lemma read_cbor_frame_frame:
  assumes "fits body"
  shows "read_cbor_frame \<lparr>rs_in = frame_bytes body @ rest, rs_end = e\<rparr>
           = (Inr body, \<lparr>rs_in = rest, rs_end = e\<rparr>)"
  using fits_len [OF assms]
  by (simp add: read_cbor_frame_def read_exact_def frame_bytes_def Let_def)

lemma read_cbor_frame_cut:
  assumes "fits body" and "k < length (frame_bytes body)"
  shows "fst (read_cbor_frame \<lparr>rs_in = take k (frame_bytes body), rs_end = e\<rparr>)
           = Inl (if k = 0 \<and> e = Finished then CleanEof
                  else FrameRead (case e of Finished \<Rightarrow> FinishedEarly (if k < 4 then k else k - 4)
                                  | Lost \<Rightarrow> ReadLost))"
proof (cases "k < 4")
  case True
  with assms(2) show ?thesis
    by (cases e; cases k) (auto simp: read_cbor_frame_def read_exact_def frame_bytes_def)
next
  case False
  with fits_len [OF assms(1)] assms(2) show ?thesis
    by (cases e) (auto simp: read_cbor_frame_def read_exact_def frame_bytes_def Let_def)
qed

lemma read_cbor_frame_empty:
  "read_cbor_frame \<lparr>rs_in = [], rs_end = e\<rparr>
     = (Inl (case e of Finished \<Rightarrow> CleanEof | Lost \<Rightarrow> FrameRead ReadLost), \<lparr>rs_in = [], rs_end = e\<rparr>)"
  by (cases e) (simp_all add: read_cbor_frame_def read_exact_def)

text \<open>The wire image of a list of message frames.\<close>

definition encodable :: "crates \<Rightarrow> MessageFrame \<Rightarrow> bool" where
  "encodable c mf \<longleftrightarrow> (case frame_enc c mf of None \<Rightarrow> False | Some b \<Rightarrow> fits b)"

definition mf_wire :: "crates \<Rightarrow> MessageFrame \<Rightarrow> bytes" where
  "mf_wire c mf = frame_bytes (case frame_enc c mf of None \<Rightarrow> [] | Some b \<Rightarrow> b)"

lemma run_send_loop_wire:
  assumes "list_all (encodable c) mfs" and "ss_budget s = None"
  shows "run_send_loop c s mfs = (Inr (), s\<lparr>ss_out := ss_out s @ concat (map (mf_wire c) mfs)\<rparr>)"
  using assms
proof (induction mfs arbitrary: s)
  case Nil
  then show ?case by simp
next
  case (Cons mf mfs)
  then obtain b where b: "frame_enc c mf = Some b" "fits b"
    by (auto simp: encodable_def split: option.splits)
  with Cons show ?case by (simp add: write_cbor_frame_ok mf_wire_def)
qed

lemma run_recv_loop_frame:
  assumes "cbor_laws c" and "encodable c mf" and "room \<noteq> Some 0"
  shows "run_recv_loop c room \<lparr>rs_in = mf_wire c mf @ rest, rs_end = e\<rparr>
     = (case run_recv_loop c (map_option (\<lambda>n. n - 1) room) \<lparr>rs_in = rest, rs_end = e\<rparr> of
          (mfs, r) \<Rightarrow> (mf # mfs, r))"
proof -
  from assms(2) obtain b where b: "frame_enc c mf = Some b" "fits b"
    by (auto simp: encodable_def split: option.splits)
  with assms show ?thesis
    by (subst run_recv_loop.simps) (simp add: mf_wire_def read_cbor_frame_frame cbor_frame)
qed

lemma run_recv_loop_cut:
  assumes "encodable c mf" and "k < length (mf_wire c mf)"
  shows "fst (run_recv_loop c room \<lparr>rs_in = take k (mf_wire c mf), rs_end = e\<rparr>) = []"
    and "snd (run_recv_loop c room \<lparr>rs_in = take k (mf_wire c mf), rs_end = e\<rparr>) = Inr () \<longleftrightarrow> k = 0 \<and> e = Finished"
proof -
  from assms(1) obtain b where b: "frame_enc c mf = Some b" "fits b"
    by (auto simp: encodable_def split: option.splits)
  let ?r = "\<lparr>rs_in = take k (mf_wire c mf), rs_end = e\<rparr>"
  have wire: "mf_wire c mf = frame_bytes b" by (simp add: mf_wire_def b)
  obtain x r' where x: "read_cbor_frame ?r = (x, r')" by fastforce
  with read_cbor_frame_cut [OF b(2), of k e] assms(2) have
    "x = Inl (if k = 0 \<and> e = Finished then CleanEof
              else FrameRead (case e of Finished \<Rightarrow> FinishedEarly (if k < 4 then k else k - 4)
                              | Lost \<Rightarrow> ReadLost))"
    by (simp add: wire)
  with x have "run_recv_loop c room ?r = ([], if k = 0 \<and> e = Finished then Inr () else
      Inl (MsgFrame (FrameRead (case e of Finished \<Rightarrow> FinishedEarly (if k < 4 then k else k - 4)
                              | Lost \<Rightarrow> ReadLost))))"
    by (subst run_recv_loop.simps) simp
  then show "fst (run_recv_loop c room ?r) = []"
    "snd (run_recv_loop c room ?r) = Inr () \<longleftrightarrow> k = 0 \<and> e = Finished" by auto
qed

text \<open>Whatever prefix of the sent bytes arrives, the receiver forwards a prefix of the frames.\<close>

lemma run_recv_loop_prefix:
  assumes "cbor_laws c" and "list_all (encodable c) mfs"
  shows "\<exists>j r. run_recv_loop c None \<lparr>rs_in = take k (concat (map (mf_wire c) mfs)), rs_end = e\<rparr>
             = (take j mfs, r)
           \<and> length (concat (map (mf_wire c) (take j mfs))) \<le> k
           \<and> (r = Inr () \<longleftrightarrow> e = Finished \<and>
                take k (concat (map (mf_wire c) mfs)) = concat (map (mf_wire c) (take j mfs)))"
  using assms(2)
proof (induction mfs arbitrary: k)
  case Nil
  show ?case
    by (intro exI [where x = 0])
      (cases e; simp add: run_recv_loop.simps read_cbor_frame_empty)
next
  case (Cons mf mfs)
  then have enc: "encodable c mf" and rest: "list_all (encodable c) mfs" by simp_all
  show ?case
  proof (cases "k < length (mf_wire c mf)")
    case True
    then have t: "take k (concat (map (mf_wire c) (mf # mfs))) = take k (mf_wire c mf)" by simp
    have z: "take k (mf_wire c mf) = [] \<longleftrightarrow> k = 0" using True by auto
    obtain xs r where xr: "run_recv_loop c None \<lparr>rs_in = take k (mf_wire c mf), rs_end = e\<rparr> = (xs, r)"
      by fastforce
    with run_recv_loop_cut [OF enc True, of None e] have "xs = []" "r = Inr () \<longleftrightarrow> k = 0 \<and> e = Finished"
      by simp_all
    with xr z show ?thesis unfolding t by (intro exI [where x = 0] exI [where x = r]) auto
  next
    case False
    then obtain k' where k: "k = length (mf_wire c mf) + k'" using le_Suc_ex not_le by blast
    from Cons.IH [OF rest, of k'] obtain j r where
      run: "run_recv_loop c None \<lparr>rs_in = take k' (concat (map (mf_wire c) mfs)), rs_end = e\<rparr> = (take j mfs, r)"
      and len: "length (concat (map (mf_wire c) (take j mfs))) \<le> k'"
      and res: "r = Inr () \<longleftrightarrow> e = Finished \<and>
                take k' (concat (map (mf_wire c) mfs)) = concat (map (mf_wire c) (take j mfs))"
      by blast
    from run k show ?thesis
      by (intro exI [where x = "Suc j"] exI [where x = r])
        (simp add: run_recv_loop_frame [OF assms(1) enc] len res)
  qed
qed

section \<open>Properties\<close>

text \<open>
  C27 Frames arrive as sent, or as a prefix.  However many of the bytes a send loop wrote reach the
  other side before the stream ends, the receive loop forwards a prefix of the sent messages, never
  a broken or reordered one; it ends without error exactly when the stream was finished at a frame
  boundary, and when every byte arrives it forwards every message.
\<close>

theorem frames_arrive_in_order:
  assumes laws: "cbor_laws c" and enc: "list_all (encodable c) mfs"
    and sent: "run_send_loop c \<lparr>ss_out = [], ss_budget = None\<rparr> mfs = (Inr (), snt)"
  shows "(\<exists>j r. run_recv_loop c None \<lparr>rs_in = take k (ss_out snt), rs_end = e\<rparr> = (take j mfs, r)
            \<and> (r = Inr () \<longleftrightarrow> e = Finished \<and> take k (ss_out snt) = concat (map (mf_wire c) (take j mfs))))
    \<and> run_recv_loop c None \<lparr>rs_in = ss_out snt, rs_end = Finished\<rparr> = (mfs, Inr ())"
proof
  have out: "ss_out snt = concat (map (mf_wire c) mfs)"
    using sent run_send_loop_wire [OF enc, of "\<lparr>ss_out = [], ss_budget = None\<rparr>"] by auto
  show "\<exists>j r. run_recv_loop c None \<lparr>rs_in = take k (ss_out snt), rs_end = e\<rparr> = (take j mfs, r)
            \<and> (r = Inr () \<longleftrightarrow> e = Finished \<and> take k (ss_out snt) = concat (map (mf_wire c) (take j mfs)))"
    unfolding out using run_recv_loop_prefix [OF laws enc, of k e] by blast
  show "run_recv_loop c None \<lparr>rs_in = ss_out snt, rs_end = Finished\<rparr> = (mfs, Inr ())"
    unfolding out using enc
  proof (induction mfs)
    case Nil
    show ?case by (subst run_recv_loop.simps) (simp add: read_cbor_frame_empty)
  next
    case (Cons mf mfs)
    then show ?case by (simp add: run_recv_loop_frame [OF laws])
  qed
qed

definition sample_frame :: "u64 \<Rightarrow> MessageFrame" where
  "sample_frame n = \<lparr>mf_seq = n, mf_ts_ms = 7, mf_payload = [1, 2]\<rparr>"

lemma frames_arrive_in_order_witness:
  "run_recv_loop sample_crates None
     \<lparr>rs_in = ss_out (snd (run_send_loop sample_crates \<lparr>ss_out = [], ss_budget = None\<rparr> [sample_frame 1, sample_frame 2])),
      rs_end = Finished\<rparr> = ([sample_frame 1, sample_frame 2], Inr ())"
proof -
  have e: "list_all (encodable sample_crates) [sample_frame 1, sample_frame 2]"
    by (simp add: encodable_def sample_crates_def s_frame_enc_def fits_def MAX_FRAME_BYTES_def sample_frame_def)
  have s: "run_send_loop sample_crates \<lparr>ss_out = [], ss_budget = None\<rparr> [sample_frame 1, sample_frame 2]
     = (Inr (), snd (run_send_loop sample_crates \<lparr>ss_out = [], ss_budget = None\<rparr> [sample_frame 1, sample_frame 2]))"
    using run_send_loop_wire [OF e, of "\<lparr>ss_out = [], ss_budget = None\<rparr>"] by simp
  show ?thesis using frames_arrive_in_order [OF sample_cbor e s] by blast
qed

text \<open>
  A frame that is cut short is told apart from an ended stream: reading \<open>k\<close> of its bytes reports a
  clean end only when the stream was finished before the first of them, and otherwise an error that
  says whether the peer stopped inside the frame or the connection was lost; a length above
  \<open>MAX_FRAME_BYTES\<close> is refused before anything is read.
\<close>

lemma frame_errors:
  assumes "fits body" and "k < length (frame_bytes body)"
  shows "fst (read_cbor_frame \<lparr>rs_in = take k (frame_bytes body), rs_end = e\<rparr>)
           = Inl (if k = 0 \<and> e = Finished then CleanEof
                  else FrameRead (case e of Finished \<Rightarrow> FinishedEarly (if k < 4 then k else k - 4)
                                  | Lost \<Rightarrow> ReadLost))
    \<and> (MAX_FRAME_BYTES < len \<longrightarrow>
         read_cbor_frame \<lparr>rs_in = to_be_bytes len @ rest, rs_end = e\<rparr> = (Inl (TooLarge len), \<lparr>rs_in = rest, rs_end = e\<rparr>))"
  using read_cbor_frame_cut [OF assms, of e]
  by (simp add: read_cbor_frame_def read_exact_def Let_def)

text \<open>
  A ticket survives being pasted: decoding the text of a ticket, with whatever ASCII white space
  the paste added around it, gives the ticket back, and a node id survives printing and parsing.
\<close>

lemma ticket_roundtrip:
  assumes "cbor_laws c" and "base32_laws c" and "hex_laws c" and "wf_nodeid (tk_nodeid t)"
    and "ticket_encode c t = Inr s" and "list_all ascii_blank w1" and "list_all ascii_blank w2"
  shows "ticket_decode c (w1 @ s @ w2) = Inr t
    \<and> nodeid_from_str c (nodeid_display c (tk_nodeid t)) = Inr (tk_nodeid t)"
  using ticket_roundtrip_padded [OF assms(1,2,4-7)] nodeid_parse_display [OF assms(3,4)] by simp

end
