(* ===== verification/Wt_Daemon.thy ===== *)
theory Wt_Daemon
  imports Wt_Auth Wt_Framing "HOL-Library.AList" "HOL-Library.Sublist"
begin

text \<open>
  \<^verbatim>\<open>src/crates/wt-daemon/src/state.rs\<close>: the state a daemon owns, the accept path for incoming
  connections, per-peer delivery, the local bus and the table of supervised children.  What the
  world decides (clock readings, random bytes, the outcome of dialling, row order of queries)
  comes from the record \<open>world\<close>; a handler that reads the clock takes the next reading.  Tasks the
  code spawns are entries of the state, and their bodies are definitions of their own, so that a
  statement about the whole speaks of any order in which they run.
\<close>

section \<open>The state\<close>

record PeerLink =
  pl_nodeid :: NodeId
  pl_name :: string
  pl_since_ms :: u64
  pl_via_relay :: bool
  pl_stream_labels :: "string list"

record BusEvent =
  be_group :: string
  be_session :: string
  be_from_agent :: string
  be_to_agent :: string
  be_kind :: AgentMsgKind
  be_payload :: bytes
  be_ts_ms :: u64
  be_seq :: u64

definition kind_to_str :: "AgentMsgKind \<Rightarrow> string" where
  "kind_to_str k =
     (case k of
        TurnOutput \<Rightarrow> ''turn_output''
      | TurnInput \<Rightarrow> ''turn_input''
      | User \<Rightarrow> ''user''
      | Control \<Rightarrow> ''control''
      | Trace \<Rightarrow> ''trace'')"

definition kind_from_str :: "string \<Rightarrow> AgentMsgKind" where
  "kind_from_str s =
     (if s = ''turn_output'' then TurnOutput
      else if s = ''turn_input'' then TurnInput
      else if s = ''control'' then Control
      else if s = ''trace'' then Trace
      else User)"

text \<open>What the world decides.  \<open>w_dial i\<close> is the outcome of the \<open>i\<close>-th outgoing connection.\<close>

record world =
  w_ms :: "nat \<Rightarrow> u64"
  w_secs :: "nat \<Rightarrow> u64"
  w_rand :: "nat \<Rightarrow> bytes"
  w_dial :: "nat \<Rightarrow> NodeId \<Rightarrow> AddrTicket option \<Rightarrow> SendStream option"
  w_msg_plan :: msg_plan
  w_token_plan :: token_plan
  w_bus_plan :: am_plan

text \<open>An outgoing stream: the peer it was opened for, the node id that was dialled (the one of the peer's
  address ticket when it has one), the channel it carries, and the bytes written.\<close>

record Wire =
  wr_target :: NodeId
  wr_dialled :: NodeId
  wr_channel :: string
  wr_stream :: SendStream

text \<open>A task \<open>spawn_inbound_msg\<close> started: the frames still to be read from one incoming stream.\<close>

record InboundTask =
  it_remote :: NodeId
  it_from_name :: "string option"
  it_channel :: string
  it_recv :: RecvStream

text \<open>The wake handle of a delivery task: a channel of capacity one.\<close>

record Waker =
  wk_queued :: bool
  wk_open :: bool

record daemon =
  dm_secret :: bytes
  dm_db :: db
  dm_tick :: nat
  dm_rands :: nat
  dm_conns :: "(NodeId \<times> PeerLink) list"
  dm_recv_bcast :: "IpcEvent list"
  dm_agent_bcast :: "BusEvent list"
  dm_wakers :: "(NodeId \<times> Waker) list"
  dm_children :: "((string \<times> string) \<times> nat) list"
  dm_aborted :: "nat list"
  dm_delivery_tasks :: "NodeId list"
  dm_inbound_tasks :: "InboundTask list"
  dm_inline_errs :: "(NodeId \<times> IpcEvent) list"
  dm_dials :: nat
  dm_wires :: "Wire list"
  dm_shutdown :: bool

datatype dm_error =
    DStore store_error
  | DPeerNotKnown NodeId
  | DPeerNotInRegistry
  | DNoToken NodeId
  | DDecodeToken
  | DDecodeTicket
  | DConnect
  | DMsg MsgError
  | DEncodeFrame
  | DWriteFrame WriteError
  | DTicket TicketError
  | DSign EncodeError
  | DWriteEvent

section \<open>Sequencing\<close>

text \<open>The \<open>?\<close> operator: stop at the first error, with the state reached so far.\<close>

definition and_then :: "('s \<Rightarrow> ('e + 'a) \<times> 's) \<Rightarrow> ('a \<Rightarrow> 's \<Rightarrow> ('e + 'b) \<times> 's) \<Rightarrow> 's \<Rightarrow> ('e + 'b) \<times> 's" where
  "and_then m f s = (case m s of (Inl e, s') \<Rightarrow> (Inl e, s') | (Inr a, s') \<Rightarrow> f a s')"

text \<open>A store call of the daemon, and one that reads the clock first.\<close>

definition on_db :: "(db \<Rightarrow> 'a store_result) \<Rightarrow> 'z daemon_scheme \<Rightarrow> (dm_error + 'a) \<times> 'z daemon_scheme" where
  "on_db f s =
     (case f (dm_db s) of
        (Inl e, d) \<Rightarrow> (Inl (DStore e), s\<lparr>dm_db := d\<rparr>)
      | (Inr a, d) \<Rightarrow> (Inr a, s\<lparr>dm_db := d\<rparr>))"

definition on_db_at ::
  "world \<Rightarrow> (u64 \<Rightarrow> db \<Rightarrow> 'a store_result) \<Rightarrow> 'z daemon_scheme \<Rightarrow> (dm_error + 'a) \<times> 'z daemon_scheme" where
  "on_db_at w f s = on_db (f (w_ms w (dm_tick s))) (s\<lparr>dm_tick := Suc (dm_tick s)\<rparr>)"

text \<open>\<open>let _ = call\<close>: the outcome is dropped.\<close>

definition ignore :: "('s \<Rightarrow> ('e + 'a) \<times> 's) \<Rightarrow> 's \<Rightarrow> ('e + unit) \<times> 's" where
  "ignore m s = (Inr (), snd (m s))"

definition local_nodeid :: "crates \<Rightarrow> 'z daemon_scheme \<Rightarrow> NodeId" where
  "local_nodeid c s = identity_nodeid c (dm_secret s)"

section \<open>The connection table\<close>

definition stream_label :: "string \<Rightarrow> string" where
  "stream_label channel = ''msg:'' @ channel"

text \<open>\<open>entry(peer).and_modify(push the label unless there).or_insert(new)\<close>.\<close>

definition conns_note ::
  "NodeId \<Rightarrow> string \<Rightarrow> PeerLink \<Rightarrow> (NodeId \<times> PeerLink) list \<Rightarrow> (NodeId \<times> PeerLink) list" where
  "conns_note peer label new conns =
     (case map_of conns peer of
        Some link \<Rightarrow>
          if list_ex (\<lambda>s. s = label) (pl_stream_labels link) then conns
          else AList.update peer (link\<lparr>pl_stream_labels := pl_stream_labels link @ [label]\<rparr>) conns
      | None \<Rightarrow> AList.update peer new conns)"

text \<open>\<open>get_mut(peer)\<close>, then \<open>stream_labels.retain(|s| s != label)\<close>.\<close>

definition conns_drop_label :: "NodeId \<Rightarrow> string \<Rightarrow> (NodeId \<times> PeerLink) list \<Rightarrow> (NodeId \<times> PeerLink) list" where
  "conns_drop_label peer label conns =
     (case map_of conns peer of
        Some link \<Rightarrow> AList.update peer (link\<lparr>pl_stream_labels := filter (\<lambda>s. s \<noteq> label) (pl_stream_labels link)\<rparr>) conns
      | None \<Rightarrow> conns)"

definition forget_outbound_stream :: "NodeId \<Rightarrow> string \<Rightarrow> 'z daemon_scheme \<Rightarrow> 'z daemon_scheme" where
  "forget_outbound_stream target channel s =
     s\<lparr>dm_conns := conns_drop_label target (stream_label channel) (dm_conns s)\<rparr>"

definition list_conns :: "'z daemon_scheme \<Rightarrow> ConnInfo list" where
  "list_conns s = map (\<lambda>(_, link).
     \<lparr>ci_peer_name = pl_name link, ci_nodeid = pl_nodeid link, ci_since_ms = pl_since_ms link,
      ci_streams = pl_stream_labels link, ci_rx_bytes = 0, ci_tx_bytes = 0, ci_rtt_us = None,
      ci_via_relay = pl_via_relay link\<rparr>) (dm_conns s)"

section \<open>Incoming connections\<close>

definition auth_error_display :: "crates \<Rightarrow> AuthError \<Rightarrow> string" where
  "auth_error_display c e =
     (case e of
        AuBadSignature \<Rightarrow> ''bad signature''
      | AuBadClaims \<Rightarrow> ''malformed claims''
      | AuExpired x now \<Rightarrow> ''token expired (exp='' @ show_nat (unat x) @ '', now='' @ show_nat (unat now) @ '')''
      | AuSubjectMismatch \<Rightarrow> ''subject mismatch: token.sub != initiator''
      | AuRevoked \<Rightarrow> ''token revoked''
      | AuMissingCap k \<Rightarrow> ''missing required capability: '' @ cap_display k
      | AuNotForUs \<Rightarrow> ''issuer pubkey is not the local identity''
      | AuPeerNotKnown n \<Rightarrow> ''peer not authorized: '' @ nodeid_display c n)"

definition send_inline_err :: "NodeId \<Rightarrow> string \<Rightarrow> 'z daemon_scheme \<Rightarrow> 'z daemon_scheme" where
  "send_inline_err remote msg s =
     s\<lparr>dm_inline_errs := dm_inline_errs s @ [(remote, EvErr \<lparr>code = Unauthorized, message = msg\<rparr>)]\<rparr>"

definition spawn_inbound_msg ::
  "crates \<Rightarrow> world \<Rightarrow> NodeId \<Rightarrow> string option \<Rightarrow> string \<Rightarrow> RecvStream \<Rightarrow> bool \<Rightarrow> 'z daemon_scheme \<Rightarrow> 'z daemon_scheme" where
  "spawn_inbound_msg c w remote peer_name channel recv via_relay s =
     (let new = \<lparr>pl_nodeid = remote,
                 pl_name = (case peer_name of Some n \<Rightarrow> n | None \<Rightarrow> hex_encode c (take 6 (nid remote))),
                 pl_since_ms = w_ms w (dm_tick s), pl_via_relay = via_relay,
                 pl_stream_labels = [stream_label channel]\<rparr>;
          tick = (if map_of (dm_conns s) remote = None then Suc (dm_tick s) else dm_tick s)
      in s\<lparr>dm_conns := conns_note remote (stream_label channel) new (dm_conns s),
           dm_tick := tick,
           dm_inbound_tasks := dm_inbound_tasks s @
             [\<lparr>it_remote = remote, it_from_name = peer_name, it_channel = channel, it_recv = recv\<rparr>]\<rparr>)"

text \<open>One turn of the spawned task's loop: record the frame, publish it when it is new, or when
  recording failed.\<close>

definition inbound_frame ::
  "crates \<Rightarrow> world \<Rightarrow> NodeId \<Rightarrow> string option \<Rightarrow> string \<Rightarrow> MessageFrame \<Rightarrow> 'z daemon_scheme \<Rightarrow> 'z daemon_scheme" where
  "inbound_frame c w remote from_name channel mf s =
     (case on_db_at w (\<lambda>now. inbox_record c now remote channel (mf_seq mf) (mf_payload mf) (mf_ts_ms mf)) s of
        (r, s') \<Rightarrow>
          if (case r of Inr b \<Rightarrow> b | Inl _ \<Rightarrow> True)
          then s'\<lparr>dm_recv_bcast := dm_recv_bcast s' @
                   [EvRecvMsg remote from_name channel (mf_payload mf) (mf_ts_ms mf)]\<rparr>
          else s')"

text \<open>The whole task: every frame the receive loop forwards, then drop the label.\<close>

definition inbound_task :: "crates \<Rightarrow> world \<Rightarrow> InboundTask \<Rightarrow> 'z daemon_scheme \<Rightarrow> 'z daemon_scheme" where
  "inbound_task c w t s =
     (let frames = fst (run_recv_loop c None (it_recv t));
          s' = fold (inbound_frame c w (it_remote t) (it_from_name t) (it_channel t)) frames s
      in s'\<lparr>dm_conns := conns_drop_label (it_remote t) (stream_label (it_channel t)) (dm_conns s')\<rparr>)"

text \<open>The loop over \<open>accept_bi\<close>: the list holds the streams the peer opens before it closes.\<close>

fun accept_streams ::
  "crates \<Rightarrow> world \<Rightarrow> NodeId \<Rightarrow> RecvStream list \<Rightarrow> 'z daemon_scheme \<Rightarrow> (dm_error + unit) \<times> 'z daemon_scheme" where
  "accept_streams c w remote [] s = (Inr (), s)"
| "accept_streams c w remote (r # rs) s =
     (case read_stream_open c r of
        (Inl e, _) \<Rightarrow> (Inl (DMsg e), s)
      | (Inr so, recv) \<Rightarrow>
          (let now = w_secs w (dm_tick s); s1 = s\<lparr>dm_tick := Suc (dm_tick s)\<rparr> in
           case verify_token c now (so_token so) (local_nodeid c s) remote Msg (dm_db s) of
             Inl e \<Rightarrow> accept_streams c w remote rs
                        (send_inline_err remote (''auth: '' @ auth_error_display c e) s1)
           | Inr _ \<Rightarrow>
               (let peer_name = (case fst (peer_get (PsNodeId remote) (dm_db s1)) of
                                   Inr (Some p) \<Rightarrow> Some (pr_name p) | _ \<Rightarrow> None);
                    s2 = snd (on_db_at w (\<lambda>now. peer_touch_seen now remote) s1)
                in accept_streams c w remote rs
                     (spawn_inbound_msg c w remote peer_name (so_channel so) recv False s2))))"

definition handle_connection ::
  "crates \<Rightarrow> world \<Rightarrow> NodeId \<Rightarrow> RecvStream list \<Rightarrow> 'z daemon_scheme \<Rightarrow> (dm_error + unit) \<times> 'z daemon_scheme" where
  "handle_connection c w remote streams s =
     (case require_peer_known remote (dm_db s) of
        Inl _ \<Rightarrow> (Inl (DPeerNotKnown remote), s)
      | Inr _ \<Rightarrow>
          (case accept_streams c w remote streams s of
             (Inl e, s') \<Rightarrow> (Inl e, s')
           | (Inr _, s') \<Rightarrow> (Inr (), s'\<lparr>dm_conns := AList.delete remote (dm_conns s')\<rparr>)))"

section \<open>The local bus\<close>

definition bus_enqueue ::
  "world \<Rightarrow> string \<Rightarrow> string \<Rightarrow> string \<Rightarrow> string \<Rightarrow> AgentMsgKind \<Rightarrow> bytes \<Rightarrow> 'z daemon_scheme
     \<Rightarrow> (dm_error + u64) \<times> 'z daemon_scheme" where
  "bus_enqueue w grp session from_agent to_agent kind payload =
     and_then (on_db_at w (\<lambda>now. agent_msg_enqueue now grp session from_agent to_agent (kind_to_str kind) payload))
       (\<lambda>row s. (Inr (am_seq row),
          s\<lparr>dm_agent_bcast := dm_agent_bcast s @
             [\<lparr>be_group = grp, be_session = session, be_from_agent = from_agent, be_to_agent = to_agent,
               be_kind = kind, be_payload = payload, be_ts_ms = am_enqueued_at_ms row, be_seq = am_seq row\<rparr>]\<rparr>))"

section \<open>Supervised children\<close>

definition register_child :: "string \<Rightarrow> string \<Rightarrow> nat \<Rightarrow> 'z daemon_scheme \<Rightarrow> 'z daemon_scheme" where
  "register_child grp agent handle s = s\<lparr>dm_children := AList.update (grp, agent) handle (dm_children s)\<rparr>"

definition kill_child :: "string \<Rightarrow> string \<Rightarrow> 'z daemon_scheme \<Rightarrow> bool \<times> 'z daemon_scheme" where
  "kill_child grp agent s =
     (case map_of (dm_children s) (grp, agent) of
        Some h \<Rightarrow> (True, s\<lparr>dm_children := AList.delete (grp, agent) (dm_children s), dm_aborted := dm_aborted s @ [h]\<rparr>)
      | None \<Rightarrow> (False, s))"

definition forget_child :: "string \<Rightarrow> string \<Rightarrow> 'z daemon_scheme \<Rightarrow> 'z daemon_scheme" where
  "forget_child grp agent s = s\<lparr>dm_children := AList.delete (grp, agent) (dm_children s)\<rparr>"

section \<open>Start and shutdown\<close>

text \<open>\<open>DaemonState::start\<close>: open the store, reconcile (a failure is only logged), start empty.\<close>

definition daemon_start :: "bytes \<Rightarrow> db \<Rightarrow> daemon" where
  "daemon_start secret file =
     \<lparr>dm_secret = secret, dm_db = snd (reconcile_stale_agents (open_at file)), dm_tick = 0, dm_rands = 0,
      dm_conns = [], dm_recv_bcast = [], dm_agent_bcast = [], dm_wakers = [], dm_children = [], dm_aborted = [],
      dm_delivery_tasks = [], dm_inbound_tasks = [], dm_inline_errs = [], dm_dials = 0, dm_wires = [],
      dm_shutdown = False\<rparr>"

definition daemon_shutdown :: "'z daemon_scheme \<Rightarrow> 'z daemon_scheme" where
  "daemon_shutdown s =
     s\<lparr>dm_shutdown := True, dm_aborted := dm_aborted s @ map snd (dm_children s), dm_children := []\<rparr>"

section \<open>Lemmas\<close>

named_theorems dm_simps

lemma kind_from_to_str [simp]: "kind_from_str (kind_to_str k) = k"
  by (cases k) (simp_all add: kind_from_str_def kind_to_str_def)

lemma on_db_db [simp]: "dm_db (snd (on_db f s)) = snd (f (dm_db s))"
  by (simp add: on_db_def split: prod.splits sum.splits)

lemma on_db_frame [simp]:
  "dm_recv_bcast (snd (on_db f s)) = dm_recv_bcast s" "dm_conns (snd (on_db f s)) = dm_conns s"
  "dm_inbound_tasks (snd (on_db f s)) = dm_inbound_tasks s" "dm_wires (snd (on_db f s)) = dm_wires s"
  "dm_inline_errs (snd (on_db f s)) = dm_inline_errs s" "dm_agent_bcast (snd (on_db f s)) = dm_agent_bcast s"
  "dm_secret (snd (on_db f s)) = dm_secret s" "dm_children (snd (on_db f s)) = dm_children s"
  by (simp_all add: on_db_def split: prod.splits sum.splits)

lemma on_db_at_frame [simp]:
  "dm_recv_bcast (snd (on_db_at w f s)) = dm_recv_bcast s" "dm_conns (snd (on_db_at w f s)) = dm_conns s"
  "dm_inbound_tasks (snd (on_db_at w f s)) = dm_inbound_tasks s" "dm_wires (snd (on_db_at w f s)) = dm_wires s"
  "dm_inline_errs (snd (on_db_at w f s)) = dm_inline_errs s" "dm_agent_bcast (snd (on_db_at w f s)) = dm_agent_bcast s"
  "dm_secret (snd (on_db_at w f s)) = dm_secret s" "dm_children (snd (on_db_at w f s)) = dm_children s"
  by (simp_all add: on_db_at_def)

lemma on_db_at_db [simp]: "dm_db (snd (on_db_at w f s)) = snd (f (w_ms w (dm_tick s)) (dm_db s))"
  by (simp add: on_db_at_def)

lemma on_db_fst:
  "fst (on_db f s) = (case fst (f (dm_db s)) of Inl e \<Rightarrow> Inl (DStore e) | Inr a \<Rightarrow> Inr a)"
  by (simp add: on_db_def split: prod.splits sum.splits)

text \<open>The key under which an incoming frame is recorded.\<close>

definition frame_key :: "crates \<Rightarrow> NodeId \<Rightarrow> string \<Rightarrow> MessageFrame \<Rightarrow> (bytes \<times> bytes) \<times> int" where
  "frame_key c remote channel mf = ((nid remote, channel_id c channel), as_i64 (mf_seq mf))"

definition stored_keys :: "'z daemon_scheme \<Rightarrow> ((bytes \<times> bytes) \<times> int) set" where
  "stored_keys s = msg_key ` set (db_messages (dm_db s))"

lemma inbound_frame_cases:
  assumes "db_ok (dm_db s)"
  shows "dm_recv_bcast (inbound_frame c w remote nm ch mf s) =
           (if frame_key c remote ch mf \<in> stored_keys s then dm_recv_bcast s
            else dm_recv_bcast s @ [EvRecvMsg remote nm ch (mf_payload mf) (mf_ts_ms mf)])"
    and "stored_keys (inbound_frame c w remote nm ch mf s) = insert (frame_key c remote ch mf) (stored_keys s)"
    and "dm_db (inbound_frame c w remote nm ch mf s) =
           snd (inbox_record c (w_ms w (dm_tick s)) remote ch (mf_seq mf) (mf_payload mf) (mf_ts_ms mf) (dm_db s))"
proof -
  let ?r = "inbox_rec c (w_ms w (dm_tick s)) remote ch (mf_seq mf) (mf_payload mf) (mf_ts_ms mf)"
  let ?i = "inbox_record c (w_ms w (dm_tick s)) remote ch (mf_seq mf) (mf_payload mf) (mf_ts_ms mf) (dm_db s)"
  have key: "msg_key ?r = frame_key c remote ch mf" by (simp add: msg_key_def msg_scope_def inbox_rec_def frame_key_def)
  have ex: "list_ex (msg_conflict ?r) (db_messages (dm_db s)) \<longleftrightarrow> frame_key c remote ch mf \<in> stored_keys s"
    unfolding key [symmetric] by (auto simp: list_ex_iff msg_conflict_key stored_keys_def)
  have i: "?i = (if frame_key c remote ch mf \<in> stored_keys s then (Inr False, dm_db s)
      else (Inr True, (dm_db s)\<lparr>db_messages := db_messages (dm_db s) @ [?r]\<rparr>))"
    using assms by (simp add: inbox_record_def call_ok sql_insert_or_ignore_def ex)
  show "dm_recv_bcast (inbound_frame c w remote nm ch mf s) =
           (if frame_key c remote ch mf \<in> stored_keys s then dm_recv_bcast s
            else dm_recv_bcast s @ [EvRecvMsg remote nm ch (mf_payload mf) (mf_ts_ms mf)])"
    by (simp add: inbound_frame_def on_db_at_def on_db_def i)
  show db: "dm_db (inbound_frame c w remote nm ch mf s) = snd ?i"
    by (simp add: inbound_frame_def on_db_at_def on_db_def split: prod.splits sum.splits)
  show "stored_keys (inbound_frame c w remote nm ch mf s) = insert (frame_key c remote ch mf) (stored_keys s)"
    unfolding stored_keys_def db i by (auto simp: key stored_keys_def)
qed

text \<open>One incoming frame, as some inbound task hands it over.\<close>

record Inbound =
  in_remote :: NodeId
  in_name :: "string option"
  in_channel :: string
  in_frame :: MessageFrame

definition in_key :: "crates \<Rightarrow> Inbound \<Rightarrow> (bytes \<times> bytes) \<times> int" where
  "in_key c x = frame_key c (in_remote x) (in_channel x) (in_frame x)"

definition in_event :: "Inbound \<Rightarrow> IpcEvent" where
  "in_event x = EvRecvMsg (in_remote x) (in_name x) (in_channel x) (mf_payload (in_frame x)) (mf_ts_ms (in_frame x))"

definition inbound_all :: "crates \<Rightarrow> world \<Rightarrow> Inbound list \<Rightarrow> 'z daemon_scheme \<Rightarrow> 'z daemon_scheme" where
  "inbound_all c w xs s = fold (\<lambda>x. inbound_frame c w (in_remote x) (in_name x) (in_channel x) (in_frame x)) xs s"

text \<open>The specification: of each key not yet known, the first occurrence.\<close>

fun first_new :: "crates \<Rightarrow> ((bytes \<times> bytes) \<times> int) set \<Rightarrow> Inbound list \<Rightarrow> Inbound list" where
  "first_new c known [] = []"
| "first_new c known (x # xs) =
     (if in_key c x \<in> known then first_new c known xs else x # first_new c (insert (in_key c x) known) xs)"

lemma first_new_keys:
  "distinct (map (in_key c) (first_new c known xs)) \<and> set (map (in_key c) (first_new c known xs)) = in_key c ` set xs - known
   \<and> subseq (first_new c known xs) xs"
proof (induction xs arbitrary: known)
  case Nil
  then show ?case by simp
next
  case (Cons x xs)
  from Cons.IH [of known] Cons.IH [of "insert (in_key c x) known"] show ?case by auto
qed

lemma inbound_frame_inv:
  assumes "blake3_laws c" "wf_nodeid remote" "db_inv (dm_db s)"
  shows "db_inv (dm_db (inbound_frame c w remote nm ch mf s))"
  using store_step_inv [OF st_inbox_record [OF assms(2)] assms(1,3)]
  by (simp add: inbound_frame_cases(3) [OF db_invD(1) [OF assms(3)]])

lemma inbound_all_spec:
  assumes "blake3_laws c" "\<forall>x\<in>set xs. wf_nodeid (in_remote x)" "db_inv (dm_db s)"
  shows "dm_recv_bcast (inbound_all c w xs s) = dm_recv_bcast s @ map in_event (first_new c (stored_keys s) xs)
    \<and> stored_keys (inbound_all c w xs s) = stored_keys s \<union> in_key c ` set xs
    \<and> db_inv (dm_db (inbound_all c w xs s))"
  using assms(2,3)
proof (induction xs arbitrary: s)
  case Nil
  then show ?case by (simp add: inbound_all_def)
next
  case (Cons x xs)
  let ?s = "inbound_frame c w (in_remote x) (in_name x) (in_channel x) (in_frame x) s"
  have inv: "db_inv (dm_db ?s)" using Cons.prems by (intro inbound_frame_inv [OF assms(1)]) simp_all
  note f = inbound_frame_cases [OF db_invD(1) [OF Cons.prems(2)], of c w "in_remote x" "in_name x" "in_channel x" "in_frame x"]
  have "inbound_all c w (x # xs) s = inbound_all c w xs ?s" by (simp add: inbound_all_def)
  moreover have "insert (in_key c x) (stored_keys s) = stored_keys s" if "in_key c x \<in> stored_keys s"
    using that by blast
  ultimately show ?case
    using Cons.IH [OF _ inv] Cons.prems(1) by (auto simp: f in_key_def in_event_def)
qed

section \<open>Properties\<close>

text \<open>
  C23 Incoming messages are published once each.  However the daemon's inbound tasks interleave, and
  however often a sender repeats itself, what subscribers are sent is exactly the first occurrence of
  every message not stored before, in order of arrival: no message is published twice, none that
  arrives is lost, and afterwards each is stored.
\<close>

theorem inbound_published_once:
  assumes "blake3_laws c" and "\<forall>x\<in>set xs. wf_nodeid (in_remote x)" and "db_inv (dm_db s)"
  shows "\<exists>ys. dm_recv_bcast (inbound_all c w xs s) = dm_recv_bcast s @ map in_event ys
    \<and> subseq ys xs \<and> distinct (map (in_key c) ys) \<and> in_key c ` set ys = in_key c ` set xs - stored_keys s
    \<and> stored_keys (inbound_all c w xs s) = stored_keys s \<union> in_key c ` set xs"
  using inbound_all_spec [OF assms, of w] first_new_keys [of c "stored_keys s" xs]
  by (intro exI [where x = "first_new c (stored_keys s) xs"]) simp

text \<open>An empty daemon, and a world in which every reading is its index and no dial succeeds.\<close>

definition sample_world :: world where
  "sample_world = \<lparr>w_ms = of_nat, w_secs = of_nat, w_rand = (\<lambda>i. replicate 32 (of_nat i)),
     w_dial = (\<lambda>i n t. None), w_msg_plan = (\<lambda>x. x), w_token_plan = (\<lambda>x. x), w_bus_plan = (\<lambda>x. x)\<rparr>"

definition sample_daemon :: daemon where
  "sample_daemon = (daemon_start (replicate 32 1) empty_file)\<lparr>dm_db := sample_db\<rparr>"

definition sample_inbound :: "u64 \<Rightarrow> Inbound" where
  "sample_inbound n = \<lparr>in_remote = sample_node 2, in_name = None, in_channel = ''a'', in_frame = sample_frame n\<rparr>"

lemma inbound_published_once_witness:
  "\<exists>ys. dm_recv_bcast (inbound_all sample_crates sample_world [sample_inbound 1, sample_inbound 1] sample_daemon)
       = map in_event ys \<and> length ys \<le> 1"
proof -
  let ?xs = "[sample_inbound 1, sample_inbound 1]"
  have "\<forall>x\<in>set ?xs. wf_nodeid (in_remote x)" "db_inv (dm_db sample_daemon)"
    by (simp_all add: sample_inbound_def sample_daemon_def)
  from inbound_published_once [OF sample_blake3 this, of sample_world] obtain ys where
    ys: "dm_recv_bcast (inbound_all sample_crates sample_world ?xs sample_daemon) = dm_recv_bcast sample_daemon @ map in_event ys"
    "distinct (map (in_key sample_crates) ys)" "in_key sample_crates ` set ys \<subseteq> {in_key sample_crates (sample_inbound 1)}"
    by auto
  have "length ys = card (set (map (in_key sample_crates) ys))" using distinct_card [OF ys(2)] by simp
  also have "\<dots> \<le> 1" using card_mono [OF _ ys(3)] by simp
  finally show ?thesis using ys(1) by (auto simp: sample_daemon_def daemon_start_def)
qed

text \<open>The token check of a stream depends on the token table only.\<close>

lemma verify_token_cong:
  "db_tokens d = db_tokens e \<Longrightarrow> db_alive d = db_alive e \<Longrightarrow> db_tables d = db_tables e \<Longrightarrow>
   verify_token c now t us peer k d = verify_token c now t us peer k e"
proof -
  assume "db_tokens d = db_tokens e" "db_alive d = db_alive e" "db_tables d = db_tables e"
  then have "fst (token_find c i d) = fst (token_find c i e)" for i
    by (simp add: token_find_def call_def split: option.splits sum.splits)
  then have "validate_claims c now cl k d = validate_claims c now cl k e" for cl
    by (simp only: validate_claims_def)
  then show ?thesis by (simp only: verify_token_def)
qed

lemma touch_seen_keeps [simp]:
  "db_tables (snd (peer_touch_seen now n d)) = db_tables d" "db_alive (snd (peer_touch_seen now n d)) = db_alive d"
  by (simp_all add: peer_touch_seen_def call_def)

lemma accept_streams_Cons:
  "accept_streams c w remote (r # rs) s =
     (case accept_streams c w remote [r] s of (Inl err, t) \<Rightarrow> (Inl err, t) | (Inr _, t) \<Rightarrow> accept_streams c w remote rs t)"
  by (simp add: Let_def split: prod.splits sum.splits)

lemma accept_stream_keeps:
  assumes "accept_streams c w remote [r] s = (res, s')"
  shows "dm_secret s' = dm_secret s" "db_tokens (dm_db s') = db_tokens (dm_db s)" "db_alive (dm_db s') = db_alive (dm_db s)"
    "db_tables (dm_db s') = db_tables (dm_db s)" "db_messages (dm_db s') = db_messages (dm_db s)" "dm_recv_bcast s' = dm_recv_bcast s"
  using assms by (auto simp: Let_def spawn_inbound_msg_def send_inline_err_def split: prod.splits sum.splits)

lemma accept_stream_task:
  assumes "accept_streams c w remote [r] s = (res, s')"
  shows "\<exists>new. dm_inbound_tasks s' = dm_inbound_tasks s @ new \<and> (\<forall>t\<in>set new. it_remote t = remote
    \<and> (\<exists>tok now. read_stream_open c r = (Inr (StreamMsg tok (it_channel t)), it_recv t)
         \<and> is_ok (verify_token c now tok (local_nodeid c s) remote Msg (dm_db s))))"
proof -
  obtain x recv where x: "read_stream_open c r = (x, recv)" by fastforce
  show ?thesis
  proof (cases x)
    case (Inl e)
    with assms x show ?thesis by simp
  next
    case (Inr so)
    obtain tok ch where so: "so = StreamMsg tok ch" by (cases so)
    let ?now = "w_secs w (dm_tick s)"
    show ?thesis
    proof (cases "verify_token c ?now tok (local_nodeid c s) remote Msg (dm_db s)")
      case (Inl e)
      with assms x Inr so show ?thesis by (auto simp: send_inline_err_def)
    next
      case ok: (Inr cl)
      with assms x Inr so obtain nm where "dm_inbound_tasks s' = dm_inbound_tasks s @
          [\<lparr>it_remote = remote, it_from_name = nm, it_channel = ch, it_recv = recv\<rparr>]"
        by (auto simp: Let_def spawn_inbound_msg_def)
      with ok x Inr so show ?thesis by (auto intro!: exI [where x = tok] exI [where x = ?now])
    qed
  qed
qed

lemma accept_streams_authorised:
  assumes "accept_streams c w remote rs s = (res, s')"
  shows "(\<exists>new. dm_inbound_tasks s' = dm_inbound_tasks s @ new
    \<and> (\<forall>t\<in>set new. it_remote t = remote \<and> (\<exists>r\<in>set rs. \<exists>tok now. read_stream_open c r = (Inr (StreamMsg tok (it_channel t)), it_recv t)
         \<and> is_ok (verify_token c now tok (local_nodeid c s) remote Msg (dm_db s)))))
    \<and> db_messages (dm_db s') = db_messages (dm_db s) \<and> dm_recv_bcast s' = dm_recv_bcast s"
  using assms
proof (induction rs arbitrary: s)
  case Nil
  then show ?case by simp
next
  case (Cons r rs)
  obtain x u where x: "accept_streams c w remote [r] s = (x, u)" by fastforce
  note all = Cons.prems [unfolded accept_streams_Cons [of c w remote r rs] x] and k = accept_stream_keeps [OF x]
  have same: "verify_token c now t (local_nodeid c u) remote Msg (dm_db u) = verify_token c now t (local_nodeid c s) remote Msg (dm_db s)" for now t
    using k verify_token_cong [of "dm_db u" "dm_db s"] by (simp add: local_nodeid_def)
  obtain new where new: "dm_inbound_tasks u = dm_inbound_tasks s @ new" "\<forall>t\<in>set new. it_remote t = remote
      \<and> (\<exists>tok now. read_stream_open c r = (Inr (StreamMsg tok (it_channel t)), it_recv t)
           \<and> is_ok (verify_token c now tok (local_nodeid c s) remote Msg (dm_db s)))" using accept_stream_task [OF x] by blast
  show ?case
  proof (cases x)
    case (Inl e)
    with all k new show ?thesis by auto
  next
    case (Inr v)
    with all have "accept_streams c w remote rs u = (res, s')" by simp
    from Cons.IH [OF this] new k(5,6) show ?thesis unfolding same by (fastforce simp: new(1))
  qed
qed



text \<open>
  The bus keeps what it announces.  When \<open>bus_enqueue\<close> succeeds exactly one event is published and
  the database holds the row it announces, under the same number, time, parties and payload and with
  a kind that reads back as the announced one; when it fails nothing is published or stored.
\<close>

lemma bus_enqueue_stored:
  assumes "db_inv (dm_db s)"
  shows "case bus_enqueue w g sess f t k pl s of
      (Inr sq, s') \<Rightarrow>
        (\<exists>ev row. dm_agent_bcast s' = dm_agent_bcast s @ [ev] \<and> row \<in> set (db_agent_messages (dm_db s'))
           \<and> be_seq ev = sq \<and> am_seq row = sq \<and> am_scope row = (be_group ev, be_session ev) \<and> am_scope row = (g, sess)
           \<and> am_from row = be_from_agent ev \<and> am_to row = be_to_agent ev \<and> am_payload row = be_payload ev
           \<and> be_to_agent ev = t \<and> be_payload ev = pl \<and> kind_from_str (am_kind row) = be_kind ev \<and> be_kind ev = k
           \<and> am_enqueued_at_ms row = be_ts_ms ev \<and> am_consumed_at_ms row = None)
    | (Inl e, s') \<Rightarrow> dm_agent_bcast s' = dm_agent_bcast s \<and> dm_db s' = dm_db s"
proof -
  note inv = db_invD [OF assms]
  let ?now = "w_ms w (dm_tick s)"
  obtain r d where e: "agent_msg_enqueue ?now g sess f t (kind_to_str k) pl (dm_db s) = (r, d)" by fastforce
  show ?thesis
  proof (cases r)
    case (Inl x)
    with e inv(1) have "d = dm_db s"
      by (auto simp: agent_msg_enqueue_def call_ok Let_def split: option.splits if_splits)
    with e Inl show ?thesis by (simp add: bus_enqueue_def and_then_def on_db_at_def on_db_def)
  next
    case (Inr row)
    note m = agent_msg_enqueue_mem [OF inv(1) e [unfolded Inr]]
    have "bus_enqueue w g sess f t k pl s = (Inr (am_seq row), s\<lparr>dm_tick := Suc (dm_tick s), dm_db := d,
        dm_agent_bcast := dm_agent_bcast s @ [\<lparr>be_group = g, be_session = sess, be_from_agent = f, be_to_agent = t,
          be_kind = k, be_payload = pl, be_ts_ms = am_enqueued_at_ms row, be_seq = am_seq row\<rparr>]\<rparr>)"
      using e Inr by (simp add: bus_enqueue_def and_then_def on_db_at_def on_db_def)
    with m show ?thesis by (auto intro!: exI [where x = row])
  qed
qed

end
