(* ===== verification/Wt_Delivery.thy ===== *)
theory Wt_Delivery
  imports Wt_Daemon
begin

text \<open>
  Per-peer delivery of \<^verbatim>\<open>src/crates/wt-daemon/src/state.rs\<close>: opening outgoing streams, draining a
  peer's outbox slice in batches, the delivery task with its wake-ups, and the lazily started tasks.
  A stream a task owns is an index into \<open>dm_wires\<close>, which keeps the bytes written to every stream
  ever opened.  \<open>drain_peer\<close> loops until a query finds nothing pending; its model is a partial
  function, and that it returns is proved.
\<close>

section \<open>Opening a stream\<close>

definition dial_stream ::
  "crates \<Rightarrow> world \<Rightarrow> NodeId \<Rightarrow> string \<Rightarrow> PeerRow \<Rightarrow> SignedToken \<Rightarrow> AddrTicket option \<Rightarrow> 'z daemon_scheme
     \<Rightarrow> (dm_error + nat) \<times> 'z daemon_scheme" where
  "dial_stream c w target channel peer stok ticket s =
     (let s1 = s\<lparr>dm_dials := Suc (dm_dials s)\<rparr> in
      case w_dial w (dm_dials s) target ticket of
        None \<Rightarrow> (Inl DConnect, s1)
      | Some send \<Rightarrow>
          (case write_stream_open c send (StreamMsg stok channel) of
             (Inl e, _) \<Rightarrow> (Inl (DMsg e), s1)
           | (Inr _, send') \<Rightarrow>
               (let new = \<lparr>pl_nodeid = target, pl_name = pr_name peer, pl_since_ms = w_ms w (dm_tick s1),
                           pl_via_relay = False, pl_stream_labels = [stream_label channel]\<rparr>;
                    tick = (if map_of (dm_conns s1) target = None then Suc (dm_tick s1) else dm_tick s1)
                in (Inr (length (dm_wires s1)),
                    s1\<lparr>dm_conns := conns_note target (stream_label channel) new (dm_conns s1),
                       dm_tick := tick,
                       dm_wires := dm_wires s1 @
                         [\<lparr>wr_target = target,
                           wr_dialled = (case ticket of Some t \<Rightarrow> tk_nodeid t | None \<Rightarrow> target),
                           wr_channel = channel, wr_stream = send'\<rparr>]\<rparr>))))"

definition open_outbound_stream ::
  "crates \<Rightarrow> world \<Rightarrow> NodeId \<Rightarrow> string \<Rightarrow> 'z daemon_scheme \<Rightarrow> (dm_error + nat) \<times> 'z daemon_scheme" where
  "open_outbound_stream c w target channel =
     and_then (on_db (peer_get (PsNodeId target))) (\<lambda>p s.
       case p of
         None \<Rightarrow> (Inl DPeerNotInRegistry, s)
       | Some peer \<Rightarrow>
           and_then (on_db (find_token_with_cap c (w_token_plan w) target (local_nodeid c s) Msg (w_secs w (dm_tick s))))
             (\<lambda>t s. case t of
                None \<Rightarrow> (Inl (DNoToken target), s)
              | Some tok \<Rightarrow>
                  (case signed_dec c (tr_raw tok) of
                     None \<Rightarrow> (Inl DDecodeToken, s)
                   | Some stok \<Rightarrow>
                       (case pr_addr_blob peer of
                          None \<Rightarrow> dial_stream c w target channel peer stok None s
                        | Some blob \<Rightarrow>
                            (case ticket_dec c blob of
                               None \<Rightarrow> (Inl DDecodeTicket, s)
                             | Some ticket \<Rightarrow> dial_stream c w target channel peer stok (Some ticket) s))))
             (s\<lparr>dm_tick := Suc (dm_tick s)\<rparr>))"

section \<open>Draining\<close>

definition DELIVERY_BATCH :: nat where
  "DELIVERY_BATCH = 64"

text \<open>The streams a delivery task owns, by channel.\<close>

type_synonym streams = "(string \<times> nat) list"

definition frame_of :: "MessageRow \<Rightarrow> MessageFrame" where
  "frame_of row = \<lparr>mf_seq = mr_seq row, mf_ts_ms = mr_enqueued_at_ms row, mf_payload = mr_payload row\<rparr>"

definition set_stream :: "nat \<Rightarrow> SendStream \<Rightarrow> 'z daemon_scheme \<Rightarrow> 'z daemon_scheme" where
  "set_stream i send s = s\<lparr>dm_wires := (dm_wires s)[i := (dm_wires s ! i)\<lparr>wr_stream := send\<rparr>]\<rparr>"

definition get_stream ::
  "crates \<Rightarrow> world \<Rightarrow> NodeId \<Rightarrow> string \<Rightarrow> streams \<times> 'z daemon_scheme \<Rightarrow> (dm_error + nat) \<times> streams \<times> 'z daemon_scheme" where
  "get_stream c w peer channel z =
     (case z of (st, s) \<Rightarrow>
        (case map_of st channel of
           Some i \<Rightarrow> (Inr i, (st, s))
         | None \<Rightarrow>
             (case open_outbound_stream c w peer channel s of
                (Inl e, s') \<Rightarrow> (Inl e, (st, s'))
              | (Inr i, s') \<Rightarrow> (Inr i, (AList.update channel i st, s')))))"

definition deliver_row ::
  "crates \<Rightarrow> world \<Rightarrow> NodeId \<Rightarrow> MessageRow \<Rightarrow> streams \<times> 'z daemon_scheme \<Rightarrow> (dm_error + unit) \<times> streams \<times> 'z daemon_scheme" where
  "deliver_row c w peer row =
     and_then (get_stream c w peer (mr_channel row)) (\<lambda>i (st, s).
       case frame_enc c (frame_of row) of
         None \<Rightarrow> (Inl DEncodeFrame, (st, s))
       | Some buf \<Rightarrow>
           (case write_cbor_frame (wr_stream (dm_wires s ! i)) buf of
              (Inl e, send) \<Rightarrow>
                (Inl (DWriteFrame e), (AList.delete (mr_channel row) st,
                   forget_outbound_stream peer (mr_channel row) (set_stream i send s)))
            | (Inr _, send) \<Rightarrow>
                (case on_db_at w (\<lambda>now. outbox_mark_delivered now (mr_sender row) (mr_channel_id row) (mr_seq row))
                        (set_stream i send s) of
                   (Inl e, s') \<Rightarrow> (Inl e, (st, s'))
                 | (Inr _, s') \<Rightarrow> (Inr (), (st, s')))))"

fun deliver_rows ::
  "crates \<Rightarrow> world \<Rightarrow> NodeId \<Rightarrow> MessageRow list \<Rightarrow> streams \<times> 'z daemon_scheme \<Rightarrow> (dm_error + unit) \<times> streams \<times> 'z daemon_scheme" where
  "deliver_rows c w peer [] z = (Inr (), z)"
| "deliver_rows c w peer (row # rows) z =
     (case deliver_row c w peer row z of
        (Inl e, z') \<Rightarrow> (Inl e, z')
      | (Inr _, z') \<Rightarrow> deliver_rows c w peer rows z')"

text \<open>\<open>None\<close> would be a drain that never returns.\<close>

partial_function (option) drain_peer ::
  "crates \<Rightarrow> world \<Rightarrow> NodeId \<Rightarrow> streams \<times> 'z daemon_scheme \<Rightarrow> ((dm_error + unit) \<times> streams \<times> 'z daemon_scheme) option" where
  "drain_peer c w peer z =
     (case on_db (outbox_pending_for_peer (w_msg_plan w) peer DELIVERY_BATCH) (snd z) of
        (Inl e, s) \<Rightarrow> Some (Inl e, (fst z, s))
      | (Inr rows, s) \<Rightarrow>
          (if rows = [] then Some (Inr (), (fst z, s))
           else (case deliver_rows c w peer rows (fst z, s) of
                   (Inl e, z') \<Rightarrow> Some (Inl e, z')
                 | (Inr _, z') \<Rightarrow> drain_peer c w peer z')))"

section \<open>The delivery task\<close>

datatype TaskEvent = WakeQueued | WakersDropped | RetryTimer | ShutdownSignal

text \<open>
  The task drains first, then waits; the list is what it finds when it waits, in order.  At the end
  of the list it is still waiting.  The result says whether the task has ended.
\<close>

fun delivery_task ::
  "crates \<Rightarrow> world \<Rightarrow> NodeId \<Rightarrow> TaskEvent list \<Rightarrow> streams \<times> 'z daemon_scheme \<Rightarrow> (bool \<times> streams \<times> 'z daemon_scheme) option" where
  "delivery_task c w peer evs z =
     (case drain_peer c w peer z of
        None \<Rightarrow> None
      | Some (r, (st, s)) \<Rightarrow>
          (let st' = (case r of Inl _ \<Rightarrow> [] | Inr _ \<Rightarrow> st) in
           case evs of
             [] \<Rightarrow> Some (False, (st', s))
           | ev # evs' \<Rightarrow>
               if ev = WakersDropped \<or> ev = ShutdownSignal
               then Some (True, (st', s\<lparr>dm_wakers := AList.delete peer (dm_wakers s)\<rparr>))
               else delivery_task c w peer evs' (st', s)))"

text \<open>Wake the task of a peer, or start one.\<close>

definition notify_peer :: "NodeId \<Rightarrow> 'z daemon_scheme \<Rightarrow> 'z daemon_scheme" where
  "notify_peer peer s =
     (let start = (\<lambda>wakers. s\<lparr>dm_wakers := AList.update peer \<lparr>wk_queued = False, wk_open = True\<rparr> wakers,
                              dm_delivery_tasks := dm_delivery_tasks s @ [peer]\<rparr>) in
      case map_of (dm_wakers s) peer of
        Some wk \<Rightarrow>
          if wk_open wk then s\<lparr>dm_wakers := AList.update peer (wk\<lparr>wk_queued := True\<rparr>) (dm_wakers s)\<rparr>
          else start (AList.delete peer (dm_wakers s))
      | None \<Rightarrow> start (dm_wakers s))"

definition resume_delivery :: "world \<Rightarrow> 'z daemon_scheme \<Rightarrow> 'z daemon_scheme" where
  "resume_delivery w s =
     (case on_db (outbox_pending_peers (w_msg_plan w)) s of
        (Inr peers, s') \<Rightarrow> fold notify_peer peers s'
      | (Inl _, s') \<Rightarrow> s')"

section \<open>What is on the wire\<close>

text \<open>A stream that carries its opening frame, the frames \<open>fs\<close>, and then \<open>rest\<close>.\<close>

definition wire_holds :: "crates \<Rightarrow> Wire \<Rightarrow> MessageFrame list \<Rightarrow> bytes \<Rightarrow> bool" where
  "wire_holds c wr fs rest \<longleftrightarrow> list_all (encodable c) fs \<and>
     (\<exists>tok ob. open_enc c (StreamMsg tok (wr_channel wr)) = Some ob \<and> fits ob
        \<and> ss_out (wr_stream wr) = frame_bytes ob @ concat (map (mf_wire c) fs) @ rest)"

text \<open>What the peer at the other end decodes once the bytes have arrived.\<close>

definition received :: "crates \<Rightarrow> Wire \<Rightarrow> MessageFrame list" where
  "received c wr =
     (case read_stream_open c \<lparr>rs_in = ss_out (wr_stream wr), rs_end = Finished\<rparr> of
        (Inl _, _) \<Rightarrow> []
      | (Inr _, recv) \<Rightarrow> fst (run_recv_loop c None recv))"

lemma run_recv_loop_frames:
  assumes "cbor_laws c" "list_all (encodable c) fs"
  shows "run_recv_loop c None \<lparr>rs_in = concat (map (mf_wire c) fs) @ rest, rs_end = e\<rparr>
     = (case run_recv_loop c None \<lparr>rs_in = rest, rs_end = e\<rparr> of (gs, r) \<Rightarrow> (fs @ gs, r))"
  using assms(2)
proof (induction fs)
  case Nil
  then show ?case by (simp split: prod.splits)
next
  case (Cons f fs)
  then show ?case
    using run_recv_loop_frame [OF assms(1), of f None "concat (map (mf_wire c) fs) @ rest" e]
    by (simp split: prod.splits)
qed

lemma received_holds:
  assumes "cbor_laws c" "wire_holds c wr fs rest"
  shows "received c wr = fs @ fst (run_recv_loop c None \<lparr>rs_in = rest, rs_end = Finished\<rparr>)"
proof -
  from assms(2) obtain tok ob where w: "open_enc c (StreamMsg tok (wr_channel wr)) = Some ob" "fits ob"
    "ss_out (wr_stream wr) = frame_bytes ob @ concat (map (mf_wire c) fs) @ rest" "list_all (encodable c) fs"
    by (auto simp: wire_holds_def)
  from w(1,2) have "read_stream_open c \<lparr>rs_in = ss_out (wr_stream wr), rs_end = Finished\<rparr>
      = (Inr (StreamMsg tok (wr_channel wr)), \<lparr>rs_in = concat (map (mf_wire c) fs) @ rest, rs_end = Finished\<rparr>)"
    by (simp add: w(3) read_stream_open_def read_cbor_frame_frame cbor_open [OF assms(1)])
  then show ?thesis by (simp add: received_def run_recv_loop_frames [OF assms(1) w(4)] split: prod.splits)
qed

lemma received_clean:
  assumes "cbor_laws c" "wire_holds c wr fs []"
  shows "received c wr = fs"
  using received_holds [OF assms] by (simp add: run_recv_loop.simps read_cbor_frame_empty)

text \<open>The message \<open>mf\<close> has gone out whole to \<open>peer\<close> on \<open>ch\<close>.\<close>

definition carried :: "crates \<Rightarrow> NodeId \<Rightarrow> string \<Rightarrow> MessageFrame \<Rightarrow> Wire list \<Rightarrow> bool" where
  "carried c peer ch mf wires \<longleftrightarrow>
     (\<exists>wr\<in>set wires. wr_target wr = peer \<and> wr_channel wr = ch \<and> (\<exists>fs rest. wire_holds c wr fs rest \<and> mf \<in> set fs))"

lemma carried_received:
  assumes "cbor_laws c" "carried c peer ch mf wires"
  shows "\<exists>wr\<in>set wires. wr_target wr = peer \<and> wr_channel wr = ch \<and> mf \<in> set (received c wr)"
  using assms received_holds [OF assms(1)] unfolding carried_def by fastforce

text \<open>Streams are only appended to, and only new ones are added.\<close>

definition wires_extend :: "Wire list \<Rightarrow> Wire list \<Rightarrow> bool" where
  "wires_extend ws ws' \<longleftrightarrow> length ws \<le> length ws' \<and> (\<forall>i<length ws.
     wr_target (ws' ! i) = wr_target (ws ! i) \<and> wr_channel (ws' ! i) = wr_channel (ws ! i)
     \<and> prefix (ss_out (wr_stream (ws ! i))) (ss_out (wr_stream (ws' ! i))))"

lemma wires_extend_refl [simp]: "wires_extend ws ws"
  by (simp add: wires_extend_def)

lemma wires_extend_trans: "wires_extend a b \<Longrightarrow> wires_extend b d \<Longrightarrow> wires_extend a d"
  by (auto simp: wires_extend_def) (metis less_le_trans prefix_order.trans)+

lemma wires_extend_snoc: "wires_extend ws (ws @ [wr])"
  by (simp add: wires_extend_def nth_append)

lemma wires_extend_update:
  "i < length ws \<Longrightarrow> prefix (ss_out (wr_stream (ws ! i))) (ss_out send) \<Longrightarrow>
   wires_extend ws (ws[i := (ws ! i)\<lparr>wr_stream := send\<rparr>])"
  by (auto simp: wires_extend_def nth_list_update)

lemma carried_extend:
  assumes "carried c peer ch mf ws" "wires_extend ws ws'"
  shows "carried c peer ch mf ws'"
proof -
  from assms(1) obtain wr fs rest where wr: "wr \<in> set ws" "wr_target wr = peer" "wr_channel wr = ch"
    "wire_holds c wr fs rest" "mf \<in> set fs" by (auto simp: carried_def)
  from wr(1) obtain j where "j < length ws" "ws ! j = wr" by (auto simp: in_set_conv_nth)
  with wr obtain i where i: "i < length ws" "wr_target (ws ! i) = peer" "wr_channel (ws ! i) = ch"
    "wire_holds c (ws ! i) fs rest" "mf \<in> set fs" by blast
  from assms(2) i obtain more where e: "i < length ws'" "wr_target (ws' ! i) = peer" "wr_channel (ws' ! i) = ch"
    "ss_out (wr_stream (ws' ! i)) = ss_out (wr_stream (ws ! i)) @ more"
    by (auto simp: wires_extend_def prefix_def)
  have "wire_holds c (ws' ! i) fs (rest @ more)" using i(3,4) e(3,4) by (auto simp: wire_holds_def)
  with e i(5) show ?thesis unfolding carried_def by (intro bexI [where x = "ws' ! i"]) auto
qed

section \<open>Lemmas: writing\<close>

lemma write_all_out: "write_all s bs = (ok, s') \<Longrightarrow> prefix (ss_out s) (ss_out s') \<and> (ok \<longrightarrow> ss_out s' = ss_out s @ bs)"
  by (auto simp: write_all_def split: option.splits if_splits)

lemma write_cbor_frame_out:
  assumes "write_cbor_frame s body = (r, s')"
  shows "prefix (ss_out s) (ss_out s')" and "r = Inr () \<Longrightarrow> fits body \<and> ss_out s' = ss_out s @ frame_bytes body"
proof -
  show "prefix (ss_out s) (ss_out s')"
    using assms by (auto simp: write_cbor_frame_def Let_def split: if_splits prod.splits bool.splits
        dest!: write_all_out intro: prefix_order.trans)
  assume "r = Inr ()"
  with assms show "fits body \<and> ss_out s' = ss_out s @ frame_bytes body"
    by (auto simp: write_cbor_frame_def Let_def fits_def frame_bytes_def split: if_splits prod.splits bool.splits
        dest!: write_all_out)
qed

lemma frame_written:
  assumes "frame_enc c mf = Some buf" "write_cbor_frame (wr_stream wr) buf = (Inr (), send)" "wire_holds c wr fs []"
  shows "wire_holds c (wr\<lparr>wr_stream := send\<rparr>) (fs @ [mf]) []"
  using assms(1,3) write_cbor_frame_out(2) [OF assms(2)]
  by (auto simp: wire_holds_def encodable_def mf_wire_def)

text \<open>New streams start empty.\<close>

definition fresh_dials :: "world \<Rightarrow> bool" where
  "fresh_dials w \<longleftrightarrow> (\<forall>i n t snd. w_dial w i n t = Some snd \<longrightarrow> ss_out snd = [])"

lemma on_db_read:
  assumes "snd (f (dm_db s)) = dm_db s"
  shows "on_db f s = (case fst (f (dm_db s)) of Inl e \<Rightarrow> Inl (DStore e) | Inr a \<Rightarrow> Inr a, s)"
  using assms by (auto simp: on_db_def split: prod.splits sum.splits)

lemma peer_get_read: "snd (peer_get sel d) = d"
  by (auto simp: peer_get_def call_def split: option.splits sum.splits)

lemma find_token_read: "snd (find_token_with_cap c plan i s k now d) = d"
  by (simp add: find_token_with_cap_def call_def)

lemma pending_for_peer_read: "snd (outbox_pending_for_peer plan peer n d) = d"
  by (simp add: outbox_pending_for_peer_def call_def)

lemma dial_stream_effect:
  assumes "dial_stream c w target ch p tok tk s = (res, s')" and "fresh_dials w"
  shows "dm_db s' = dm_db s \<and> wires_extend (dm_wires s) (dm_wires s')
    \<and> (\<forall>i. res = Inr i \<longrightarrow> i = length (dm_wires s) \<and> (\<exists>wr. dm_wires s' = dm_wires s @ [wr] \<and> wr_target wr = target
         \<and> wr_channel wr = ch \<and> wire_holds c wr [] []))"
proof (cases "w_dial w (dm_dials s) target tk")
  case None
  with assms(1) show ?thesis by (auto simp: dial_stream_def)
next
  case (Some snd0)
  with assms(2) have e: "ss_out snd0 = []" by (auto simp: fresh_dials_def)
  obtain x snd1 where x: "write_stream_open c snd0 (StreamMsg tok ch) = (x, snd1)" by fastforce
  show ?thesis
  proof (cases x)
    case (Inl err)
    with assms(1) Some x show ?thesis by (auto simp: dial_stream_def)
  next
    case (Inr u)
    then obtain ob where ob: "open_enc c (StreamMsg tok ch) = Some ob" "write_cbor_frame snd0 ob = (Inr (), snd1)"
      using x by (auto simp: write_stream_open_def split: option.splits prod.splits sum.splits)
    from write_cbor_frame_out(2) [OF ob(2) refl] e ob(1)
    have "wire_holds c \<lparr>wr_target = target, wr_dialled = dialled, wr_channel = ch, wr_stream = snd1\<rparr> [] []" for dialled
      by (auto simp: wire_holds_def intro!: exI [where x = tok])
    with assms(1) Some x Inr show ?thesis by (auto simp: dial_stream_def Let_def wires_extend_snoc)
  qed
qed

lemma open_outbound_effect:
  assumes "open_outbound_stream c w target ch s = (res, s')" and "fresh_dials w"
  shows "dm_db s' = dm_db s \<and> wires_extend (dm_wires s) (dm_wires s')
    \<and> (\<forall>i. res = Inr i \<longrightarrow> i = length (dm_wires s) \<and> (\<exists>wr. dm_wires s' = dm_wires s @ [wr] \<and> wr_target wr = target
         \<and> wr_channel wr = ch \<and> wire_holds c wr [] []))"
proof -
  have "(\<exists>e. res = Inl e \<and> dm_db s' = dm_db s \<and> dm_wires s' = dm_wires s)
      \<or> (\<exists>p tok tk n. dial_stream c w target ch p tok tk (s\<lparr>dm_tick := n\<rparr>) = (res, s'))"
    using assms(1)
    by (auto simp: open_outbound_stream_def and_then_def on_db_read peer_get_read find_token_read
        split: sum.splits option.splits)
  then show ?thesis
  proof (elim disjE exE)
    fix p tok tk n assume "dial_stream c w target ch p tok tk (s\<lparr>dm_tick := n\<rparr>) = (res, s')"
    from dial_stream_effect [OF this assms(2)] show ?thesis by simp
  qed auto
qed

section \<open>Lemmas: one row\<close>

text \<open>The streams a task owns are open to its peer, one per channel, and hold the frames \<open>F\<close>.\<close>

definition streams_hold :: "crates \<Rightarrow> NodeId \<Rightarrow> (string \<Rightarrow> MessageFrame list) \<Rightarrow> streams \<Rightarrow> Wire list \<Rightarrow> bool" where
  "streams_hold c peer F st wires \<longleftrightarrow> (\<forall>ch. case map_of st ch of
     None \<Rightarrow> F ch = []
   | Some i \<Rightarrow> i < length wires \<and> wr_target (wires ! i) = peer \<and> wr_channel (wires ! i) = ch
       \<and> wire_holds c (wires ! i) (F ch) [])"

lemma streams_holdD:
  assumes "streams_hold c peer F st wires" "map_of st ch = Some i"
  shows "i < length wires" "wr_target (wires ! i) = peer" "wr_channel (wires ! i) = ch" "wire_holds c (wires ! i) (F ch) []"
  using assms by (auto simp: streams_hold_def dest!: spec [of _ ch])

lemma streams_hold_empty [simp]: "streams_hold c peer (\<lambda>_. []) [] wires"
  by (simp add: streams_hold_def)

lemma streams_hold_open:
  assumes "streams_hold c peer F st wires" "map_of st ch = None" "wr_target wr = peer" "wr_channel wr = ch"
    "wire_holds c wr [] []"
  shows "streams_hold c peer F (AList.update ch (length wires) st) (wires @ [wr])"
  unfolding streams_hold_def
proof
  fix ch'
  show "case map_of (AList.update ch (length wires) st) ch' of
     None \<Rightarrow> F ch' = []
   | Some i \<Rightarrow> i < length (wires @ [wr]) \<and> wr_target ((wires @ [wr]) ! i) = peer \<and> wr_channel ((wires @ [wr]) ! i) = ch'
       \<and> wire_holds c ((wires @ [wr]) ! i) (F ch') []"
  proof (cases "ch' = ch")
    case True
    moreover have "F ch = []" using assms(1,2) by (auto simp: streams_hold_def dest!: spec [of _ ch])
    ultimately show ?thesis using assms by (simp add: update_conv')
  next
    case False
    then show ?thesis
      using streams_holdD [OF assms(1), of ch'] assms(1)
      by (auto simp: update_conv' nth_append streams_hold_def split: option.splits dest!: spec [of _ ch'])
  qed
qed

lemma streams_hold_write:
  assumes "streams_hold c peer F st wires" "map_of st ch = Some i"
    "wire_holds c ((wires ! i)\<lparr>wr_stream := send\<rparr>) (F ch @ fs) []"
  shows "streams_hold c peer (F(ch := F ch @ fs)) st (wires[i := (wires ! i)\<lparr>wr_stream := send\<rparr>])"
  unfolding streams_hold_def
proof
  fix ch'
  note i = streams_holdD [OF assms(1,2)]
  show "case map_of st ch' of
     None \<Rightarrow> (F(ch := F ch @ fs)) ch' = []
   | Some j \<Rightarrow> j < length (wires[i := (wires ! i)\<lparr>wr_stream := send\<rparr>])
       \<and> wr_target (wires[i := (wires ! i)\<lparr>wr_stream := send\<rparr>] ! j) = peer
       \<and> wr_channel (wires[i := (wires ! i)\<lparr>wr_stream := send\<rparr>] ! j) = ch'
       \<and> wire_holds c (wires[i := (wires ! i)\<lparr>wr_stream := send\<rparr>] ! j) ((F(ch := F ch @ fs)) ch') []"
  proof (cases "ch' = ch")
    case True
    with assms i show ?thesis by simp
  next
    case False
    show ?thesis
    proof (cases "map_of st ch'")
      case None
      with assms(1) False show ?thesis by (auto simp: streams_hold_def dest!: spec [of _ ch'])
    next
      case (Some j)
      note j = streams_holdD [OF assms(1) Some]
      have "j \<noteq> i" using i(3) j(3) False by auto
      with Some j False show ?thesis by simp
    qed
  qed
qed

lemma get_stream_effect:
  assumes "get_stream c w peer ch (st, s) = (res, (st', s'))" "fresh_dials w"
    and "streams_hold c peer F st (dm_wires s)"
  shows "dm_db s' = dm_db s \<and> wires_extend (dm_wires s) (dm_wires s')
    \<and> (\<forall>i. res = Inr i \<longrightarrow> streams_hold c peer F st' (dm_wires s') \<and> map_of st' ch = Some i)"
proof (cases "map_of st ch")
  case (Some i)
  with assms show ?thesis by (auto simp: get_stream_def)
next
  case None
  obtain x s1 where x: "open_outbound_stream c w peer ch s = (x, s1)" by fastforce
  note e = open_outbound_effect [OF x assms(2)]
  show ?thesis
  proof (cases x)
    case (Inl err)
    with assms(1) None x e show ?thesis by (auto simp: get_stream_def)
  next
    case (Inr i)
    with e obtain wr where wr: "i = length (dm_wires s)" "dm_wires s1 = dm_wires s @ [wr]" "wr_target wr = peer"
      "wr_channel wr = ch" "wire_holds c wr [] []" by blast
    have "res = Inr i" "st' = AList.update ch i st" "s' = s1"
      using assms(1) None x Inr by (simp_all add: get_stream_def)
    moreover have "dm_db s1 = dm_db s" "wires_extend (dm_wires s) (dm_wires s1)" using e by blast+
    ultimately show ?thesis
      using streams_hold_open [OF assms(3) None wr(3-5)] wr(1,2) by (simp add: update_conv')
  qed
qed

text \<open>Marking a pending row delivered takes that row, and no other, from the pending ones.\<close>

lemma mark_row_delivered:
  assumes inv: "db_inv (dm_db s)" and r: "r \<in> set (db_messages (dm_db s))" "msg_pending r"
  shows "\<exists>d. on_db_at w (\<lambda>now. outbox_mark_delivered now (mr_sender (as_message r)) (mr_channel_id (as_message r)) (mr_seq (as_message r))) s
        = (Inr (), s\<lparr>dm_tick := Suc (dm_tick s), dm_db := d\<rparr>)
    \<and> db_inv d \<and> (\<forall>Q. filter (\<lambda>x. msg_pending x \<and> Q x) (db_messages d) =
              filter (\<lambda>x. (msg_pending x \<and> Q x) \<and> x \<noteq> r) (db_messages (dm_db s)))"
proof -
  let ?mark = "\<lambda>now. outbox_mark_delivered now (NodeId (m_sender r)) (m_channel_id r) (as_u64 (m_seq r))"
  let ?d = "snd (?mark (w_ms w (dm_tick s)) (dm_db s))"
  have fields: "mr_sender (as_message r) = NodeId (m_sender r)" "mr_channel_id (as_message r) = m_channel_id r"
    "mr_seq (as_message r) = as_u64 (m_seq r)" by (simp_all add: as_message_def)
  have m: "on_db_at w ?mark s = (Inr (), s\<lparr>dm_tick := Suc (dm_tick s), dm_db := ?d\<rparr>)"
    using db_invD(1) [OF inv] by (simp add: on_db_at_def on_db_def outbox_mark_delivered_def call_ok)
  have "msg_rec_ok r" using db_invD(7) [OF inv] r(1) by (simp add: list_all_iff)
  note md = mark_delivered_pending [OF db_invD(1,6) [OF inv] r(1) _ this refl]
  have "m_direction r = 0" using r(2) by (simp add: msg_pending_def)
  note pend = md(1) [OF this]
  have "db_inv ?d"
    using inv mark_delivered_unique mark_delivered_rows message_ops_frame(2)
    by (intro db_inv_messages [OF inv]) (auto dest: db_invD)
  with m pend show ?thesis by (intro exI [where x = ?d]) (simp add: fields)
qed

text \<open>A pending row of the peer, delivered or not.\<close>

lemma deliver_row_effect:
  assumes run: "deliver_row c w peer (as_message r) (st, s) = (res, (st', s'))"
    and w: "fresh_dials w" and hold: "streams_hold c peer F st (dm_wires s)" and inv: "db_inv (dm_db s)"
    and r: "r \<in> set (db_messages (dm_db s))" "msg_pending r"
  shows "wires_extend (dm_wires s) (dm_wires s') \<and> db_inv (dm_db s')
    \<and> (case res of
         Inl _ \<Rightarrow> dm_db s' = dm_db s
       | Inr _ \<Rightarrow>
           (\<forall>Q. filter (\<lambda>x. msg_pending x \<and> Q x) (db_messages (dm_db s')) =
              filter (\<lambda>x. (msg_pending x \<and> Q x) \<and> x \<noteq> r) (db_messages (dm_db s)))
           \<and> streams_hold c peer (F(m_channel r := F (m_channel r) @ [frame_of (as_message r)])) st' (dm_wires s'))"
proof -
  let ?ch = "m_channel r" and ?mf = "frame_of (as_message r)"
  have ch: "mr_channel (as_message r) = ?ch" by (simp add: as_message_def)
  obtain x st1 s1 where x: "get_stream c w peer ?ch (st, s) = (x, (st1, s1))" by (metis surj_pair)
  note g = get_stream_effect [OF x w hold]
  show ?thesis
  proof (cases x)
    case (Inl e)
    with run x g inv show ?thesis by (auto simp: deliver_row_def and_then_def ch)
  next
    case (Inr i)
    with g have hold1: "streams_hold c peer F st1 (dm_wires s1)" and i: "map_of st1 ?ch = Some i"
      and db1: "dm_db s1 = dm_db s" and ext1: "wires_extend (dm_wires s) (dm_wires s1)" by auto
    note si = streams_holdD [OF hold1 i]
    show ?thesis
    proof (cases "frame_enc c ?mf")
      case None
      with run x Inr db1 ext1 inv show ?thesis by (auto simp: deliver_row_def and_then_def ch)
    next
      case (Some buf)
      obtain y send where y: "write_cbor_frame (wr_stream (dm_wires s1 ! i)) buf = (y, send)" by fastforce
      have ext2: "wires_extend (dm_wires s) (dm_wires (set_stream i send s1))"
        using ext1 wires_extend_update [OF si(1) write_cbor_frame_out(1) [OF y]]
        by (auto simp: set_stream_def intro: wires_extend_trans)
      show ?thesis
      proof (cases y)
        case (Inl e)
        with run x Inr Some y db1 ext2 inv show ?thesis
          by (auto simp: deliver_row_def and_then_def ch forget_outbound_stream_def set_stream_def)
      next
        case ok: (Inr u)
        let ?s2 = "set_stream i send s1"
        have db2: "dm_db ?s2 = dm_db s" by (simp add: set_stream_def db1)
        from mark_row_delivered [of ?s2 r w, unfolded db2, OF inv r] obtain d where
          m: "on_db_at w (\<lambda>now. outbox_mark_delivered now (mr_sender (as_message r)) (mr_channel_id (as_message r)) (mr_seq (as_message r))) ?s2
            = (Inr (), ?s2\<lparr>dm_tick := Suc (dm_tick ?s2), dm_db := d\<rparr>)" and d: "db_inv d"
            "\<forall>Q. filter (\<lambda>x. msg_pending x \<and> Q x) (db_messages d) = filter (\<lambda>x. (msg_pending x \<and> Q x) \<and> x \<noteq> r) (db_messages (dm_db s))"
          by blast
        have res: "res = Inr ()" "st' = st1" "s' = ?s2\<lparr>dm_tick := Suc (dm_tick ?s2), dm_db := d\<rparr>"
          using run x Inr Some y ok m by (simp_all add: deliver_row_def and_then_def ch)
        have "wire_holds c ((dm_wires s1 ! i)\<lparr>wr_stream := send\<rparr>) (F ?ch @ [?mf]) []"
          using frame_written [OF Some _ si(4)] y ok by simp
        then have "streams_hold c peer (F(?ch := F ?ch @ [?mf])) st1 (dm_wires ?s2)"
          unfolding set_stream_def using streams_hold_write [OF hold1 i] by simp
        with res d ext2 show ?thesis by simp
      qed
    qed
  qed
qed

section \<open>Lemmas: a batch\<close>

definition add_frames :: "(string \<Rightarrow> MessageFrame list) \<Rightarrow> msg_rec list \<Rightarrow> string \<Rightarrow> MessageFrame list" where
  "add_frames F rs ch = F ch @ map (\<lambda>r. frame_of (as_message r)) (filter (\<lambda>r. m_channel r = ch) rs)"

lemma add_frames_Nil [simp]: "add_frames F [] = F"
  by (rule ext) (simp add: add_frames_def)

lemma add_frames_Cons:
  "add_frames (F(m_channel r := F (m_channel r) @ [frame_of (as_message r)])) rs = add_frames F (r # rs)"
  by (rule ext) (simp add: add_frames_def)

lemma add_frames_append: "add_frames (add_frames F rs) rs' = add_frames F (rs @ rs')"
  by (rule ext) (simp add: add_frames_def)

lemma streams_hold_carried:
  assumes "streams_hold c peer F st wires" "mf \<in> set (F ch)"
  shows "carried c peer ch mf wires"
proof (cases "map_of st ch")
  case None
  with assms show ?thesis by (auto simp: streams_hold_def dest!: spec [of _ ch])
next
  case (Some i)
  note h = streams_holdD [OF assms(1) Some]
  have "wires ! i \<in> set wires" using h(1) by simp
  with h assms(2) show ?thesis unfolding carried_def by blast
qed

text \<open>What stays pending through two deliveries in a row.\<close>

lemma pending_compose:
  assumes "\<And>Q. filter (\<lambda>x. msg_pending x \<and> Q x) ys = filter (\<lambda>x. (msg_pending x \<and> Q x) \<and> x \<notin> A) xs"
    and "\<And>Q. filter (\<lambda>x. msg_pending x \<and> Q x) zs = filter (\<lambda>x. (msg_pending x \<and> Q x) \<and> x \<notin> B) ys"
  shows "filter (\<lambda>x. msg_pending x \<and> Q x) zs = filter (\<lambda>x. (msg_pending x \<and> Q x) \<and> x \<notin> A \<union> B) xs"
proof -
  have "filter (\<lambda>x. msg_pending x \<and> Q x) zs = filter (\<lambda>x. msg_pending x \<and> (Q x \<and> x \<notin> B)) ys"
    by (simp add: assms(2) conj_assoc)
  then show ?thesis unfolding assms(1) by (simp add: conj_assoc conj_left_commute conj_commute)
qed

lemma pending_stays:
  assumes "\<And>Q. filter (\<lambda>x. msg_pending x \<and> Q x) ys = filter (\<lambda>x. (msg_pending x \<and> Q x) \<and> x \<notin> A) xs"
    and "r \<in> set xs" "msg_pending r" "r \<notin> A"
  shows "r \<in> set ys"
proof -
  have "r \<in> set (filter (\<lambda>x. (msg_pending x \<and> True) \<and> x \<notin> A) xs)" using assms(2-4) by simp
  then show ?thesis unfolding assms(1) [of "\<lambda>_. True", symmetric] by simp
qed

text \<open>
  A batch is delivered up to some row: those rows leave the pending set and are on the wire, the
  others stay; the batch succeeds exactly when all are delivered.
\<close>

lemma deliver_rows_effect:
  assumes "deliver_rows c w peer (map as_message rs) (st, s) = (res, (st', s'))"
    and w: "fresh_dials w" and "streams_hold c peer F st (dm_wires s)" and "db_inv (dm_db s)"
    and "distinct rs" and "\<forall>r\<in>set rs. r \<in> set (db_messages (dm_db s)) \<and> msg_pending r"
  shows "\<exists>k \<le> length rs. wires_extend (dm_wires s) (dm_wires s') \<and> db_inv (dm_db s')
    \<and> (\<forall>Q. filter (\<lambda>x. msg_pending x \<and> Q x) (db_messages (dm_db s')) =
          filter (\<lambda>x. (msg_pending x \<and> Q x) \<and> x \<notin> set (take k rs)) (db_messages (dm_db s)))
    \<and> (\<forall>r\<in>set (take k rs). carried c peer (m_channel r) (frame_of (as_message r)) (dm_wires s'))
    \<and> (case res of Inl _ \<Rightarrow> k < length rs
       | Inr _ \<Rightarrow> k = length rs \<and> streams_hold c peer (add_frames F rs) st' (dm_wires s'))"
  using assms(1,3-6)
proof (induction rs arbitrary: st s F)
  case Nil
  then show ?case by auto
next
  case (Cons r rs)
  have r: "r \<in> set (db_messages (dm_db s))" "msg_pending r" using Cons.prems(5) by simp_all
  obtain x st1 s1 where x: "deliver_row c w peer (as_message r) (st, s) = (x, (st1, s1))" by (metis surj_pair)
  note d = deliver_row_effect [OF x w Cons.prems(2,3) r]
  show ?case
  proof (cases x)
    case (Inl e)
    with Cons.prems(1) x d show ?thesis by (intro exI [where x = 0]) auto
  next
    case (Inr u)
    let ?F = "F(m_channel r := F (m_channel r) @ [frame_of (as_message r)])"
    have run: "deliver_rows c w peer (map as_message rs) (st1, s1) = (res, (st', s'))"
      using Cons.prems(1) x Inr by simp
    have hold: "streams_hold c peer ?F st1 (dm_wires s1)" and inv: "db_inv (dm_db s1)"
      and ext: "wires_extend (dm_wires s) (dm_wires s1)"
      and fil: "\<And>Q. filter (\<lambda>x. msg_pending x \<and> Q x) (db_messages (dm_db s1)) =
              filter (\<lambda>x. (msg_pending x \<and> Q x) \<and> x \<notin> {r}) (db_messages (dm_db s))" using d Inr by auto
    have pend: "\<forall>r'\<in>set rs. r' \<in> set (db_messages (dm_db s1)) \<and> msg_pending r'"
      using pending_stays [OF fil] Cons.prems(4,5) by auto
    from Cons.IH [OF run hold inv _ pend] Cons.prems(4) obtain k where k: "k \<le> length rs"
      "wires_extend (dm_wires s1) (dm_wires s')" "db_inv (dm_db s')"
      "\<forall>Q. filter (\<lambda>x. msg_pending x \<and> Q x) (db_messages (dm_db s')) =
          filter (\<lambda>x. (msg_pending x \<and> Q x) \<and> x \<notin> set (take k rs)) (db_messages (dm_db s1))"
      "\<forall>r\<in>set (take k rs). carried c peer (m_channel r) (frame_of (as_message r)) (dm_wires s')"
      "case res of Inl _ \<Rightarrow> k < length rs
       | Inr _ \<Rightarrow> k = length rs \<and> streams_hold c peer (add_frames ?F rs) st' (dm_wires s')" by auto
    have "filter (\<lambda>x. msg_pending x \<and> Q x) (db_messages (dm_db s')) =
          filter (\<lambda>x. (msg_pending x \<and> Q x) \<and> x \<notin> set (take (Suc k) (r # rs))) (db_messages (dm_db s))" for Q
      using pending_compose [OF fil k(4) [rule_format]] by simp
    moreover have "carried c peer (m_channel r) (frame_of (as_message r)) (dm_wires s')"
      using streams_hold_carried [OF hold, of "frame_of (as_message r)" "m_channel r"] k(2)
      by (auto intro: carried_extend)
    ultimately show ?thesis
      using k ext by (intro exI [where x = "Suc k"])
        (auto simp: add_frames_Cons intro: wires_extend_trans split: sum.splits)
  qed
qed

section \<open>Lemmas: the drain\<close>

definition pending_of :: "NodeId \<Rightarrow> 'z daemon_scheme \<Rightarrow> msg_rec list" where
  "pending_of peer s = filter (\<lambda>r. msg_pending r \<and> m_peer r = nid peer) (db_messages (dm_db s))"

text \<open>What a run of deliveries \<open>L\<close> from \<open>s\<close> leaves in \<open>s'\<close>.\<close>

definition delivered :: "crates \<Rightarrow> NodeId \<Rightarrow> msg_rec list \<Rightarrow> 'z daemon_scheme \<Rightarrow> 'z daemon_scheme \<Rightarrow> bool" where
  "delivered c peer L s s' \<longleftrightarrow> wires_extend (dm_wires s) (dm_wires s') \<and> db_inv (dm_db s')
     \<and> set L \<subseteq> set (pending_of peer s) \<and> distinct L \<and> sorted (map m_enqueued_at_ms L)
     \<and> (\<forall>Q. filter (\<lambda>x. msg_pending x \<and> Q x) (db_messages (dm_db s')) =
          filter (\<lambda>x. (msg_pending x \<and> Q x) \<and> x \<notin> set L) (db_messages (dm_db s)))
     \<and> (\<forall>r\<in>set L. carried c peer (m_channel r) (frame_of (as_message r)) (dm_wires s'))"

lemma delivered_filter:
  assumes "delivered c peer L s s'"
  shows "filter (\<lambda>x. msg_pending x \<and> Q x) (db_messages (dm_db s')) =
     filter (\<lambda>x. (msg_pending x \<and> Q x) \<and> x \<notin> set L) (db_messages (dm_db s))"
  using assms unfolding delivered_def by blast

lemma delivered_pending:
  "delivered c peer L s s' \<Longrightarrow> pending_of peer s' = filter (\<lambda>x. x \<notin> set L) (pending_of peer s)"
  unfolding pending_of_def by (simp add: delivered_filter)

lemma pending_rows_pending_of: "pending_rows plan peer (dm_db s) = sql_order_by m_enqueued_at_ms (plan (pending_of peer s))"
  by (simp add: pending_rows_def pending_of_def)

lemma pending_rows_props:
  assumes "is_plan plan" "db_inv (dm_db s)"
  shows "set (pending_rows plan peer (dm_db s)) = set (pending_of peer s)" "distinct (pending_rows plan peer (dm_db s))"
    "sorted (map m_enqueued_at_ms (pending_rows plan peer (dm_db s)))"
    "length (pending_rows plan peer (dm_db s)) = length (pending_of peer s)"
proof -
  have m: "mset (pending_rows plan peer (dm_db s)) = mset (pending_of peer s)"
    by (simp add: pending_rows_pending_of is_plan_mset [OF assms(1)])
  have "distinct (db_messages (dm_db s))"
    using db_invD(6) [OF assms(2)] by (auto simp: messages_unique_def intro: messages_t.unique_distinct)
  then have "distinct (pending_of peer s)" by (simp add: pending_of_def)
  with m show "distinct (pending_rows plan peer (dm_db s))" using mset_eq_imp_distinct_iff by blast
  show "set (pending_rows plan peer (dm_db s)) = set (pending_of peer s)" using m mset_eq_setD by blast
  show "length (pending_rows plan peer (dm_db s)) = length (pending_of peer s)" using m mset_eq_length by blast
  show "sorted (map m_enqueued_at_ms (pending_rows plan peer (dm_db s)))"
    unfolding pending_rows_pending_of by (rule sorted_sql_order_by)
qed

text \<open>The next batch the drain works on.\<close>

definition batch :: "world \<Rightarrow> NodeId \<Rightarrow> 'z daemon_scheme \<Rightarrow> msg_rec list" where
  "batch w peer s = take DELIVERY_BATCH (pending_rows (w_msg_plan w) peer (dm_db s))"

lemma drain_query:
  assumes "is_plan (w_msg_plan w)" "db_inv (dm_db s)"
  shows "on_db (outbox_pending_for_peer (w_msg_plan w) peer DELIVERY_BATCH) s = (Inr (map as_message (batch w peer s)), s)"
  using pending_for_peer_ok [OF db_invD(1) [OF assms(2)] assms(1) db_invD(7) [OF assms(2)], of peer DELIVERY_BATCH]
  by (simp add: on_db_read batch_def)

lemma batch_delivered:
  assumes "deliver_rows c w peer (map as_message (batch w peer s)) (st, s) = (res, (st', s'))"
    and w: "fresh_dials w" "is_plan (w_msg_plan w)" and "streams_hold c peer F st (dm_wires s)" and inv: "db_inv (dm_db s)"
  shows "\<exists>k \<le> length (batch w peer s). delivered c peer (take k (batch w peer s)) s s'
    \<and> (case res of Inl _ \<Rightarrow> True
       | Inr _ \<Rightarrow> k = length (batch w peer s) \<and> streams_hold c peer (add_frames F (batch w peer s)) st' (dm_wires s'))"
proof -
  let ?rs = "batch w peer s"
  note p = pending_rows_props [OF w(2) inv, of peer]
  have d: "distinct ?rs" "sorted (map m_enqueued_at_ms ?rs)" "set ?rs \<subseteq> set (pending_of peer s)"
    using p by (auto simp: batch_def take_map [symmetric] sorted_wrt_take dest: in_set_takeD)
  then have "\<forall>r\<in>set ?rs. r \<in> set (db_messages (dm_db s)) \<and> msg_pending r" by (auto simp: pending_of_def)
  from deliver_rows_effect [OF assms(1) w(1) assms(4) inv d(1) this] obtain k where k: "k \<le> length ?rs"
    "wires_extend (dm_wires s) (dm_wires s')" "db_inv (dm_db s')"
    "\<forall>Q. filter (\<lambda>x. msg_pending x \<and> Q x) (db_messages (dm_db s')) =
          filter (\<lambda>x. (msg_pending x \<and> Q x) \<and> x \<notin> set (take k ?rs)) (db_messages (dm_db s))"
    "\<forall>r\<in>set (take k ?rs). carried c peer (m_channel r) (frame_of (as_message r)) (dm_wires s')"
    "case res of Inl _ \<Rightarrow> k < length ?rs
       | Inr _ \<Rightarrow> k = length ?rs \<and> streams_hold c peer (add_frames F ?rs) st' (dm_wires s')" by blast
  have "set (take k ?rs) \<subseteq> set (pending_of peer s)" using d(3) by (auto dest: in_set_takeD)
  moreover have "sorted (map m_enqueued_at_ms (take k ?rs))" using d(2) by (simp add: take_map [symmetric] sorted_wrt_take)
  ultimately have "delivered c peer (take k ?rs) s s'" using k d(1) by (simp add: delivered_def)
  with k(1,6) show ?thesis by (intro exI [where x = k]) (auto split: sum.splits)
qed

lemma batch_before_rest:
  assumes "is_plan (w_msg_plan w)" "db_inv (dm_db s)" "a \<in> set (batch w peer s)"
    "b \<in> set (pending_of peer s)" "b \<notin> set (batch w peer s)"
  shows "m_enqueued_at_ms a \<le> m_enqueued_at_ms b"
proof -
  let ?p = "pending_rows (w_msg_plan w) peer (dm_db s)"
  note p = pending_rows_props [OF assms(1,2), of peer]
  have split: "?p = batch w peer s @ drop DELIVERY_BATCH ?p" by (simp add: batch_def)
  have "b \<in> set ?p" using p(1) assms(4) by simp
  then have "b \<in> set (drop DELIVERY_BATCH ?p)" using assms(5) split by (metis Un_iff set_append)
  moreover have "sorted (map m_enqueued_at_ms (batch w peer s @ drop DELIVERY_BATCH ?p))" using p(3) split by simp
  ultimately show ?thesis using assms(3) by (auto simp: sorted_append)
qed

lemma delivered_trans:
  assumes "delivered c peer L s s1" "delivered c peer L' s1 s2"
    and "\<forall>a\<in>set L. \<forall>b\<in>set (pending_of peer s1). m_enqueued_at_ms a \<le> m_enqueued_at_ms b"
  shows "delivered c peer (L @ L') s s2"
proof -
  have p1: "set (pending_of peer s1) = set (pending_of peer s) - set L"
    using assms(1) by (auto simp: delivered_def pending_of_def)
  have L': "set L' \<subseteq> set (pending_of peer s1)" using assms(2) by (simp add: delivered_def)
  have "filter (\<lambda>x. msg_pending x \<and> Q x) (db_messages (dm_db s2)) =
          filter (\<lambda>x. (msg_pending x \<and> Q x) \<and> x \<notin> set (L @ L')) (db_messages (dm_db s))" for Q
    using pending_compose [OF delivered_filter [OF assms(1)] delivered_filter [OF assms(2)]] by simp
  then show ?thesis
    using assms L' p1
    by (auto simp: delivered_def sorted_append intro: wires_extend_trans carried_extend)
qed

text \<open>A batch that was delivered leaves fewer pending rows, none older than its own.\<close>

lemma batch_progress:
  assumes "delivered c peer (batch w peer s) s s1" "batch w peer s \<noteq> []" "is_plan (w_msg_plan w)" "db_inv (dm_db s)"
  shows "length (pending_of peer s1) < length (pending_of peer s)"
    "\<forall>a\<in>set (batch w peer s). \<forall>b\<in>set (pending_of peer s1). m_enqueued_at_ms a \<le> m_enqueued_at_ms b"
proof -
  have p1: "pending_of peer s1 = filter (\<lambda>x. x \<notin> set (batch w peer s)) (pending_of peer s)"
    by (rule delivered_pending [OF assms(1)])
  obtain b where b: "b \<in> set (batch w peer s)" using assms(2) by (meson list.set_sel(1))
  then have "b \<in> set (pending_of peer s)" using assms(1) by (auto simp: delivered_def)
  with b show "length (pending_of peer s1) < length (pending_of peer s)"
    unfolding p1 by (intro length_filter_less [of b]) simp_all
  show "\<forall>a\<in>set (batch w peer s). \<forall>b\<in>set (pending_of peer s1). m_enqueued_at_ms a \<le> m_enqueued_at_ms b"
    using batch_before_rest [OF assms(3,4)] by (auto simp: p1)
qed

lemma drain_effect:
  assumes w: "fresh_dials w" "is_plan (w_msg_plan w)"
    and "streams_hold c peer F st (dm_wires s)" and "db_inv (dm_db s)"
  shows "\<exists>res st' s' L. drain_peer c w peer (st, s) = Some (res, (st', s')) \<and> delivered c peer L s s'
    \<and> (case res of Inl _ \<Rightarrow> True
       | Inr _ \<Rightarrow> pending_of peer s' = [] \<and> streams_hold c peer (add_frames F L) st' (dm_wires s'))"
  using assms(3,4)
proof (induction "length (pending_of peer s)" arbitrary: st s F rule: less_induct)
  case less
  note q = drain_query [OF w(2) less.prems(2), of peer]
  note p = pending_rows_props [OF w(2) less.prems(2), of peer]
  show ?case
  proof (cases "batch w peer s = []")
    case True
    then have "pending_of peer s = []" using p(4) by (simp add: batch_def DELIVERY_BATCH_def)
    moreover have "drain_peer c w peer (st, s) = Some (Inr (), (st, s))"
      by (subst drain_peer.simps) (simp add: q True)
    moreover have "delivered c peer [] s s" using less.prems(2) by (simp add: delivered_def)
    ultimately show ?thesis using less.prems(1) by (intro exI conjI) (assumption | simp)+
  next
    case False
    obtain r st1 s1 where d: "deliver_rows c w peer (map as_message (batch w peer s)) (st, s) = (r, (st1, s1))"
      by (metis surj_pair)
    from batch_delivered [OF d w less.prems] obtain k where k: "delivered c peer (take k (batch w peer s)) s s1"
      "case r of Inl _ \<Rightarrow> True
       | Inr _ \<Rightarrow> k = length (batch w peer s) \<and> streams_hold c peer (add_frames F (batch w peer s)) st1 (dm_wires s1)" by blast
    have unfold: "drain_peer c w peer (st, s) = (case r of Inl e \<Rightarrow> Some (Inl e, (st1, s1)) | Inr _ \<Rightarrow> drain_peer c w peer (st1, s1))"
      by (subst drain_peer.simps) (simp add: q False d split: sum.splits)
    show ?thesis
    proof (cases r)
      case (Inl e)
      with unfold k(1) show ?thesis by auto
    next
      case (Inr u)
      let ?B = "batch w peer s"
      have del: "delivered c peer ?B s s1" and hold: "streams_hold c peer (add_frames F ?B) st1 (dm_wires s1)"
        using k Inr by simp_all
      note prog = batch_progress [OF del False w(2) less.prems(2)]
      have inv1: "db_inv (dm_db s1)" using del by (simp add: delivered_def)
      from less.hyps [OF prog(1) hold inv1] obtain res st2 s2 L where
        L: "drain_peer c w peer (st1, s1) = Some (res, (st2, s2))" "delivered c peer L s1 s2"
        "case res of Inl _ \<Rightarrow> True
         | Inr _ \<Rightarrow> pending_of peer s2 = [] \<and> streams_hold c peer (add_frames (add_frames F ?B) L) st2 (dm_wires s2)" by blast
      from delivered_trans [OF del L(2) prog(2)] L [unfolded add_frames_append] unfold Inr show ?thesis
        by (intro exI [where x = res] exI [where x = st2] exI [where x = s2] exI [where x = "?B @ L"])
          simp
    qed
  qed
qed

section \<open>Properties\<close>

text \<open>
  C13 Delivery always comes to an end and never loses a message.  Whatever the network does, a drain of
  a peer's outbox returns; every message that was pending is then either still pending or has gone out
  whole, so that the peer decodes it, on a stream opened to that peer for that channel; no other
  peer's pending messages are touched; and when the drain reports success nothing is left pending.
\<close>

theorem drain_never_loses:
  assumes "cbor_laws c" and "fresh_dials w" and "is_plan (w_msg_plan w)" and "db_inv (dm_db s)"
    and "streams_hold c peer F st (dm_wires s)"
  shows "\<exists>res st' s'. drain_peer c w peer (st, s) = Some (res, (st', s')) \<and> db_inv (dm_db s')
    \<and> (\<forall>r\<in>set (pending_of peer s). r \<in> set (pending_of peer s')
         \<or> (\<exists>wr\<in>set (dm_wires s'). wr_target wr = peer \<and> wr_channel wr = m_channel r
              \<and> frame_of (as_message r) \<in> set (received c wr)))
    \<and> set (pending_of peer s') \<subseteq> set (pending_of peer s)
    \<and> (\<forall>other. nid other \<noteq> nid peer \<longrightarrow> pending_of other s' = pending_of other s)
    \<and> (res = Inr () \<longrightarrow> pending_of peer s' = [])"
proof -
  from drain_effect [OF assms(2,3,5,4)] obtain res st' s' L where
    d: "drain_peer c w peer (st, s) = Some (res, (st', s'))" "delivered c peer L s s'"
    "case res of Inl _ \<Rightarrow> True
     | Inr _ \<Rightarrow> pending_of peer s' = [] \<and> streams_hold c peer (add_frames F L) st' (dm_wires s')" by blast
  note p = delivered_pending [OF d(2)]
  have sub: "set L \<subseteq> set (pending_of peer s)" and inv: "db_inv (dm_db s')"
    and car: "\<forall>r\<in>set L. carried c peer (m_channel r) (frame_of (as_message r)) (dm_wires s')"
    using d(2) by (simp_all add: delivered_def)
  have "pending_of other s' = pending_of other s" if "nid other \<noteq> nid peer" for other
  proof -
    have "pending_of other s' = filter (\<lambda>x. (msg_pending x \<and> m_peer x = nid other) \<and> x \<notin> set L) (db_messages (dm_db s))"
      unfolding pending_of_def by (rule delivered_filter [OF d(2)])
    also have "\<dots> = pending_of other s"
      unfolding pending_of_def using sub that by (intro filter_cong) (auto simp: pending_of_def)
    finally show ?thesis .
  qed
  moreover have "r \<in> set (pending_of peer s') \<or> (\<exists>wr\<in>set (dm_wires s'). wr_target wr = peer \<and> wr_channel wr = m_channel r
      \<and> frame_of (as_message r) \<in> set (received c wr))" if "r \<in> set (pending_of peer s)" for r
    using that car carried_received [OF assms(1)] by (cases "r \<in> set L") (auto simp: p)
  ultimately show ?thesis
    using d inv by (intro exI [where x = res] exI [where x = st'] exI [where x = s']) (auto simp: p split: sum.splits)
qed

definition sample_row :: msg_rec where
  "sample_row = \<lparr>m_sender = replicate 32 1, m_channel_id = replicate 16 7, m_seq = 1, m_direction = 0, m_channel = ''a'',
     m_peer = replicate 32 2, m_payload = [5], m_enqueued_at_ms = 3, m_delivered_at_ms = None\<rparr>"

definition sample_sender :: daemon where
  "sample_sender = sample_daemon\<lparr>dm_db := sample_db\<lparr>db_messages := [sample_row]\<rparr>\<rparr>"

lemma sample_sender_inv: "db_inv (dm_db sample_sender)"
  by (rule db_inv_messages [OF sample_db_inv])
    (simp_all add: sample_sender_def messages_unique_def unique_rows_def msg_rec_ok_def sample_row_def max_i64_def)

lemma sample_world_fresh: "fresh_dials sample_world" "is_plan (w_msg_plan sample_world)"
  by (simp_all add: fresh_dials_def sample_world_def)

lemma drain_never_loses_witness:
  "\<exists>res st' s'. drain_peer sample_crates sample_world (sample_node 2) ([], sample_sender) = Some (res, (st', s'))
     \<and> set (pending_of (sample_node 2) s') \<subseteq> {sample_row}"
proof -
  have "set (pending_of (sample_node 2) sample_sender) \<subseteq> {sample_row}"
    by (auto simp: pending_of_def sample_sender_def)
  with drain_never_loses [OF sample_cbor sample_world_fresh sample_sender_inv streams_hold_empty, of "sample_node 2"]
  show ?thesis by blast
qed


section \<open>When delivery succeeds\<close>

text \<open>The peer is registered, a usable token is stored, dialling works and nothing is too large.\<close>

definition can_deliver :: "crates \<Rightarrow> world \<Rightarrow> NodeId \<Rightarrow> 'z daemon_scheme \<Rightarrow> bool" where
  "can_deliver c w peer s \<longleftrightarrow>
     (\<exists>p. fst (peer_get (PsNodeId peer) (dm_db s)) = Inr (Some p)
        \<and> (case pr_addr_blob p of None \<Rightarrow> True | Some b \<Rightarrow> ticket_dec c b \<noteq> None))
     \<and> (\<forall>n. \<exists>tok stok. fst (find_token_with_cap c (w_token_plan w) peer (local_nodeid c s) Msg (w_secs w n) (dm_db s)) = Inr (Some tok)
          \<and> signed_dec c (tr_raw tok) = Some stok
          \<and> (\<forall>r\<in>set (pending_of peer s). \<exists>ob. open_enc c (StreamMsg stok (m_channel r)) = Some ob \<and> fits ob))
     \<and> (\<forall>i n t. \<exists>snd. w_dial w i n t = Some snd \<and> ss_budget snd = None)
     \<and> (\<forall>r\<in>set (pending_of peer s). encodable c (frame_of (as_message r)))"

definition streams_unbounded :: "streams \<Rightarrow> Wire list \<Rightarrow> bool" where
  "streams_unbounded st wires \<longleftrightarrow>
     (\<forall>ch i. map_of st ch = Some i \<longrightarrow> i < length wires \<and> ss_budget (wr_stream (wires ! i)) = None)"

lemma dial_stream_succeeds:
  assumes "\<forall>i n t. \<exists>snd. w_dial w i n t = Some snd \<and> ss_budget snd = None"
    and "open_enc c (StreamMsg tok ch) = Some ob" "fits ob"
  shows "\<exists>s' wr. dial_stream c w peer ch p tok tk s = (Inr (length (dm_wires s)), s') \<and> dm_wires s' = dm_wires s @ [wr]
    \<and> ss_budget (wr_stream wr) = None \<and> dm_secret s' = dm_secret s \<and> dm_db s' = dm_db s"
proof -
  from assms(1) obtain snd where s: "w_dial w (dm_dials s) peer tk = Some snd" "ss_budget snd = None" by blast
  have "write_stream_open c snd (StreamMsg tok ch) = (Inr (), snd\<lparr>ss_out := ss_out snd @ frame_bytes ob\<rparr>)"
    using assms(2,3) s(2) by (simp add: write_stream_open_def write_cbor_frame_ok)
  with s show ?thesis by (simp add: dial_stream_def Let_def)
qed

lemma open_outbound_succeeds:
  assumes "can_deliver c w peer s" "r \<in> set (pending_of peer s)"
  shows "\<exists>s' wr. open_outbound_stream c w peer (m_channel r) s = (Inr (length (dm_wires s)), s') \<and> dm_wires s' = dm_wires s @ [wr]
    \<and> ss_budget (wr_stream wr) = None \<and> dm_secret s' = dm_secret s \<and> dm_db s' = dm_db s"
proof -
  from assms obtain p where p: "fst (peer_get (PsNodeId peer) (dm_db s)) = Inr (Some p)"
    "case pr_addr_blob p of None \<Rightarrow> True | Some b \<Rightarrow> ticket_dec c b \<noteq> None" by (auto simp: can_deliver_def)
  from assms obtain tok stok ob where t:
    "fst (find_token_with_cap c (w_token_plan w) peer (local_nodeid c s) Msg (w_secs w (dm_tick s)) (dm_db s)) = Inr (Some tok)"
    "signed_dec c (tr_raw tok) = Some stok" "open_enc c (StreamMsg stok (m_channel r)) = Some ob" "fits ob"
    unfolding can_deliver_def by meson
  have dial: "\<forall>i n t. \<exists>snd. w_dial w i n t = Some snd \<and> ss_budget snd = None" using assms(1) by (simp add: can_deliver_def)
  let ?s = "s\<lparr>dm_tick := Suc (dm_tick s)\<rparr>"
  have "\<exists>tk. open_outbound_stream c w peer (m_channel r) s = dial_stream c w peer (m_channel r) p stok tk ?s"
    using p t by (auto simp: open_outbound_stream_def and_then_def on_db_read peer_get_read find_token_read
        split: option.splits)
  then obtain tk where tk: "open_outbound_stream c w peer (m_channel r) s = dial_stream c w peer (m_channel r) p stok tk ?s" ..
  show ?thesis using dial_stream_succeeds [OF dial t(3,4), of peer p tk ?s] by (simp add: tk)
qed

lemma deliver_row_succeeds:
  assumes "can_deliver c w peer s" "streams_unbounded st (dm_wires s)" "r \<in> set (pending_of peer s)" "db_ok (dm_db s)"
  shows "\<exists>st' s'. deliver_row c w peer (as_message r) (st, s) = (Inr (), (st', s')) \<and> streams_unbounded st' (dm_wires s')
    \<and> dm_secret s' = dm_secret s
    \<and> (\<exists>now. dm_db s' = snd (outbox_mark_delivered now (NodeId (m_sender r)) (m_channel_id r) (as_u64 (m_seq r)) (dm_db s)))"
proof -
  let ?ch = "m_channel r"
  have fields: "mr_sender (as_message r) = NodeId (m_sender r)" "mr_channel_id (as_message r) = m_channel_id r"
    "mr_seq (as_message r) = as_u64 (m_seq r)" "mr_channel (as_message r) = ?ch" by (simp_all add: as_message_def)
  obtain i st1 s1 where g: "get_stream c w peer ?ch (st, s) = (Inr i, (st1, s1))" "streams_unbounded st1 (dm_wires s1)"
    "map_of st1 ?ch = Some i" "dm_secret s1 = dm_secret s" "dm_db s1 = dm_db s"
  proof (cases "map_of st ?ch")
    case (Some i)
    with assms(2) that show thesis by (simp add: get_stream_def)
  next
    case None
    from open_outbound_succeeds [OF assms(1,3)] obtain s' wr where o: "open_outbound_stream c w peer ?ch s = (Inr (length (dm_wires s)), s')"
      "dm_wires s' = dm_wires s @ [wr]" "ss_budget (wr_stream wr) = None" "dm_secret s' = dm_secret s" "dm_db s' = dm_db s" by blast
    have "streams_unbounded (AList.update ?ch (length (dm_wires s)) st) (dm_wires s')"
      using assms(2) o(2,3) by (auto simp: streams_unbounded_def update_conv' nth_append split: if_splits)
        (metis less_SucI)
    with None o that show thesis by (simp add: get_stream_def update_conv')
  qed
  from assms(1,3) obtain buf where buf: "frame_enc c (frame_of (as_message r)) = Some buf" "fits buf"
    by (auto simp: can_deliver_def encodable_def split: option.splits)
  have i: "i < length (dm_wires s1)" "ss_budget (wr_stream (dm_wires s1 ! i)) = None"
    using g(2,3) by (auto simp: streams_unbounded_def)
  let ?send = "(wr_stream (dm_wires s1 ! i))\<lparr>ss_out := ss_out (wr_stream (dm_wires s1 ! i)) @ frame_bytes buf\<rparr>"
  let ?s2 = "set_stream i ?send s1"
  have "streams_unbounded st1 (dm_wires ?s2)"
    using g(2) i by (auto simp: streams_unbounded_def set_stream_def nth_list_update)
  moreover have "deliver_row c w peer (as_message r) (st, s) = (Inr (), (st1, ?s2\<lparr>dm_tick := Suc (dm_tick ?s2),
      dm_db := snd (outbox_mark_delivered (w_ms w (dm_tick ?s2)) (NodeId (m_sender r)) (m_channel_id r) (as_u64 (m_seq r)) (dm_db s))\<rparr>))"
    using g(1) buf i assms(4) write_cbor_frame_ok [OF buf(2) i(2)]
    by (simp add: deliver_row_def and_then_def fields on_db_at_def on_db_def outbox_mark_delivered_def call_ok
        set_stream_def g(5))
  ultimately show ?thesis using g(4) by (auto simp: set_stream_def)
qed

lemma can_deliver_mono:
  assumes "can_deliver c w peer s" "dm_secret s' = dm_secret s" "db_ok (dm_db s)" "db_ok (dm_db s')"
    "db_peers (dm_db s') = db_peers (dm_db s)" "db_tokens (dm_db s') = db_tokens (dm_db s)"
    "set (pending_of peer s') \<subseteq> set (pending_of peer s)"
  shows "can_deliver c w peer s'"
proof -
  have "fst (peer_get (PsNodeId peer) (dm_db s')) = fst (peer_get (PsNodeId peer) (dm_db s))"
    using assms(3-5) by (simp add: peer_get_def call_ok split: option.splits sum.splits)
  moreover have "fst (find_token_with_cap c pl peer (local_nodeid c s') Msg n (dm_db s')) =
      fst (find_token_with_cap c pl peer (local_nodeid c s) Msg n (dm_db s))" for pl n
    using assms(2-4,6) by (simp add: find_token_with_cap_def call_ok local_nodeid_def)
  ultimately show ?thesis using assms(1,7) unfolding can_deliver_def by (auto dest: subsetD) (meson subsetD)
qed

lemma deliver_rows_succeeds:
  assumes "can_deliver c w peer s" "streams_unbounded st (dm_wires s)" "db_inv (dm_db s)"
    and "distinct rs" "set rs \<subseteq> set (pending_of peer s)"
  shows "\<exists>st' s'. deliver_rows c w peer (map as_message rs) (st, s) = (Inr (), (st', s'))
    \<and> streams_unbounded st' (dm_wires s') \<and> can_deliver c w peer s'"
  using assms
proof (induction rs arbitrary: st s)
  case Nil
  then show ?case by simp
next
  case (Cons r rs)
  note ok = db_invD [OF Cons.prems(3)]
  have r: "r \<in> set (pending_of peer s)" using Cons.prems(5) by simp
  from deliver_row_succeeds [OF Cons.prems(1,2) r ok(1)] obtain st1 s1 now where
    d: "deliver_row c w peer (as_message r) (st, s) = (Inr (), (st1, s1))" "streams_unbounded st1 (dm_wires s1)"
    "dm_secret s1 = dm_secret s"
    "dm_db s1 = snd (outbox_mark_delivered now (NodeId (m_sender r)) (m_channel_id r) (as_u64 (m_seq r)) (dm_db s))" by blast
  have m: "r \<in> set (db_messages (dm_db s))" "m_direction r = 0" using r by (auto simp: pending_of_def msg_pending_def)
  have rok: "msg_rec_ok r" using ok(7) m(1) by (simp add: list_all_iff)
  have p1: "pending_of peer s1 = filter (\<lambda>x. x \<noteq> r) (pending_of peer s)"
    unfolding pending_of_def using mark_delivered_pending(1) [OF ok(1,6) m rok d(4), of "\<lambda>x. m_peer x = nid peer"]
    by simp
  have inv1: "db_inv (dm_db s1)" unfolding d(4)
    using ok mark_delivered_unique mark_delivered_rows message_ops_frame(2)
    by (intro db_inv_messages [OF Cons.prems(3)]) auto
  have "can_deliver c w peer s1"
    by (rule can_deliver_mono [OF Cons.prems(1) d(3) ok(1) db_invD(1) [OF inv1]]) (simp_all add: d(4), auto simp: p1)
  moreover have "set rs \<subseteq> set (pending_of peer s1)" using Cons.prems(4,5) by (auto simp: p1)
  ultimately obtain st' s' where "deliver_rows c w peer (map as_message rs) (st1, s1) = (Inr (), (st', s'))"
    "streams_unbounded st' (dm_wires s')" "can_deliver c w peer s'"
    using Cons.IH [OF _ d(2) inv1] Cons.prems(4) by auto
  with d(1) show ?case by simp
qed

lemma drain_succeeds:
  assumes w: "fresh_dials w" "is_plan (w_msg_plan w)"
    and "can_deliver c w peer s" "streams_unbounded st (dm_wires s)" "db_inv (dm_db s)" "streams_hold c peer F st (dm_wires s)"
  shows "\<exists>st' s'. drain_peer c w peer (st, s) = Some (Inr (), (st', s'))"
  using assms(3-6)
proof (induction "length (pending_of peer s)" arbitrary: st s F rule: less_induct)
  case less
  note q = drain_query [OF w(2) less.prems(3), of peer]
  note p = pending_rows_props [OF w(2) less.prems(3), of peer]
  show ?case
  proof (cases "batch w peer s = []")
    case True
    then show ?thesis by (subst drain_peer.simps) (simp add: q)
  next
    case False
    have B: "distinct (batch w peer s)" "set (batch w peer s) \<subseteq> set (pending_of peer s)"
      using p by (auto simp: batch_def dest: in_set_takeD)
    from deliver_rows_succeeds [OF less.prems(1,2,3) B] obtain st1 s1 where
      d: "deliver_rows c w peer (map as_message (batch w peer s)) (st, s) = (Inr (), (st1, s1))"
      "streams_unbounded st1 (dm_wires s1)" "can_deliver c w peer s1" by blast
    from batch_delivered [OF d(1) w less.prems(4,3)] have del: "delivered c peer (batch w peer s) s s1"
      and hold: "streams_hold c peer (add_frames F (batch w peer s)) st1 (dm_wires s1)" by auto
    obtain b where "b \<in> set (batch w peer s)" using False by (meson list.set_sel(1))
    with B(2) have "length (pending_of peer s1) < length (pending_of peer s)"
      unfolding delivered_pending [OF del] by (intro length_filter_less [of b]) auto
    moreover have "db_inv (dm_db s1)" using del by (simp add: delivered_def)
    ultimately obtain st' s' where "drain_peer c w peer (st1, s1) = Some (Inr (), (st', s'))"
      using less.hyps d(2,3) hold by blast
    then show ?thesis by (subst drain_peer.simps) (simp add: q False d(1))
  qed
qed

text \<open>
  C14 Messages get through.  When the peer is registered, a usable token from it is stored, dialling
  works and the frames fit, a drain succeeds: nothing stays pending for the peer and the peer decodes
  every message that was pending, on a stream for its channel.
\<close>

theorem drain_completes:
  assumes "cbor_laws c" and "fresh_dials w" and "is_plan (w_msg_plan w)" and "db_inv (dm_db s)" and "can_deliver c w peer s"
  shows "\<exists>st' s'. drain_peer c w peer ([], s) = Some (Inr (), (st', s')) \<and> pending_of peer s' = []
    \<and> (\<forall>r\<in>set (pending_of peer s). \<exists>wr\<in>set (dm_wires s'). wr_target wr = peer \<and> wr_channel wr = m_channel r
         \<and> frame_of (as_message r) \<in> set (received c wr))"
proof -
  have "streams_unbounded [] (dm_wires s)" by (simp add: streams_unbounded_def)
  from drain_succeeds [OF assms(2,3,5) this assms(4) streams_hold_empty] obtain st' s' where
    d: "drain_peer c w peer ([], s) = Some (Inr (), (st', s'))" by blast
  with drain_effect [OF assms(2,3) streams_hold_empty assms(4), of c peer] obtain L where
    L: "delivered c peer L s s'" "pending_of peer s' = []" by auto
  have "set (pending_of peer s) \<subseteq> set L" using delivered_pending [OF L(1)] L(2) by (metis (mono_tags, lifting) filter_empty_conv subsetI)
  then have "\<exists>wr\<in>set (dm_wires s'). wr_target wr = peer \<and> wr_channel wr = m_channel r
      \<and> frame_of (as_message r) \<in> set (received c wr)" if "r \<in> set (pending_of peer s)" for r
    using that L(1) carried_received [OF assms(1)] by (auto simp: delivered_def)
  with d L(2) show ?thesis by blast
qed

text \<open>A sender with one pending message, a token from its peer and a network that works.\<close>

definition sample_net :: world where
  "sample_net = sample_world\<lparr>w_secs := (\<lambda>_. 0), w_dial := (\<lambda>_ _ _. Some \<lparr>ss_out = [], ss_budget = None\<rparr>)\<rparr>"

definition sample_directory :: db where
  "sample_directory = sample_db\<lparr>
     db_peers := [\<lparr>p_nodeid = replicate 32 2, p_name = ''bob'', p_added_at_ms = 1, p_last_seen_ms = None, p_addr_blob = None\<rparr>],
     db_tokens := [\<lparr>t_id = replicate 16 4, t_iss = replicate 32 2, t_sub = replicate 32 1, t_exp = 100, t_caps = ''m'',
       t_raw = [], t_revoked = 0\<rparr>]\<rparr>"

definition sample_ready :: daemon where
  "sample_ready = sample_daemon\<lparr>dm_db := sample_directory\<lparr>db_messages := [sample_row]\<rparr>\<rparr>"

lemma sample_net_fresh: "fresh_dials sample_net" "is_plan (w_msg_plan sample_net)"
  by (simp_all add: fresh_dials_def sample_net_def sample_world_def)

lemma sample_directory_inv: "db_inv sample_directory"
  using sample_db_inv
  by (simp add: db_inv_def sample_directory_def db_ok_def orch_unique_def tokens_unique_def peers_unique_def
      unique_rows_def max_i64_def peer_rec_ok_def token_rec_ok_def)

lemma sample_ready_inv: "db_inv (dm_db sample_ready)"
  by (rule db_inv_messages [OF sample_directory_inv])
    (simp_all add: sample_ready_def messages_unique_def unique_rows_def msg_rec_ok_def sample_row_def max_i64_def)

lemma sample_pending: "pending_of (sample_node 2) sample_ready = [sample_row]"
  by (simp add: pending_of_def sample_ready_def msg_pending_def sample_row_def sample_node_def)

lemma sample_directory_deliver:
  assumes "db_inv (dm_db s)" "db_peers (dm_db s) = db_peers sample_directory" "db_tokens (dm_db s) = db_tokens sample_directory"
    and "dm_secret s = replicate 32 1" "\<forall>r\<in>set (pending_of (sample_node 2) s). m_channel r = ''a''"
    and "\<forall>r\<in>set (pending_of (sample_node 2) s). encodable sample_crates (frame_of (as_message r))"
  shows "can_deliver sample_crates sample_net (sample_node 2) s"
proof -
  note ok = db_invD(1) [OF assms(1)]
  let ?tok = "\<lparr>tr_id = replicate 16 4, tr_iss = sample_node 2, tr_sub = sample_node 1, tr_exp = 100, tr_caps = [Msg],
      tr_raw = [], tr_revoked = False\<rparr>"
  let ?st = "\<lparr>claims_cbor = [], sig = []\<rparr>"
  have dec: "signed_dec sample_crates [] = Some ?st"
    by (simp add: sample_crates_def s_signed_dec_def dec_bytes_def dec_u64_def)
  have ob: "\<exists>ob. open_enc sample_crates (StreamMsg ?st ''a'') = Some ob \<and> fits ob"
    by (simp add: sample_crates_def s_open_enc_def s_signed_enc_def short_def enc_bytes_def fits_def MAX_FRAME_BYTES_def)
  have z: "as_i64 0 = 0" by (simp add: as_i64_def)
  have me: "local_nodeid sample_crates s = sample_node 1" using sample_identity by (simp add: local_nodeid_def assms(4))
  have tok: "fst (find_token_with_cap sample_crates (w_token_plan sample_net) (sample_node 2) (sample_node 1) Msg
      (w_secs sample_net n) (dm_db s)) = Inr (Some ?tok)" for n
    using ok by (simp add: find_token_with_cap_def call_ok sample_net_def sample_world_def z assms(3))
      (simp add: sample_directory_def sample_node_def sql_order_by_def row_to_token_def fixed_16_def fixed_32_def
        sample_crates_def as_u64_def)
  have peer: "fst (peer_get (PsNodeId (sample_node 2)) (dm_db s)) = Inr (Some \<lparr>pr_nodeid = sample_node 2,
      pr_name = ''bob'', pr_added_at_ms = 1, pr_last_seen_ms = None, pr_addr_blob = None\<rparr>)"
    using ok by (simp add: peer_get_def call_ok assms(2))
      (simp add: sample_directory_def sample_node_def sql_query_row_def peer_matches_def row_to_peer_def fixed_32_def as_u64_def)
  have dial: "\<forall>i n t. \<exists>snd. w_dial sample_net i n t = Some snd \<and> ss_budget snd = None" by (simp add: sample_net_def)
  show ?thesis
    unfolding can_deliver_def me using tok peer dec ob assms(5,6) dial by auto
qed

lemma sample_can_deliver: "can_deliver sample_crates sample_net (sample_node 2) sample_ready"
proof (rule sample_directory_deliver [OF sample_ready_inv])
  show "\<forall>r\<in>set (pending_of (sample_node 2) sample_ready). encodable sample_crates (frame_of (as_message r))"
    unfolding sample_pending
    by (simp add: encodable_def sample_crates_def s_frame_enc_def fits_def MAX_FRAME_BYTES_def frame_of_def as_message_def
        sample_row_def)
qed (unfold sample_pending, simp_all add: sample_ready_def sample_daemon_def daemon_start_def sample_row_def)

lemma drain_completes_witness:
  "\<exists>st' s'. drain_peer sample_crates sample_net (sample_node 2) ([], sample_ready) = Some (Inr (), (st', s'))
     \<and> (\<exists>wr\<in>set (dm_wires s'). frame_of (as_message sample_row) \<in> set (received sample_crates wr))"
  using drain_completes [OF sample_cbor sample_net_fresh sample_ready_inv sample_can_deliver]
  unfolding sample_pending by fastforce


text \<open>
  A queued message is always looked after.  Waking a peer's delivery leaves an open wake handle for
  it; a task is started exactly when none was listening, and the handles and tasks of other peers are
  as before.
\<close>

lemma notify_peer_wakes:
  "(\<exists>wk. map_of (dm_wakers (notify_peer peer s)) peer = Some wk \<and> wk_open wk)
   \<and> dm_delivery_tasks (notify_peer peer s) =
       (if \<exists>wk. map_of (dm_wakers s) peer = Some wk \<and> wk_open wk then dm_delivery_tasks s else dm_delivery_tasks s @ [peer])
   \<and> (\<forall>other. other \<noteq> peer \<longrightarrow> map_of (dm_wakers (notify_peer peer s)) other = map_of (dm_wakers s) other)
   \<and> dm_db (notify_peer peer s) = dm_db s"
  by (auto simp: notify_peer_def Let_def update_conv' delete_conv split: option.splits)

end
