(* ===== verification/Wt_Harness.thy ===== *)
theory Wt_Harness
  imports Wt_Framing "HOL-Library.Sublist"
begin

text \<open>
  \<^verbatim>\<open>src/crates/wt-core/src/harness.rs\<close>: the launch command, the line reader over the child's
  standard output, the mapping of stream-json lines to events, and the turns written to its
  standard input.  JSON text is parsed and printed by another crate: \<open>hx_parse\<close> and \<open>hx_print\<close>.
  What the child does is a list of outcomes of \<open>read\<close>; a call of \<open>next_event\<close> that runs out of them
  is still waiting.
\<close>

section \<open>JSON values and the crate that reads them\<close>

datatype json =
    JNull
  | JBool bool
  | JNumber string
  | JString string
  | JArray "json list"
  | JObject "(string \<times> json) list"

definition j_get :: "string \<Rightarrow> json \<Rightarrow> json option" where
  "j_get k v = (case v of JObject fs \<Rightarrow> map_of fs k | _ \<Rightarrow> None)"

definition j_str :: "json \<Rightarrow> string option" where
  "j_str v = (case v of JString s \<Rightarrow> Some s | _ \<Rightarrow> None)"

definition j_bool :: "json \<Rightarrow> bool option" where
  "j_bool v = (case v of JBool b \<Rightarrow> Some b | _ \<Rightarrow> None)"

definition j_array :: "json \<Rightarrow> json list option" where
  "j_array v = (case v of JArray xs \<Rightarrow> Some xs | _ \<Rightarrow> None)"

record json_crate =
  hx_parse :: "string \<Rightarrow> json option"
  hx_print :: "json \<Rightarrow> bytes option"

section \<open>Launching\<close>

record HarnessSpec =
  hs_argv :: "string list"
  hs_cwd :: string
  hs_env :: "(string \<times> string) list"
  hs_initial_prompt :: string
  hs_stderr_log :: "string option"

datatype HarnessEvent =
    AssistantText string
  | TurnComplete string bool
  | Exited "int option"

text \<open>\<open>env_cmd\<close> is \<open>$WT_HARNESS_CMD\<close>.\<close>

definition claude_argv :: "string option \<Rightarrow> string option \<Rightarrow> bool \<Rightarrow> string list" where
  "claude_argv env_cmd permission_mode skip_permissions =
     (let argv = [''claude'', ''--print'', ''--input-format'', ''stream-json'', ''--output-format'', ''stream-json'',
                  ''--verbose''];
          argv = argv @ (case permission_mode of Some mode \<Rightarrow> [''--permission-mode'', mode] | None \<Rightarrow> []);
          argv = argv @ (if skip_permissions then [''--dangerously-skip-permissions''] else [])
      in case env_cmd of
           Some cmd \<Rightarrow> if trim cmd \<noteq> [] then split_whitespace cmd else argv
         | None \<Rightarrow> argv)"

definition default_claude_argv :: "string option \<Rightarrow> string list" where
  "default_claude_argv env_cmd = claude_argv env_cmd None False"

section \<open>The running harness\<close>

definition MAX_LINE_BYTES :: int where
  "MAX_LINE_BYTES = 16777216"

datatype ReadOutcome = ReadBytes bytes | ReadEof | ReadFailed

text \<open>\<open>hn_buf\<close> holds the bytes read but not yet framed into a line.\<close>

record Harness =
  hn_pid :: "int option"
  hn_stdin :: SendStream
  hn_buf :: bytes
  hn_code :: "int option"

datatype harness_error = EmptyArgv | SpawnFailed | EncodeTurn | WriteStdin | ReadStdout | LineTooLong

definition user_turn :: "string \<Rightarrow> json" where
  "user_turn text = JObject [(''type'', JString ''user''),
     (''message'', JObject [(''role'', JString ''user''),
        (''content'', JArray [JObject [(''type'', JString ''text''), (''text'', JString text)]])])]"

definition send_turn :: "json_crate \<Rightarrow> string \<Rightarrow> Harness \<Rightarrow> (harness_error + unit) \<times> Harness" where
  "send_turn j text h =
     (case hx_print j (user_turn text) of
        None \<Rightarrow> (Inl EncodeTurn, h)
      | Some line \<Rightarrow>
          (case write_all (hn_stdin h) (line @ [0x0A]) of
             (True, s) \<Rightarrow> (Inr (), h\<lparr>hn_stdin := s\<rparr>)
           | (False, s) \<Rightarrow> (Inl WriteStdin, h\<lparr>hn_stdin := s\<rparr>)))"

text \<open>\<open>proc\<close> is what starting the program gives: the pid and the pipe to its standard input, or
  nothing.\<close>

definition harness_spawn ::
  "json_crate \<Rightarrow> (HarnessSpec \<Rightarrow> (int option \<times> SendStream) option) \<Rightarrow> HarnessSpec \<Rightarrow> harness_error + Harness" where
  "harness_spawn j proc spec =
     (if hs_argv spec = [] then Inl EmptyArgv
      else case proc spec of
             None \<Rightarrow> Inl SpawnFailed
           | Some (pid, stdin) \<Rightarrow>
               (let h = \<lparr>hn_pid = pid, hn_stdin = stdin, hn_buf = [], hn_code = None\<rparr> in
                if hs_initial_prompt spec = [] then Inr h
                else (case send_turn j (hs_initial_prompt spec) h of
                        (Inl e, _) \<Rightarrow> Inl e
                      | (Inr _, h') \<Rightarrow> Inr h')))"

section \<open>Reading events\<close>

definition text_block :: "json \<Rightarrow> string" where
  "text_block block =
     (if Option.bind (j_get ''type'' block) j_str = Some ''text''
      then (case Option.bind (j_get ''text'' block) j_str of Some t \<Rightarrow> t | None \<Rightarrow> [])
      else [])"

definition extract_assistant_text :: "json \<Rightarrow> string option" where
  "extract_assistant_text v =
     map_option (\<lambda>arr. concat (map text_block arr))
       (Option.bind (Option.bind (j_get ''message'' v) (j_get ''content'')) j_array)"

definition parse_event :: "json_crate \<Rightarrow> string \<Rightarrow> HarnessEvent option" where
  "parse_event j line =
     (case hx_parse j line of
        None \<Rightarrow> None
      | Some v \<Rightarrow>
          (case Option.bind (j_get ''type'' v) j_str of
             None \<Rightarrow> None
           | Some ty \<Rightarrow>
               if ty = ''assistant'' then
                 (let txt = (case extract_assistant_text v of Some t \<Rightarrow> t | None \<Rightarrow> []) in
                  if txt \<noteq> [] then Some (AssistantText txt) else None)
               else if ty = ''result'' then
                 Some (TurnComplete
                   (case Option.bind (j_get ''result'' v) j_str of Some r \<Rightarrow> r | None \<Rightarrow> [])
                   (case Option.bind (j_get ''is_error'' v) j_bool of Some b \<Rightarrow> b | None \<Rightarrow> False))
               else None))"

text \<open>\<open>buf.iter().position(b'\n')\<close> and \<open>drain(..=pos)\<close>.\<close>

fun split_line :: "bytes \<Rightarrow> (bytes \<times> bytes) option" where
  "split_line [] = None"
| "split_line (b # bs) =
     (if b = 0x0A then Some ([b], bs)
      else map_option (\<lambda>(l, r). (b # l, r)) (split_line bs))"

lemma split_line_shorter: "split_line bs = Some (l, r) \<Longrightarrow> bs = l @ r \<and> l \<noteq> []"
  by (induction bs arbitrary: l r) (auto split: if_splits)

definition line_event :: "json_crate \<Rightarrow> bytes \<Rightarrow> HarnessEvent option" where
  "line_event j raw = (let line = trim (from_utf8_lossy raw) in if line = [] then None else parse_event j line)"

text \<open>The inner loop: drop complete lines until one is an event.\<close>

function drain_lines :: "json_crate \<Rightarrow> bytes \<Rightarrow> HarnessEvent option \<times> bytes" where
  "drain_lines j buf =
     (case split_line buf of
        None \<Rightarrow> (None, buf)
      | Some (raw, rest) \<Rightarrow>
          (case line_event j raw of
             Some ev \<Rightarrow> (Some ev, rest)
           | None \<Rightarrow> drain_lines j rest))"
  by pat_completeness auto
termination
  by (relation "measure (\<lambda>(j, buf). length buf)") (auto dest!: split_line_shorter)

declare drain_lines.simps [simp del]

datatype NextEvent = NextEvent HarnessEvent | NextError harness_error | NextWaiting

text \<open>One call of \<open>next_event\<close> against the reads the child's pipe answers; what it leaves unread is
  returned.  Dropping the call while it waits loses nothing: the buffer is part of the harness.\<close>

fun next_event :: "json_crate \<Rightarrow> Harness \<Rightarrow> ReadOutcome list \<Rightarrow> NextEvent \<times> Harness \<times> ReadOutcome list" where
  "next_event j h reads =
     (case drain_lines j (hn_buf h) of
        (Some ev, rest) \<Rightarrow> (NextEvent ev, h\<lparr>hn_buf := rest\<rparr>, reads)
      | (None, rest) \<Rightarrow>
          (let h1 = h\<lparr>hn_buf := rest\<rparr> in
           if int (length rest) > MAX_LINE_BYTES then (NextError LineTooLong, h1, reads)
           else (case reads of
                   [] \<Rightarrow> (NextWaiting, h1, [])
                 | r # rs \<Rightarrow>
                     (case r of
                        ReadFailed \<Rightarrow> (NextError ReadStdout, h1, rs)
                      | ReadEof \<Rightarrow> (NextEvent (Exited (hn_code h1)), h1, rs)
                      | ReadBytes bs \<Rightarrow>
                          if bs = [] then (NextEvent (Exited (hn_code h1)), h1, rs)
                          else next_event j (h1\<lparr>hn_buf := hn_buf h1 @ bs\<rparr>) rs))))"

declare next_event.simps [simp del]

section \<open>Lemmas: framing does not depend on the reads\<close>

text \<open>The lines a byte string completes, and the events in them.\<close>

function complete_lines :: "bytes \<Rightarrow> bytes list" where
  "complete_lines buf = (case split_line buf of None \<Rightarrow> [] | Some (raw, rest) \<Rightarrow> raw # complete_lines rest)"
  by pat_completeness auto
termination
  by (relation "measure length") (auto dest!: split_line_shorter)

declare complete_lines.simps [simp del]

definition line_events :: "json_crate \<Rightarrow> bytes \<Rightarrow> HarnessEvent list" where
  "line_events j bs = List.map_filter (line_event j) (complete_lines bs)"

lemma split_line_append: "split_line a = Some (l, r) \<Longrightarrow> split_line (a @ b) = Some (l, r @ b)"
  by (induction a arbitrary: l r) (auto split: if_splits)

lemma drain_lines_unfold:
  assumes "split_line buf = Some (raw, rest)"
  shows "drain_lines j buf = (case line_event j raw of Some e \<Rightarrow> (Some e, rest) | None \<Rightarrow> drain_lines j rest)"
    and "line_events j (buf @ xs) =
          (case line_event j raw of None \<Rightarrow> line_events j (rest @ xs) | Some e \<Rightarrow> e # line_events j (rest @ xs))"
    and "length rest < length buf"
proof -
  show "drain_lines j buf = (case line_event j raw of Some e \<Rightarrow> (Some e, rest) | None \<Rightarrow> drain_lines j rest)"
    by (subst drain_lines.simps) (simp add: assms)
  have "complete_lines (buf @ xs) = raw # complete_lines (rest @ xs)"
    by (subst complete_lines.simps) (simp add: split_line_append [OF assms])
  then show "line_events j (buf @ xs) =
          (case line_event j raw of None \<Rightarrow> line_events j (rest @ xs) | Some e \<Rightarrow> e # line_events j (rest @ xs))"
    by (simp add: line_events_def map_filter_simps split: option.splits)
  show "length rest < length buf" using split_line_shorter [OF assms] by auto
qed

lemma drain_lines_spec:
  "drain_lines j buf = (x, rest) \<Longrightarrow>
     line_events j (buf @ xs) = (case x of None \<Rightarrow> [] | Some ev \<Rightarrow> [ev]) @ line_events j (rest @ xs)
     \<and> suffix rest buf \<and> (x = None \<longrightarrow> split_line rest = None)"
proof (induction buf rule: length_induct)
  case (1 buf)
  show ?case
  proof (cases "split_line buf")
    case None
    with 1(2) show ?thesis by (simp add: drain_lines.simps)
  next
    case (Some p)
    then obtain raw mid where s: "split_line buf = Some (raw, mid)" by (cases p) auto
    note u = drain_lines_unfold [OF s]
    have buf: "buf = raw @ mid" using split_line_shorter [OF s] by simp
    show ?thesis
    proof (cases "line_event j raw")
      case None
      with 1(2) u(1) have "drain_lines j mid = (x, rest)" by simp
      from 1(1) [rule_format, OF u(3) this] u(2) None buf show ?thesis by (auto intro: suffix_appendI)
    next
      case (Some e)
      with 1(2) u(1) have "x = Some e" "rest = mid" by simp_all
      with u(2) Some buf show ?thesis by (simp add: suffix_def)
    qed
  qed
qed

lemma line_events_none: "split_line rest = None \<Longrightarrow> line_events j rest = []"
  by (subst line_events_def, subst complete_lines.simps) (simp add: map_filter_simps)

lemma next_event_found:
  assumes "drain_lines j (hn_buf h) = (Some ev, rest)"
  shows "next_event j h (map ReadBytes chunks) = (NextEvent ev, h\<lparr>hn_buf := rest\<rparr>, map ReadBytes chunks)
    \<and> (\<forall>xs. line_events j (hn_buf h @ concat chunks @ xs) = ev # line_events j (rest @ concat chunks @ xs))"
proof -
  have "next_event j h (map ReadBytes chunks) = (NextEvent ev, h\<lparr>hn_buf := rest\<rparr>, map ReadBytes chunks)"
    using assms by (subst next_event.simps) simp
  then show ?thesis using drain_lines_spec [OF assms] by simp
qed

section \<open>Properties\<close>

text \<open>
  C26 Reading the child is independent of how its output is cut into reads.  One call of \<open>next_event\<close>
  returns the first event among the complete lines of everything buffered and readable, skipping lines
  that are not events, or waits when there is none; and whichever it does, the events still to come
  from the remaining bytes are exactly the ones after it, so abandoning a waiting call loses nothing.
\<close>

theorem next_event_framing:
  assumes "list_all (\<lambda>ch. ch \<noteq> []) chunks" and "int (length (hn_buf h @ concat chunks)) \<le> MAX_LINE_BYTES"
  shows "\<exists>h' chunks'. next_event j h (map ReadBytes chunks) =
       ((case line_events j (hn_buf h @ concat chunks) of [] \<Rightarrow> NextWaiting | ev # _ \<Rightarrow> NextEvent ev), h', map ReadBytes chunks')
     \<and> (\<forall>xs. line_events j (hn_buf h @ concat chunks @ xs) =
          (case line_events j (hn_buf h @ concat chunks) of [] \<Rightarrow> [] | ev # _ \<Rightarrow> [ev])
            @ line_events j (hn_buf h' @ concat chunks' @ xs))
     \<and> hn_stdin h' = hn_stdin h"
  using assms
proof (induction chunks arbitrary: h)
  case Nil
  obtain x rest where d: "drain_lines j (hn_buf h) = (x, rest)" by fastforce
  note s = drain_lines_spec [OF d]
  have "suffix rest (hn_buf h)" using s by blast
  then have small: "int (length rest) \<le> MAX_LINE_BYTES" using Nil.prems(2) by (auto simp: suffix_def)
  show ?case
  proof (cases x)
    case None
    have "line_events j (hn_buf h) = []" using s [of "[]"] None line_events_none [of rest j] by simp
    with d None small s show ?thesis by (subst next_event.simps) (auto simp: Let_def)
  next
    case (Some ev)
    have "line_events j (hn_buf h) = ev # line_events j rest" using s [of "[]"] Some by simp
    with next_event_found [OF d [unfolded Some], of "[]"] show ?thesis by fastforce
  qed
next
  case (Cons ch chunks)
  obtain x rest where d: "drain_lines j (hn_buf h) = (x, rest)" by fastforce
  note s = drain_lines_spec [OF d]
  have suf: "suffix rest (hn_buf h)" using s by blast
  then have small: "int (length rest) \<le> MAX_LINE_BYTES" using Cons.prems(2) by (auto simp: suffix_def)
  show ?case
  proof (cases x)
    case None
    let ?h = "h\<lparr>hn_buf := rest @ ch\<rparr>"
    have le: "int (length (hn_buf ?h @ concat chunks)) \<le> MAX_LINE_BYTES"
      using suf Cons.prems(2) by (auto simp: suffix_def)
    have step: "next_event j h (map ReadBytes (ch # chunks)) = next_event j ?h (map ReadBytes chunks)"
      using d None small Cons.prems(1) by (subst next_event.simps) (simp add: Let_def)
    have ev: "line_events j (hn_buf h @ concat (ch # chunks) @ xs) = line_events j (hn_buf ?h @ concat chunks @ xs)" for xs
      using s [of "ch @ concat chunks @ xs"] None by simp
    from Cons.IH [OF _ le] Cons.prems(1) show ?thesis
      unfolding step using ev ev [of "[]"] by simp
  next
    case (Some ev)
    have "line_events j (hn_buf h @ concat (ch # chunks)) = ev # line_events j (rest @ concat (ch # chunks))"
      using s [of "concat (ch # chunks)"] Some by simp
    with next_event_found [OF d [unfolded Some], of "ch # chunks"] show ?thesis
      by (intro exI [where x = "h\<lparr>hn_buf := rest\<rparr>"] exI [where x = "ch # chunks"]) simp
  qed
qed

text \<open>A parser that knows one line.\<close>

definition sample_json_crate :: json_crate where
  "sample_json_crate =
     \<lparr>hx_parse = (\<lambda>s. if s = ''R'' then Some (JObject [(''type'', JString ''result''), (''result'', JString ''ok'')]) else None),
      hx_print = (\<lambda>v. Some [0x7B])\<rparr>"

definition sample_harness :: Harness where
  "sample_harness = \<lparr>hn_pid = Some 7, hn_stdin = \<lparr>ss_out = [], ss_budget = None\<rparr>, hn_buf = [], hn_code = None\<rparr>"

lemma sample_line_events: "line_events sample_json_crate [0x52, 0x0A] = [TurnComplete ''ok'' False]"
proof -
  have t: "trim (from_utf8_lossy [0x52, 0x0A]) = ''R''" by code_simp
  have "line_event sample_json_crate [0x52, 0x0A] = Some (TurnComplete ''ok'' False)"
    by (simp add: line_event_def Let_def t parse_event_def sample_json_crate_def j_get_def j_str_def)
  moreover have "complete_lines [0x52, 0x0A] = [[0x52, 0x0A]]"
    by (simp add: complete_lines.simps)
  ultimately show ?thesis by (simp add: line_events_def map_filter_simps)
qed

lemma next_event_framing_witness:
  "fst (next_event sample_json_crate sample_harness [ReadBytes [0x52], ReadBytes [0x0A]]) = NextEvent (TurnComplete ''ok'' False)"
proof -
  have "list_all (\<lambda>ch. ch \<noteq> []) [[0x52], [0x0A :: u8]]" by simp
  moreover have "int (length (hn_buf sample_harness @ concat [[0x52], [0x0A :: u8]])) \<le> MAX_LINE_BYTES"
    by (simp add: sample_harness_def MAX_LINE_BYTES_def)
  ultimately obtain h' chunks' where "next_event sample_json_crate sample_harness (map ReadBytes [[0x52], [0x0A]]) =
       ((case line_events sample_json_crate (hn_buf sample_harness @ concat [[0x52], [0x0A]]) of [] \<Rightarrow> NextWaiting | ev # _ \<Rightarrow> NextEvent ev),
        h', map ReadBytes chunks')"
    using next_event_framing [of "[[0x52], [0x0A]]" sample_harness sample_json_crate] by blast
  then show ?thesis by (simp add: sample_harness_def sample_line_events)
qed

end
