(* ===== verification/Wt_Supervisor.thy ===== *)
theory Wt_Supervisor
  imports Wt_Daemon Wt_Harness
begin

text \<open>
  \<^verbatim>\<open>src/crates/wt-daemon/src/supervisor.rs\<close>: starting a supervised child, the loop that reads the
  harness, feeds it the prime's turns and watches for idle turns, and what is left when it ends.
  The loop is a step function over what its \<open>select!\<close> finds ready; each outcome carries the
  instant (in nanoseconds) at which it is handled.
\<close>

section \<open>Starting\<close>

record Supervised =
  sv_group :: string
  sv_session :: string
  sv_prime :: string
  sv_idle_timeout :: "nat option"
  sv_trace :: bool

datatype sup_error = SupHarness harness_error | SupDaemon dm_error

text \<open>Start the harness, mark the child running, record the opening prompt as already consumed and
  register the task.  The result pairs the pid with the harness the task owns.\<close>

text \<open>The opening prompt goes on the bus for observers, already consumed: the child has it as its first turn.\<close>

definition record_prompt :: "world \<Rightarrow> Supervised \<Rightarrow> string \<Rightarrow> 'z daemon_scheme \<Rightarrow> 'z daemon_scheme" where
  "record_prompt w p prompt s =
     (if prompt = [] then s
      else case bus_enqueue w (sv_group p) (sv_session p) (sv_prime p) (sv_session p) TurnInput (bytes_of prompt) s of
             (Inl _, t) \<Rightarrow> t
           | (Inr sq, t) \<Rightarrow> snd (on_db_at w (\<lambda>now. agent_msg_mark_consumed now (sv_group p) (sv_session p) sq) t))"

definition supervisor_start ::
  "json_crate \<Rightarrow> world \<Rightarrow> (HarnessSpec \<Rightarrow> (int option \<times> SendStream) option) \<Rightarrow> Supervised \<Rightarrow> HarnessSpec \<Rightarrow> 'z daemon_scheme
     \<Rightarrow> (sup_error + Harness) \<times> 'z daemon_scheme" where
  "supervisor_start j w proc p spec s =
     (let grp = sv_group p; child = sv_session p in
      case harness_spawn j proc spec of
        Inl e \<Rightarrow> (Inl (SupHarness e), s)
      | Inr h \<Rightarrow>
          (case on_db_at w (\<lambda>now. agent_set_status now grp child ''running'' (hn_pid h)) s of
             (Inl e, s1) \<Rightarrow> (Inl (SupDaemon e), s1)
           | (Inr _, s1) \<Rightarrow>
               (let s2 = record_prompt w p (hs_initial_prompt spec) s1
                in (Inr h, register_child grp child (dm_tick s2) s2))))"

section \<open>Feeding turns\<close>

fun feed_rows ::
  "json_crate \<Rightarrow> world \<Rightarrow> string \<Rightarrow> string \<Rightarrow> AgentMsgRow list \<Rightarrow> nat \<Rightarrow> Harness \<times> 'z daemon_scheme
     \<Rightarrow> (sup_error + nat) \<times> Harness \<times> 'z daemon_scheme" where
  "feed_rows j w grp child [] fed z = (Inr fed, z)"
| "feed_rows j w grp child (row # rows) fed (h, s) =
     (case send_turn j (from_utf8_lossy (am_payload row)) h of
        (Inl e, h') \<Rightarrow> (Inl (SupHarness e), (h', s))
      | (Inr _, h') \<Rightarrow>
          (let s1 = snd (on_db_at w (\<lambda>now. agent_msg_mark_consumed now grp (am_session row) (am_seq row)) s);
               s2 = snd (on_db_at w (\<lambda>now. agent_set_status now grp child ''running'' None) s1)
           in feed_rows j w grp child rows (Suc fed) (h', s2)))"

definition drain_turn_inputs ::
  "json_crate \<Rightarrow> world \<Rightarrow> string \<Rightarrow> string \<Rightarrow> Harness \<times> 'z daemon_scheme \<Rightarrow> (sup_error + nat) \<times> Harness \<times> 'z daemon_scheme" where
  "drain_turn_inputs j w grp child z =
     (case on_db (agent_msg_pending (w_bus_plan w) grp child ''turn_input'') (snd z) of
        (Inl e, s) \<Rightarrow> (Inl (SupDaemon e), (fst z, s))
      | (Inr rows, s) \<Rightarrow> feed_rows j w grp child rows 0 (fst z, s))"

section \<open>The loop\<close>

definition finish ::
  "world \<Rightarrow> string \<Rightarrow> string \<Rightarrow> string \<Rightarrow> string \<Rightarrow> string \<Rightarrow> 'z daemon_scheme \<Rightarrow> 'z daemon_scheme" where
  "finish w grp session child prime reason s =
     (let s1 = snd (on_db_at w (\<lambda>now. agent_set_status now grp child ''exited'' None) s);
          s2 = snd (bus_enqueue w grp session child prime Control (bytes_of reason) s1)
      in forget_child grp child s2)"

record SupLoop =
  sl_turn_active :: bool
  sl_last_activity :: nat
  sl_idle_notified :: bool

type_synonym 'z sup_state = "SupLoop \<times> Harness \<times> 'z daemon_scheme"

datatype Ready =
    RdyEvent HarnessEvent
  | RdyReadError
  | RdyBus
  | RdyBusClosed
  | RdyPoll

text \<open>\<open>drain_or_die!\<close>: the flag says whether the task goes on.\<close>

definition drain_or_die :: "json_crate \<Rightarrow> world \<Rightarrow> Supervised \<Rightarrow> nat \<Rightarrow> 'z sup_state \<Rightarrow> bool \<times> 'z sup_state" where
  "drain_or_die j w p now z =
     (case z of (l, h, s) \<Rightarrow>
        (case drain_turn_inputs j w (sv_group p) (sv_session p) (h, s) of
           (Inr fed, (h', s')) \<Rightarrow>
             (True, (if fed > 0 then \<lparr>sl_turn_active = True, sl_last_activity = now, sl_idle_notified = False\<rparr> else l),
              h', s')
         | (Inl _, (h', s')) \<Rightarrow>
             (False, l, h', finish w (sv_group p) (sv_session p) (sv_session p) (sv_prime p) ''harness write failed'' s')))"

definition show_code :: "int option \<Rightarrow> string" where
  "show_code ec = (case ec of None \<Rightarrow> ''None'' | Some n \<Rightarrow> ''Some('' @ show_int n @ '')'')"

definition idle_text :: "nat \<Rightarrow> string" where
  "idle_text secs = ''turn idle for '' @ show_nat secs @ ''s '' @ [CHR 0xE2, CHR 0x80, CHR 0x94] @ '' harness still running''"

definition idle_check :: "world \<Rightarrow> Supervised \<Rightarrow> nat \<Rightarrow> 'z sup_state \<Rightarrow> 'z sup_state" where
  "idle_check w p now z =
     (case z of (l, h, s) \<Rightarrow>
        if sl_turn_active l \<and> \<not> sl_idle_notified l then
          (case sv_idle_timeout p of
             None \<Rightarrow> (l, h, s)
           | Some t \<Rightarrow>
               let idle = now - sl_last_activity l in
               if idle \<ge> t * 1000000000
               then (l\<lparr>sl_idle_notified := True\<rparr>, h,
                     snd (bus_enqueue w (sv_group p) (sv_session p) (sv_session p) (sv_prime p) Control
                            (bytes_of (idle_text (idle div 1000000000))) s))
               else (l, h, s))
        else (l, h, s))"

definition sup_step :: "json_crate \<Rightarrow> world \<Rightarrow> Supervised \<Rightarrow> nat \<times> Ready \<Rightarrow> 'z sup_state \<Rightarrow> bool \<times> 'z sup_state" where
  "sup_step j w p ready z =
     (case ready of (now, r) \<Rightarrow> case z of (l, h, s) \<Rightarrow>
        let grp = sv_group p; session = sv_session p; child = sv_session p; prime = sv_prime p in
        (case r of
           RdyEvent (AssistantText text) \<Rightarrow>
             (True, l\<lparr>sl_last_activity := now, sl_idle_notified := False\<rparr>, h,
              if sv_trace p then snd (bus_enqueue w grp session child prime Trace (bytes_of text) s) else s)
         | RdyEvent (TurnComplete result _) \<Rightarrow>
             (let s1 = snd (bus_enqueue w grp session child prime TurnOutput (bytes_of result) s);
                  s2 = snd (on_db_at w (\<lambda>now. agent_set_status now grp child ''awaiting_input'' None) s1)
              in (True, \<lparr>sl_turn_active = False, sl_last_activity = now, sl_idle_notified = False\<rparr>, h, s2))
         | RdyEvent (Exited ec) \<Rightarrow>
             (False, l, h, finish w grp session child prime (''child exited (code '' @ show_code ec @ '')'') s)
         | RdyReadError \<Rightarrow> (False, l, h, finish w grp session child prime ''harness read error'' s)
         | RdyBus \<Rightarrow> drain_or_die j w p now (l, h, s)
         | RdyBusClosed \<Rightarrow> (False, l, h, forget_child grp child s)
         | RdyPoll \<Rightarrow>
             (case drain_or_die j w p now (l, h, snd (on_db_at w (\<lambda>now. agent_touch now grp child) s)) of
                (False, z') \<Rightarrow> (False, z')
              | (True, z') \<Rightarrow> (True, idle_check w p now z'))))"

text \<open>The task: feed what is queued, then handle what becomes ready until it ends; \<open>True\<close> says that it
  is still running at the end of the list.\<close>

fun sup_loop :: "json_crate \<Rightarrow> world \<Rightarrow> Supervised \<Rightarrow> (nat \<times> Ready) list \<Rightarrow> 'z sup_state \<Rightarrow> bool \<times> 'z sup_state" where
  "sup_loop j w p [] z = (True, z)"
| "sup_loop j w p (r # rs) z =
     (case sup_step j w p r z of
        (False, z') \<Rightarrow> (False, z')
      | (True, z') \<Rightarrow> sup_loop j w p rs z')"

definition supervisor_run ::
  "json_crate \<Rightarrow> world \<Rightarrow> Supervised \<Rightarrow> bool \<Rightarrow> nat \<Rightarrow> (nat \<times> Ready) list \<Rightarrow> Harness \<times> 'z daemon_scheme \<Rightarrow> bool \<times> 'z sup_state" where
  "supervisor_run j w p initial_turn now rs z =
     (case z of (h, s) \<Rightarrow>
        (case drain_or_die j w p now
                (\<lparr>sl_turn_active = initial_turn, sl_last_activity = now, sl_idle_notified = False\<rparr>, h, s) of
           (False, z') \<Rightarrow> (False, z')
         | (True, z') \<Rightarrow> sup_loop j w p rs z'))"

section \<open>Lemmas: what the child is fed\<close>

text \<open>The line one pending row becomes on the child's standard input.\<close>

definition turn_line :: "json_crate \<Rightarrow> AgentMsgRow \<Rightarrow> bytes" where
  "turn_line j row =
     (case hx_print j (user_turn (from_utf8_lossy (am_payload row))) of Some l \<Rightarrow> l @ [0x0A] | None \<Rightarrow> [])"

definition fed_lines :: "json_crate \<Rightarrow> AgentMsgRow list \<Rightarrow> bytes" where
  "fed_lines j rows = concat (map (turn_line j) rows)"

text \<open>The turns waiting for a child, as the query returns them.\<close>

definition pending_turns :: "world \<Rightarrow> string \<Rightarrow> string \<Rightarrow> 'z daemon_scheme \<Rightarrow> AgentMsgRow list" where
  "pending_turns w grp child s =
     sql_order_by am_sq (w_bus_plan w (filter (am_pending grp child ''turn_input'') (db_agent_messages (dm_db s))))"

definition hn_out :: "Harness \<Rightarrow> bytes" where
  "hn_out h = ss_out (hn_stdin h)"

lemma send_turn_out:
  assumes "send_turn j text h = (r, h')"
  shows "\<exists>part. hn_out h' = hn_out h @ part \<and> (is_ok r \<longrightarrow> hx_print j (user_turn text) = Some (butlast part) \<and> part = butlast part @ [0x0A])"
  using assms
  by (auto simp: send_turn_def write_all_def hn_out_def split: option.splits if_splits prod.splits)

lemma send_turn_line:
  assumes "send_turn j (from_utf8_lossy (am_payload row)) h = (r, h')"
  shows "\<exists>part. hn_out h' = hn_out h @ part \<and> (is_ok r \<longrightarrow> part = turn_line j row)"
  using send_turn_out [OF assms] by (auto simp: turn_line_def)

text \<open>Consuming one row, as the supervisor does it: the row leaves every selection of unconsumed rows.\<close>

lemma consume_row:
  assumes "db_ok (dm_db s)" "bus_unique (db_agent_messages (dm_db s))" "row \<in> set (db_agent_messages (dm_db s))"
    "am_group row = grp"
    and s': "s' = snd (on_db_at w (\<lambda>now. agent_set_status now grp child st None)
      (snd (on_db_at w (\<lambda>now. agent_msg_mark_consumed now grp (am_session row) (am_seq row)) s)))"
  shows "db_ok (dm_db s')" "bus_unique (db_agent_messages (dm_db s'))"
    and "\<And>Q. (\<And>x. Q x \<Longrightarrow> am_consumed_at_ms x = None) \<Longrightarrow>
       filter Q (db_agent_messages (dm_db s')) = filter (\<lambda>x. Q x \<and> x \<noteq> row) (db_agent_messages (dm_db s))"
proof -
  note mc = mark_consumed_filter [OF assms(1-3) _ refl, of _ "w_ms w (dm_tick s)"]
  show "db_ok (dm_db s')" using assms(1) by (simp add: s')
  show "bus_unique (db_agent_messages (dm_db s'))" using mark_consumed_unique [OF assms(2)] by (simp add: s')
  show "filter Q (db_agent_messages (dm_db s')) = filter (\<lambda>x. Q x \<and> x \<noteq> row) (db_agent_messages (dm_db s))"
    if "\<And>x. Q x \<Longrightarrow> am_consumed_at_ms x = None" for Q
    using mc(1) [of Q, OF that] assms(4) by (simp add: s')
qed

lemma feed_rows_spec:
  assumes "feed_rows j w grp child rows fed (h, s) = (r, h', s')"
    and "db_ok (dm_db s)" "bus_unique (db_agent_messages (dm_db s))" "distinct rows"
    and "\<forall>x\<in>set rows. x \<in> set (db_agent_messages (dm_db s)) \<and> am_group x = grp \<and> am_consumed_at_ms x = None"
  shows "\<exists>k part. k \<le> length rows \<and> (if is_ok r then r = Inr (fed + length rows) \<and> k = length rows \<and> part = [] else k < length rows)
    \<and> hn_out h' = hn_out h @ fed_lines j (take k rows) @ part
    \<and> db_ok (dm_db s') \<and> bus_unique (db_agent_messages (dm_db s'))
    \<and> (\<forall>Q. (\<forall>x. Q x \<longrightarrow> am_consumed_at_ms x = None) \<longrightarrow>
         filter Q (db_agent_messages (dm_db s')) = filter (\<lambda>x. Q x \<and> x \<notin> set (take k rows)) (db_agent_messages (dm_db s)))"
  using assms
proof (induction rows arbitrary: fed h s)
  case Nil
  then show ?case by (auto simp: fed_lines_def)
next
  case (Cons row rows)
  obtain x h1 where st: "send_turn j (from_utf8_lossy (am_payload row)) h = (x, h1)" by fastforce
  from send_turn_line [OF st] obtain part where part: "hn_out h1 = hn_out h @ part" "is_ok x \<longrightarrow> part = turn_line j row" by blast
  show ?case
  proof (cases x)
    case (Inl e)
    with Cons.prems st have "r = Inl (SupHarness e)" "h' = h1" "s' = s" by simp_all
    with part Cons.prems show ?thesis by (intro exI [where x = 0] exI [where x = part]) (simp add: fed_lines_def)
  next
    case (Inr u)
    define s1 where "s1 = snd (on_db_at w (\<lambda>now. agent_set_status now grp child ''running'' None)
      (snd (on_db_at w (\<lambda>now. agent_msg_mark_consumed now grp (am_session row) (am_seq row)) s)))"
    have step: "feed_rows j w grp child rows (Suc fed) (h1, s1) = (r, h', s')"
      using Cons.prems(1) st Inr by (simp add: s1_def)
    have row: "row \<in> set (db_agent_messages (dm_db s))" "am_group row = grp" using Cons.prems(5) by simp_all
    note c = consume_row [OF Cons.prems(2,3) row s1_def]
    have "x \<in> set (db_agent_messages (dm_db s1)) \<and> am_group x = grp \<and> am_consumed_at_ms x = None" if "x \<in> set rows" for x
    proof -
      have "x \<in> set (filter (\<lambda>x. am_consumed_at_ms x = None \<and> x \<noteq> row) (db_agent_messages (dm_db s)))"
        using that Cons.prems(4,5) by auto
      then have "x \<in> set (filter (\<lambda>x. am_consumed_at_ms x = None) (db_agent_messages (dm_db s1)))"
        using c(3) [of "\<lambda>x. am_consumed_at_ms x = None"] by simp
      with that Cons.prems(5) show ?thesis by simp
    qed
    from Cons.IH [OF step c(1,2)] this Cons.prems(4) obtain k rest where k: "k \<le> length rows"
      "if is_ok r then r = Inr (Suc fed + length rows) \<and> k = length rows \<and> rest = [] else k < length rows"
      "hn_out h' = hn_out h1 @ fed_lines j (take k rows) @ rest"
      "db_ok (dm_db s')" "bus_unique (db_agent_messages (dm_db s'))"
      and Q: "\<And>Q. (\<forall>x. Q x \<longrightarrow> am_consumed_at_ms x = None) \<Longrightarrow>
         filter Q (db_agent_messages (dm_db s')) = filter (\<lambda>x. Q x \<and> x \<notin> set (take k rows)) (db_agent_messages (dm_db s1))"
      by fastforce
    have "filter Q (db_agent_messages (dm_db s')) = filter (\<lambda>x. Q x \<and> x \<notin> set (take (Suc k) (row # rows))) (db_agent_messages (dm_db s))"
      if "\<forall>x. Q x \<longrightarrow> am_consumed_at_ms x = None" for Q
    proof -
      have "filter Q (db_agent_messages (dm_db s')) = filter (\<lambda>x. (Q x \<and> x \<notin> set (take k rows)) \<and> x \<noteq> row) (db_agent_messages (dm_db s))"
        using Q [OF that] c(3) [of "\<lambda>x. Q x \<and> x \<notin> set (take k rows)"] that by simp
      also have "\<dots> = filter (\<lambda>x. Q x \<and> x \<notin> set (take (Suc k) (row # rows))) (db_agent_messages (dm_db s))"
        by (rule filter_cong) auto
      finally show ?thesis .
    qed
    with k part Inr show ?thesis
      by (intro exI [where x = "Suc k"] exI [where x = rest]) (auto simp: fed_lines_def split: if_splits)
  qed
qed

lemma pending_turns_props:
  assumes "bus_unique (db_agent_messages (dm_db s))" "is_plan (w_bus_plan w)"
  shows "distinct (pending_turns w grp child s)" "sorted (map am_sq (pending_turns w grp child s))"
    "set (pending_turns w grp child s) = {x \<in> set (db_agent_messages (dm_db s)). am_pending grp child ''turn_input'' x}"
proof -
  have "distinct (filter (am_pending grp child ''turn_input'') (db_agent_messages (dm_db s)))"
    using assms(1) by (auto simp: bus_unique_def intro: bus_t.unique_distinct distinct_filter)
  then show "distinct (pending_turns w grp child s)"
    using mset_eq_imp_distinct_iff [of "pending_turns w grp child s" "filter (am_pending grp child ''turn_input'') (db_agent_messages (dm_db s))"]
    by (simp add: pending_turns_def is_plan_mset [OF assms(2)])
  show "sorted (map am_sq (pending_turns w grp child s))" by (simp add: pending_turns_def sorted_sql_order_by)
  show "set (pending_turns w grp child s) = {x \<in> set (db_agent_messages (dm_db s)). am_pending grp child ''turn_input'' x}"
    using assms(2) by (auto simp: pending_turns_def is_plan_set)
qed

lemma pending_turns_drop:
  assumes "is_plan (w_bus_plan w)" "bus_unique (db_agent_messages (dm_db s))" "bus_unique (db_agent_messages (dm_db s'))"
    and "\<forall>Q. (\<forall>x. Q x \<longrightarrow> am_consumed_at_ms x = None) \<longrightarrow>
         filter Q (db_agent_messages (dm_db s')) = filter (\<lambda>x. Q x \<and> x \<notin> set (take k (pending_turns w grp child s))) (db_agent_messages (dm_db s))"
  shows "set (pending_turns w grp child s') = set (drop k (pending_turns w grp child s))"
proof -
  let ?rows = "pending_turns w grp child s"
  note p = pending_turns_props [OF assms(2,1), of grp child]
  have "filter (am_pending grp child ''turn_input'') (db_agent_messages (dm_db s'))
      = filter (\<lambda>x. am_pending grp child ''turn_input'' x \<and> x \<notin> set (take k ?rows)) (db_agent_messages (dm_db s))"
    using assms(4) by (simp add: am_pending_def)
  then have "set (pending_turns w grp child s') = set ?rows - set (take k ?rows)"
    by (auto simp: pending_turns_def is_plan_set [OF assms(1)])
  also have "\<dots> = set (drop k ?rows)"
  proof -
    have "set ?rows = set (take k ?rows) \<union> set (drop k ?rows)" by (metis append_take_drop_id set_append)
    moreover have "set (take k ?rows) \<inter> set (drop k ?rows) = {}" using p(1) by (rule set_take_disj_set_drop_if_distinct) simp
    ultimately show ?thesis by blast
  qed
  finally show ?thesis .
qed

lemma drain_turn_inputs_rows:
  assumes "db_ok (dm_db s)"
  shows "drain_turn_inputs j w grp child (h, s) = feed_rows j w grp child (pending_turns w grp child s) 0 (h, s)"
  using assms by (simp add: drain_turn_inputs_def on_db_def agent_msg_pending_ok pending_turns_def)

section \<open>Lemmas: the bus and the child's row\<close>

text \<open>Every row of the child has the given status.\<close>

definition agents_status :: "string \<Rightarrow> string \<Rightarrow> string \<Rightarrow> 'z daemon_scheme \<Rightarrow> bool" where
  "agents_status grp child st s \<longleftrightarrow>
     list_all (\<lambda>a. ag_group a = grp \<and> ag_name a = child \<longrightarrow> ag_status a = st) (db_agents (dm_db s))"

text \<open>The session has numbers left.\<close>

definition bus_room :: "string \<Rightarrow> string \<Rightarrow> db \<Rightarrow> bool" where
  "bus_room grp sess d \<longleftrightarrow> next_seq (\<lambda>r. am_scope r = (grp, sess)) am_sq (db_agent_messages d) \<noteq> None"

lemma bus_enqueue_frame [simp]:
  "dm_children (snd (bus_enqueue w g sess f t k pl s)) = dm_children s"
  "db_agents (dm_db (snd (bus_enqueue w g sess f t k pl s))) = db_agents (dm_db s)"
  "db_ok (dm_db (snd (bus_enqueue w g sess f t k pl s))) = db_ok (dm_db s)"
  "agents_status grp child st (snd (bus_enqueue w g sess f t k pl s)) = agents_status grp child st s"
proof -
  obtain r u where e: "on_db_at w (\<lambda>now. agent_msg_enqueue now g sess f t (kind_to_str k) pl) s = (r, u)" by fastforce
  have "u = snd (on_db_at w (\<lambda>now. agent_msg_enqueue now g sess f t (kind_to_str k) pl) s)" by (simp add: e)
  then have "dm_children u = dm_children s" "db_agents (dm_db u) = db_agents (dm_db s)"
    "db_ok (dm_db u) = db_ok (dm_db s)" by simp_all
  with e show "dm_children (snd (bus_enqueue w g sess f t k pl s)) = dm_children s"
    and a: "db_agents (dm_db (snd (bus_enqueue w g sess f t k pl s))) = db_agents (dm_db s)"
    and "db_ok (dm_db (snd (bus_enqueue w g sess f t k pl s))) = db_ok (dm_db s)"
    by (cases r; simp add: bus_enqueue_def and_then_def)+
  show "agents_status grp child st (snd (bus_enqueue w g sess f t k pl s)) = agents_status grp child st s"
    by (simp add: agents_status_def a)
qed

text \<open>A fresh bus row for the given parties, and the event that announces it.\<close>

definition bus_row_for :: "string \<Rightarrow> string \<Rightarrow> string \<Rightarrow> string \<Rightarrow> AgentMsgKind \<Rightarrow> bytes \<Rightarrow> AgentMsgRow \<Rightarrow> bool" where
  "bus_row_for g sess f t k pl row \<longleftrightarrow> am_group row = g \<and> am_session row = sess \<and> am_from row = f \<and> am_to row = t
     \<and> am_kind row = kind_to_str k \<and> am_payload row = pl \<and> am_consumed_at_ms row = None"

definition event_of :: "AgentMsgRow \<Rightarrow> BusEvent" where
  "event_of row = \<lparr>be_group = am_group row, be_session = am_session row, be_from_agent = am_from row, be_to_agent = am_to row,
     be_kind = kind_from_str (am_kind row), be_payload = am_payload row, be_ts_ms = am_enqueued_at_ms row, be_seq = am_seq row\<rparr>"

text \<open>With numbers left the row is stored and announced; without, nothing happens.\<close>

lemma bus_enqueue_room:
  assumes "db_ok (dm_db s)" "bus_room g sess (dm_db s)"
  shows "\<exists>row d. bus_enqueue w g sess f t k pl s = (Inr (am_seq row), s\<lparr>dm_tick := Suc (dm_tick s), dm_db := d,
       dm_agent_bcast := dm_agent_bcast s @ [event_of row]\<rparr>)
    \<and> row \<in> set (db_agent_messages d) \<and> bus_row_for g sess f t k pl row \<and> db_agents d = db_agents (dm_db s)
    \<and> set (db_agent_messages d) \<subseteq> insert row (set (db_agent_messages (dm_db s)))"
proof -
  from assms(2) obtain n where n: "next_seq (\<lambda>r. am_scope r = (g, sess)) am_sq (db_agent_messages (dm_db s)) = Some n"
    by (auto simp: bus_room_def)
  define row where "row = \<lparr>am_group = g, am_session = sess, am_seq = as_u64 n, am_from = f, am_to = t, am_kind = kind_to_str k,
              am_payload = pl, am_enqueued_at_ms = w_ms w (dm_tick s), am_consumed_at_ms = None\<rparr>"
  have sq: "am_sq row = n" unfolding row_def by (rule next_am_seq_bounds [OF n])
  have sc: "am_scope row = (g, sess)" by (simp add: row_def am_scope_def)
  have "\<not> am_conflict row x" if "x \<in> set (db_agent_messages (dm_db s))" for x
    using bus_log.fresh_key [OF n that] by (auto simp: am_conflict_def am_seq_eq_iff sc sq)
  then have fresh: "\<not> list_ex (am_conflict row) (db_agent_messages (dm_db s))" by (simp add: list_ex_iff)
  define d where "d = (dm_db s)\<lparr>db_agent_messages := snd (sql_delete
      (\<lambda>r. am_scope r = (g, sess) \<and> am_sq r \<le> n - MAX_MSGS_PER_SESSION) (db_agent_messages (dm_db s) @ [row]))\<rparr>"
  have m: "set (db_agent_messages d) \<subseteq> insert row (set (db_agent_messages (dm_db s)))" "db_agents d = db_agents (dm_db s)"
    by (auto simp: d_def sql_delete_def)
  from fresh have d: "agent_msg_enqueue (w_ms w (dm_tick s)) g sess f t (kind_to_str k) pl (dm_db s) = (Inr row, d)"
    using assms(1) n by (simp add: agent_msg_enqueue_def call_ok Let_def d_def row_def [symmetric])
  have "bus_row_for g sess f t k pl row" by (simp add: bus_row_for_def row_def)
  moreover have "event_of row = \<lparr>be_group = g, be_session = sess, be_from_agent = f, be_to_agent = t,
          be_kind = k, be_payload = pl, be_ts_ms = am_enqueued_at_ms row, be_seq = am_seq row\<rparr>"
    by (simp add: event_of_def row_def)
  ultimately show ?thesis using agent_msg_enqueue_mem(1) [OF assms(1) d] m d
    by (intro exI [where x = row] exI [where x = d]) (simp add: bus_enqueue_def and_then_def on_db_at_def on_db_def)
qed

lemma bus_enqueue_full:
  assumes "db_ok (dm_db s)" "\<not> bus_room g sess (dm_db s)"
  shows "dm_db (snd (bus_enqueue w g sess f t k pl s)) = dm_db s"
    "dm_agent_bcast (snd (bus_enqueue w g sess f t k pl s)) = dm_agent_bcast s"
  using assms by (simp_all add: bus_room_def bus_enqueue_def and_then_def on_db_at_def on_db_def agent_msg_enqueue_def call_ok)

lemma set_status_agents:
  assumes "db_ok (dm_db s)"
  shows "agents_status grp child st (snd (on_db_at w (\<lambda>now. agent_set_status now grp child st pid) s))"
proof -
  let ?P = "\<lambda>r. ag_group r = grp \<and> ag_name r = child"
  let ?f = "\<lambda>r. r\<lparr>ag_status := st, ag_pid := coalesce pid (ag_pid r), ag_last_seen_ms := Some (w_ms w (dm_tick s))\<rparr>"
  have "db_agents (dm_db (snd (on_db_at w (\<lambda>now. agent_set_status now grp child st pid) s)))
      = map (\<lambda>r. if ?P r then ?f r else r) (db_agents (dm_db s))"
    using assms by (simp add: agent_set_status_def call_ok sql_update_def)
  moreover have "?P (if ?P r then ?f r else r) \<longrightarrow> ag_status (if ?P r then ?f r else r) = st" for r
    by (cases "?P r") (simp, simp only: if_False simp_thms)
  ultimately show ?thesis unfolding agents_status_def by (simp only: list_all_iff list.set_map ball_simps) (rule ballI)
qed

section \<open>Lemmas: the end of the task\<close>

lemma finish_effect:
  assumes "db_ok (dm_db s)" and "s' = finish w grp sess child prime reason s"
  shows "agents_status grp child ''exited'' s'"
    "dm_children s' = AList.delete (grp, child) (dm_children s)"
    "bus_room grp sess (dm_db s') \<Longrightarrow> \<exists>ev. dm_agent_bcast s' = dm_agent_bcast s @ [ev] \<and> be_kind ev = Control
       \<and> be_from_agent ev = child \<and> be_to_agent ev = prime \<and> be_payload ev = bytes_of reason"
proof -
  define s1 where "s1 = snd (on_db_at w (\<lambda>now. agent_set_status now grp child ''exited'' None) s)"
  have ok: "db_ok (dm_db s1)" using assms(1) by (simp add: s1_def)
  have s': "s' = forget_child grp child (snd (bus_enqueue w grp sess child prime Control (bytes_of reason) s1))"
    using assms(2) by (simp add: finish_def s1_def Let_def)
  have "agents_status grp child ''exited'' s1" unfolding s1_def by (rule set_status_agents [OF assms(1)])
  then have "agents_status grp child ''exited'' (snd (bus_enqueue w grp sess child prime Control (bytes_of reason) s1))" by simp
  then show "agents_status grp child ''exited'' s'" by (simp add: s' forget_child_def agents_status_def)
  show "dm_children s' = AList.delete (grp, child) (dm_children s)" by (simp add: s' forget_child_def s1_def)
  assume room: "bus_room grp sess (dm_db s')"
  have room1: "bus_room grp sess (dm_db s1)"
  proof (rule ccontr)
    assume n: "\<not> bus_room grp sess (dm_db s1)"
    from bus_enqueue_full(1) [OF ok n] have "dm_db s' = dm_db s1" by (simp add: s' forget_child_def)
    with n room show False by simp
  qed
  obtain row d where
    "bus_enqueue w grp sess child prime Control (bytes_of reason) s1 = (Inr (am_seq row), s1\<lparr>dm_tick := Suc (dm_tick s1), dm_db := d,
       dm_agent_bcast := dm_agent_bcast s1 @ [event_of row]\<rparr>)"
    "bus_row_for grp sess child prime Control (bytes_of reason) row"
    using bus_enqueue_room [OF ok room1, of w child prime Control "bytes_of reason"] by blast
  then show "\<exists>ev. dm_agent_bcast s' = dm_agent_bcast s @ [ev] \<and> be_kind ev = Control
       \<and> be_from_agent ev = child \<and> be_to_agent ev = prime \<and> be_payload ev = bytes_of reason"
    by (simp add: s' forget_child_def s1_def event_of_def bus_row_for_def)
qed

text \<open>How a run that has ended leaves the daemon.\<close>

definition ended :: "Supervised \<Rightarrow> 'z daemon_scheme \<Rightarrow> bool" where
  "ended p s \<longleftrightarrow> agents_status (sv_group p) (sv_session p) ''exited'' s
     \<and> (bus_room (sv_group p) (sv_session p) (dm_db s) \<longrightarrow>
          dm_agent_bcast s \<noteq> [] \<and> be_kind (last (dm_agent_bcast s)) = Control
          \<and> be_from_agent (last (dm_agent_bcast s)) = sv_session p \<and> be_to_agent (last (dm_agent_bcast s)) = sv_prime p)"

lemma finish_ended:
  assumes "db_ok (dm_db s)"
  shows "ended p (finish w (sv_group p) (sv_session p) (sv_session p) (sv_prime p) reason s)"
    "dm_children (finish w (sv_group p) (sv_session p) (sv_session p) (sv_prime p) reason s)
       = AList.delete (sv_group p, sv_session p) (dm_children s)"
  using finish_effect [OF assms refl, where grp = "sv_group p" and sess = "sv_session p" and child = "sv_session p" and prime = "sv_prime p"
    and w = w and reason = reason]
  by (auto simp: ended_def)

lemma feed_rows_frame:
  "feed_rows j w g child rows fed (h, s) = (r, h', s') \<Longrightarrow>
     dm_children s' = dm_children s \<and> db_ok (dm_db s') = db_ok (dm_db s) \<and> dm_agent_bcast s' = dm_agent_bcast s"
proof (induction rows arbitrary: fed h s)
  case (Cons row rows)
  obtain x h1 where st: "send_turn j (from_utf8_lossy (am_payload row)) h = (x, h1)" by fastforce
  with Cons.prems Cons.IH show ?case by (cases x) (fastforce simp: Let_def)+
qed simp

lemma drain_or_die_frame:
  assumes "drain_or_die j w p now (l, h, s) = (b, l', h', s')" and "db_ok (dm_db s)"
  shows "if b then dm_children s' = dm_children s \<and> db_ok (dm_db s')
     else dm_children s' = AList.delete (sv_group p, sv_session p) (dm_children s) \<and> ended p s'"
proof -
  obtain r h1 s1 where d: "drain_turn_inputs j w (sv_group p) (sv_session p) (h, s) = (r, h1, s1)"
    by (metis surj_pair)
  from feed_rows_frame [OF d [unfolded drain_turn_inputs_rows [OF assms(2)]]] assms(2)
  have f: "dm_children s1 = dm_children s" "db_ok (dm_db s1)" by simp_all
  with assms(1) d finish_ended [OF f(2)] show ?thesis
    by (auto simp: drain_or_die_def split: sum.splits)
qed

lemma idle_check_frame:
  assumes "idle_check w p now (l, h, s) = (l', h', s')"
  shows "dm_children s' = dm_children s" "db_ok (dm_db s') = db_ok (dm_db s)" "h' = h"
  using assms by (auto simp: idle_check_def Let_def split: if_splits option.splits)

lemma sup_step_frame:
  assumes "sup_step j w p (now, r) (l, h, s) = (b, l', h', s')" and "db_ok (dm_db s)"
  shows "if b then dm_children s' = dm_children s \<and> db_ok (dm_db s')
     else dm_children s' = AList.delete (sv_group p, sv_session p) (dm_children s) \<and> (r = RdyBusClosed \<or> ended p s')"
proof (cases r)
  case (RdyEvent ev)
  with assms finish_ended [OF assms(2)] show ?thesis
    by (cases ev) (auto simp: sup_step_def Let_def)
next
  case RdyReadError
  with assms finish_ended [OF assms(2)] show ?thesis by (auto simp: sup_step_def Let_def)
next
  case RdyBus
  with assms(1) have "drain_or_die j w p now (l, h, s) = (b, l', h', s')" by (simp add: sup_step_def Let_def)
  from drain_or_die_frame [OF this assms(2)] show ?thesis by auto
next
  case RdyBusClosed
  with assms show ?thesis by (auto simp: sup_step_def Let_def forget_child_def)
next
  case RdyPoll
  let ?s = "snd (on_db_at w (\<lambda>now. agent_touch now (sv_group p) (sv_session p)) s)"
  obtain b1 l1 h1 s1 where d: "drain_or_die j w p now (l, h, ?s) = (b1, l1, h1, s1)" by (metis surj_pair)
  have ok: "db_ok (dm_db ?s)" using assms(2) by simp
  note f = drain_or_die_frame [OF d ok]
  show ?thesis
  proof (cases b1)
    case True
    with assms(1) d RdyPoll have "b" "idle_check w p now (l1, h1, s1) = (l', h', s')" by (simp_all add: sup_step_def Let_def)
    with f True idle_check_frame [OF this(2)] show ?thesis by simp
  next
    case False
    with assms(1) d RdyPoll f show ?thesis by (auto simp: sup_step_def Let_def)
  qed
qed

lemma sup_loop_ended:
  assumes "sup_loop j w p rs (l, h, s) = (False, l', h', s')" and "db_ok (dm_db s)"
  shows "dm_children s' = AList.delete (sv_group p, sv_session p) (dm_children s)
    \<and> ((\<exists>t. (t, RdyBusClosed) \<in> set rs) \<or> ended p s')"
  using assms
proof (induction rs arbitrary: l h s)
  case (Cons x rs)
  obtain t r where x: "x = (t, r)" by (cases x)
  obtain b l1 h1 s1 where st: "sup_step j w p (t, r) (l, h, s) = (b, l1, h1, s1)" by (metis surj_pair)
  note f = sup_step_frame [OF st Cons.prems(2)]
  show ?case
  proof (cases b)
    case True
    with Cons.prems(1) st x have "sup_loop j w p rs (l1, h1, s1) = (False, l', h', s')" by simp
    from Cons.IH [OF this] f True show ?thesis by auto
  next
    case False
    with Cons.prems(1) st x f show ?thesis by auto
  qed
qed simp

section \<open>Properties\<close>

text \<open>
  C19 The child is fed each turn once, in order.  A call of \<open>drain_turn_inputs\<close> writes a leading part of
  the turns waiting for the child, in order of their numbers, one line each; exactly those it wrote are
  no longer waiting.  When it succeeds nothing is left waiting, the count it returns is the number
  written, and a second call writes nothing; when the pipe fails, at most a fragment of the next turn
  was written and that turn is still waiting.
\<close>

theorem turns_fed_once:
  assumes "db_inv (dm_db s)" and "is_plan (w_bus_plan w)"
    and "drain_turn_inputs j w grp child (h, s) = (r, h', s')"
  shows "\<exists>k part. hn_out h' = hn_out h @ fed_lines j (take k (pending_turns w grp child s)) @ part
    \<and> sorted (map am_sq (pending_turns w grp child s))
    \<and> set (pending_turns w grp child s') = set (drop k (pending_turns w grp child s))
    \<and> (if is_ok r
        then r = Inr (length (pending_turns w grp child s)) \<and> k = length (pending_turns w grp child s) \<and> part = []
          \<and> drain_turn_inputs j w grp child (h', s') = (Inr 0, h', s')
        else k < length (pending_turns w grp child s))"
proof -
  let ?rows = "pending_turns w grp child s"
  note inv = db_invD [OF assms(1)]
  note p = pending_turns_props [OF inv(9) assms(2), of grp child]
  have mem: "\<forall>x\<in>set ?rows. x \<in> set (db_agent_messages (dm_db s)) \<and> am_group x = grp \<and> am_consumed_at_ms x = None"
    by (simp add: p(3) am_pending_def)
  from feed_rows_spec [OF assms(3) [unfolded drain_turn_inputs_rows [OF inv(1)]] inv(1,9) p(1) mem] obtain k part where
    k: "if is_ok r then r = Inr (length ?rows) \<and> k = length ?rows \<and> part = [] else k < length ?rows"
      "hn_out h' = hn_out h @ fed_lines j (take k ?rows) @ part" "db_ok (dm_db s')" "bus_unique (db_agent_messages (dm_db s'))"
      "\<forall>Q. (\<forall>x. Q x \<longrightarrow> am_consumed_at_ms x = None) \<longrightarrow>
         filter Q (db_agent_messages (dm_db s')) = filter (\<lambda>x. Q x \<and> x \<notin> set (take k ?rows)) (db_agent_messages (dm_db s))"
    unfolding add_0 by blast
  have d: "set (pending_turns w grp child s') = set (drop k ?rows)" by (rule pending_turns_drop [OF assms(2) inv(9) k(4,5)])
  have again: "drain_turn_inputs j w grp child (h', s') = (Inr 0, h', s')" if "k = length ?rows"
    unfolding drain_turn_inputs_rows [OF k(3)] using d that by simp
  show ?thesis
  proof (rule exI [where x = k], rule exI [where x = part], intro conjI)
    show "if is_ok r then r = Inr (length ?rows) \<and> k = length ?rows \<and> part = [] \<and> drain_turn_inputs j w grp child (h', s') = (Inr 0, h', s')
        else k < length ?rows" using k(1) again by (cases "is_ok r") simp_all
  qed (fact k(2) p(2) d)+
qed


text \<open>Two turns waiting for the child \<open>c\<close> of group \<open>g\<close>.\<close>

lemma sample_bus_db_inv: "db_inv sample_bus_db"
proof -
  have "session_seqs k (db_agent_messages sample_bus_db) = (if k = (''g'', ''s'') then {1..2} else {1..0})" for k
  proof -
    have "session_seqs k (db_agent_messages sample_bus_db) = am_sq ` set (filter (\<lambda>r. am_scope r = k) (db_agent_messages sample_bus_db))"
      by (simp add: session_seqs_def)
    also have "\<dots> = (if k = (''g'', ''s'') then {1, 2} else {})"
      by (simp add: sample_bus_db_def sample_bus_row_def am_scope_def am_sq_def as_i64_def)
    finally show ?thesis by auto
  qed
  then have "bus_window (db_agent_messages sample_bus_db)"
    unfolding bus_window_def
    by (intro allI, rule_tac x = 1 in exI, rule_tac x = "if k = (''g'', ''s'') then 2 else 0" in exI)
      (simp add: max_i64_def MAX_MSGS_PER_SESSION_def)
  with sample_db_inv sample_bus_db_ok show ?thesis
    by (simp add: db_inv_def sample_bus_db_def orch_unique_def)
qed

definition sample_sup_daemon :: daemon where
  "sample_sup_daemon = sample_daemon\<lparr>dm_db := sample_bus_db\<rparr>"

definition sample_supervised :: Supervised where
  "sample_supervised = \<lparr>sv_group = ''g'', sv_session = ''c'', sv_prime = ''p'', sv_idle_timeout = Some 60, sv_trace = False\<rparr>"

lemma sample_daemon_bcast: "dm_agent_bcast sample_daemon = []"
  by (simp add: sample_daemon_def daemon_start_def)

lemma sample_plans [simp]: "is_plan (w_bus_plan sample_world)"
  by (simp add: sample_world_def)

lemma sample_pending_turns: "length (pending_turns sample_world ''g'' ''c'' sample_sup_daemon) = 2"
  by (simp add: pending_turns_def sample_world_def sample_sup_daemon_def sample_bus_db_def sample_bus_row_def am_pending_def
      sql_order_by_def)

lemma sample_drain_ok: "is_ok (fst (drain_turn_inputs sample_json_crate sample_world ''g'' ''c'' (sample_harness, sample_sup_daemon)))"
proof -
  have ok: "db_ok (dm_db sample_sup_daemon)" by (simp add: sample_sup_daemon_def sample_bus_db_ok)
  have st: "send_turn sample_json_crate t h = (Inr (), h\<lparr>hn_stdin := (hn_stdin h)\<lparr>ss_out := ss_out (hn_stdin h) @ [0x7B, 0x0A]\<rparr>\<rparr>)"
    if "ss_budget (hn_stdin h) = None" for t h
    using that by (simp add: send_turn_def sample_json_crate_def write_all_def)
  have "is_ok (fst (feed_rows sample_json_crate sample_world g c rows n (h, s)))" if "ss_budget (hn_stdin h) = None"
    for g c rows n h and s :: daemon
    using that by (induction rows arbitrary: n h s) (simp_all add: st Let_def)
  then show ?thesis unfolding drain_turn_inputs_rows [OF ok] by (simp add: sample_harness_def)
qed

lemma turns_fed_once_witness:
  "fst (drain_turn_inputs sample_json_crate sample_world ''g'' ''c'' (sample_harness, sample_sup_daemon)) = Inr 2"
proof -
  let ?d = "drain_turn_inputs sample_json_crate sample_world ''g'' ''c'' (sample_harness, sample_sup_daemon)"
  have inv: "db_inv (dm_db sample_sup_daemon)" by (simp add: sample_sup_daemon_def sample_bus_db_inv)
  from turns_fed_once [OF inv sample_plans, of sample_json_crate "''g''" "''c''" sample_harness "fst ?d" "fst (snd ?d)" "snd (snd ?d)"]
    sample_drain_ok sample_pending_turns show ?thesis by auto
qed

text \<open>
  C21 However a supervisor ends, it cleans up.  When the task returns, its child is no longer registered
  and every other registration is untouched; and unless the bus itself was closed, the child is marked
  exited and the last thing announced is a control message from it to its prime (as long as the
  session has numbers left).
\<close>

theorem supervisor_ends:
  assumes "db_ok (dm_db s)" and "supervisor_run j w p initial_turn now rs (h, s) = (False, l', h', s')"
  shows "map_of (dm_children s') = (map_of (dm_children s)) ((sv_group p, sv_session p) := None)
    \<and> ((\<exists>t. (t, RdyBusClosed) \<in> set rs)
       \<or> agents_status (sv_group p) (sv_session p) ''exited'' s'
         \<and> (bus_room (sv_group p) (sv_session p) (dm_db s') \<longrightarrow>
              dm_agent_bcast s' \<noteq> [] \<and> be_kind (last (dm_agent_bcast s')) = Control
              \<and> be_from_agent (last (dm_agent_bcast s')) = sv_session p \<and> be_to_agent (last (dm_agent_bcast s')) = sv_prime p))"
proof -
  let ?l = "\<lparr>sl_turn_active = initial_turn, sl_last_activity = now, sl_idle_notified = False\<rparr>"
  obtain b l1 h1 s1 where d: "drain_or_die j w p now (?l, h, s) = (b, l1, h1, s1)" by (metis surj_pair)
  note f = drain_or_die_frame [OF d assms(1)]
  have "dm_children s' = AList.delete (sv_group p, sv_session p) (dm_children s)
    \<and> ((\<exists>t. (t, RdyBusClosed) \<in> set rs) \<or> ended p s')"
  proof (cases b)
    case True
    with assms(2) d have "sup_loop j w p rs (l1, h1, s1) = (False, l', h', s')" by (simp add: supervisor_run_def)
    from sup_loop_ended [OF this] f True show ?thesis by simp
  next
    case False
    with assms(2) d f show ?thesis by (simp add: supervisor_run_def)
  qed
  then show ?thesis by (auto simp: ended_def delete_conv)
qed


lemma supervisor_ends_witness:
  "map_of (dm_children (snd (snd (snd (supervisor_run sample_json_crate sample_world sample_supervised False 0
     [(1, RdyEvent (Exited (Some 0)))] (sample_harness, sample_daemon)))))) (''g'', ''c'') = None"
proof -
  let ?r = "supervisor_run sample_json_crate sample_world sample_supervised False 0
     [(1, RdyEvent (Exited (Some 0)))] (sample_harness, sample_daemon)"
  have ok: "db_ok (dm_db sample_daemon)" by (simp add: sample_daemon_def)
  have "pending_turns sample_world g c sample_daemon = []" for g c
    by (simp add: pending_turns_def sample_world_def sample_daemon_def sql_order_by_def)
  then have "fst ?r = False"
    by (simp add: supervisor_run_def drain_or_die_def drain_turn_inputs_rows [OF ok] sup_step_def Let_def)
  then have "?r = (False, fst (snd ?r), fst (snd (snd ?r)), snd (snd (snd ?r)))" by (metis prod.collapse)
  from supervisor_ends [OF ok this] show ?thesis by (simp add: sample_supervised_def)
qed

text \<open>
  A finished turn reaches the prime before the child is shown as waiting.  Handling \<open>TurnComplete\<close>
  first stores an unconsumed turn output from the child to its prime holding the result, and announces
  it, while the child's row is still as it was; only then does the row become \<open>awaiting_input\<close>.  The
  turn is over, the harness is left alone and the task goes on.
\<close>

lemma turn_output_before_status:
  fixes s :: "'z daemon_scheme"
  assumes "db_ok (dm_db s)" and "bus_room (sv_group p) (sv_session p) (dm_db s)"
  shows "\<exists>row (s1 :: 'z daemon_scheme) s'. sup_step j w p (now, RdyEvent (TurnComplete result is_err)) (l, h, s)
        = (True, \<lparr>sl_turn_active = False, sl_last_activity = now, sl_idle_notified = False\<rparr>, h, s')
    \<and> bus_row_for (sv_group p) (sv_session p) (sv_session p) (sv_prime p) TurnOutput (bytes_of result) row
    \<and> row \<in> set (db_agent_messages (dm_db s1)) \<and> db_agents (dm_db s1) = db_agents (dm_db s)
    \<and> dm_agent_bcast s1 = dm_agent_bcast s @ [event_of row]
    \<and> row \<in> set (db_agent_messages (dm_db s')) \<and> dm_agent_bcast s' = dm_agent_bcast s1
    \<and> agents_status (sv_group p) (sv_session p) ''awaiting_input'' s'"
proof -
  obtain row d where e: "bus_enqueue w (sv_group p) (sv_session p) (sv_session p) (sv_prime p) TurnOutput (bytes_of result) s
      = (Inr (am_seq row), s\<lparr>dm_tick := Suc (dm_tick s), dm_db := d, dm_agent_bcast := dm_agent_bcast s @ [event_of row]\<rparr>)"
    and row: "row \<in> set (db_agent_messages d)" "db_agents d = db_agents (dm_db s)"
      "bus_row_for (sv_group p) (sv_session p) (sv_session p) (sv_prime p) TurnOutput (bytes_of result) row"
    using bus_enqueue_room [OF assms, of w "sv_session p" "sv_prime p" TurnOutput "bytes_of result"] by blast
  define s1 where "s1 = s\<lparr>dm_tick := Suc (dm_tick s), dm_db := d, dm_agent_bcast := dm_agent_bcast s @ [event_of row]\<rparr>"
  define s' where "s' = snd (on_db_at w (\<lambda>now. agent_set_status now (sv_group p) (sv_session p) ''awaiting_input'' None) s1)"
  have "s1 = snd (bus_enqueue w (sv_group p) (sv_session p) (sv_session p) (sv_prime p) TurnOutput (bytes_of result) s)"
    by (simp add: e s1_def)
  then have ok: "db_ok (dm_db s1)" using assms(1) by simp
  have "sup_step j w p (now, RdyEvent (TurnComplete result is_err)) (l, h, s)
        = (True, \<lparr>sl_turn_active = False, sl_last_activity = now, sl_idle_notified = False\<rparr>, h, s')"
    by (simp add: sup_step_def Let_def e s'_def s1_def)
  moreover have "agents_status (sv_group p) (sv_session p) ''awaiting_input'' s'"
    unfolding s'_def by (rule set_status_agents [OF ok])
  moreover have "row \<in> set (db_agent_messages (dm_db s1))" "db_agents (dm_db s1) = db_agents (dm_db s)"
    "dm_agent_bcast s1 = dm_agent_bcast s @ [event_of row]" using row by (simp_all add: s1_def)
  moreover have "db_agent_messages (dm_db s') = db_agent_messages (dm_db s1)" "dm_agent_bcast s' = dm_agent_bcast s1"
    by (simp_all add: s'_def)
  ultimately show ?thesis using row(3)
    by - (rule exI [where x = row], rule exI [where x = s1], rule exI [where x = s'], simp)
qed

lemma sample_room: "bus_room g sess (dm_db sample_daemon)"
  by (simp add: bus_room_def sample_daemon_def next_seq_def sql_max_def max_i64_def)

text \<open>A step of the poll timer when no turn is waiting.\<close>

lemma control_not_turn:
  assumes "filter (am_pending g c ''turn_input'') (db_agent_messages (dm_db s)) = []" "db_ok (dm_db s)"
  shows "filter (am_pending g c ''turn_input'') (db_agent_messages (dm_db (snd (bus_enqueue w g' sess f t Control pl s)))) = []"
proof (cases "bus_room g' sess (dm_db s)")
  case True
  obtain row d where "bus_enqueue w g' sess f t Control pl s = (Inr (am_seq row), s\<lparr>dm_tick := Suc (dm_tick s), dm_db := d,
       dm_agent_bcast := dm_agent_bcast s @ [event_of row]\<rparr>)"
    "bus_row_for g' sess f t Control pl row" "set (db_agent_messages d) \<subseteq> insert row (set (db_agent_messages (dm_db s)))"
    using bus_enqueue_room [OF assms(2) True, of w f t Control pl] by blast
  with assms(1) show ?thesis
    by (auto simp: filter_empty_conv am_pending_def bus_row_for_def kind_to_str_def)
next
  case False
  with bus_enqueue_full [OF assms(2) False] assms(1) show ?thesis by simp
qed

lemma poll_no_turns:
  assumes "filter (am_pending (sv_group p) (sv_session p) ''turn_input'') (db_agent_messages (dm_db s)) = []" "db_ok (dm_db s)"
    "is_plan (w_bus_plan w)"
  shows "sup_step j w p (t, RdyPoll) (l, h, s)
     = (True, idle_check w p t (l, h, snd (on_db_at w (\<lambda>now. agent_touch now (sv_group p) (sv_session p)) s)))"
proof -
  let ?s = "snd (on_db_at w (\<lambda>now. agent_touch now (sv_group p) (sv_session p)) s)"
  have ok: "db_ok (dm_db ?s)" using assms(2) by simp
  have "set (pending_turns w (sv_group p) (sv_session p) ?s) = {}"
    using assms(1) is_plan_set [OF assms(3), of "[]"] by (simp add: pending_turns_def)
  then have "drain_turn_inputs j w (sv_group p) (sv_session p) (h, ?s) = (Inr 0, h, ?s)"
    unfolding drain_turn_inputs_rows [OF ok] by simp
  then show ?thesis by (simp add: sup_step_def drain_or_die_def Let_def)
qed

lemma idle_check_cases:
  "idle_check w p t (l, h, s) = (if sl_turn_active l \<and> \<not> sl_idle_notified l
       \<and> (\<exists>tm. sv_idle_timeout p = Some tm \<and> tm * 1000000000 \<le> t - sl_last_activity l)
     then (l\<lparr>sl_idle_notified := True\<rparr>, h,
           snd (bus_enqueue w (sv_group p) (sv_session p) (sv_session p) (sv_prime p) Control
                  (bytes_of (idle_text ((t - sl_last_activity l) div 1000000000))) s))
     else (l, h, s))"
  by (auto simp: idle_check_def Let_def split: option.splits)

lemma bus_enqueue_bcast:
  assumes "db_ok (dm_db s)"
  shows "\<exists>evs. dm_agent_bcast (snd (bus_enqueue w g sess f t k pl s)) = dm_agent_bcast s @ evs \<and> length evs \<le> 1
    \<and> (\<forall>ev\<in>set evs. be_kind ev = k \<and> be_from_agent ev = f \<and> be_to_agent ev = t)"
proof (cases "bus_room g sess (dm_db s)")
  case True
  obtain row d where "bus_enqueue w g sess f t k pl s = (Inr (am_seq row), s\<lparr>dm_tick := Suc (dm_tick s), dm_db := d,
       dm_agent_bcast := dm_agent_bcast s @ [event_of row]\<rparr>)" "bus_row_for g sess f t k pl row"
    using bus_enqueue_room [OF assms True, of w f t k pl] by blast
  then show ?thesis by (simp add: event_of_def bus_row_for_def)
next
  case False
  from bus_enqueue_full [OF assms False] show ?thesis by simp
qed

text \<open>
  C31 An idle turn is reported once and the child is left running.  Over any number of timer ticks in
  which no turn is waiting and the harness says nothing, the task goes on, the harness and the table of
  children are not touched, and at most one message is announced, a control message from the child to
  its prime: none when one was sent before, when no timeout is set or when no turn is active.  The flag
  afterwards says exactly whether the silence ever reached the timeout.
\<close>

theorem idle_notified_once:
  assumes "db_ok (dm_db s)" and "is_plan (w_bus_plan w)"
    and "filter (am_pending (sv_group p) (sv_session p) ''turn_input'') (db_agent_messages (dm_db s)) = []"
    and "list_all (\<lambda>x. snd x = RdyPoll) rs"
  shows "\<exists>l' s' evs. sup_loop j w p rs (l, h, s) = (True, l', h, s')
    \<and> dm_agent_bcast s' = dm_agent_bcast s @ evs \<and> dm_children s' = dm_children s
    \<and> length evs \<le> (if sl_idle_notified l \<or> \<not> sl_turn_active l \<or> sv_idle_timeout p = None then 0 else 1)
    \<and> (\<forall>ev\<in>set evs. be_kind ev = Control \<and> be_from_agent ev = sv_session p \<and> be_to_agent ev = sv_prime p)
    \<and> (sl_idle_notified l' \<longleftrightarrow> sl_idle_notified l \<or> sl_turn_active l \<and> (\<exists>tm t r. sv_idle_timeout p = Some tm
         \<and> (t, r) \<in> set rs \<and> tm * 1000000000 \<le> t - sl_last_activity l))"
  using assms
proof (induction rs arbitrary: l s)
  case Nil
  then show ?case by simp
next
  case (Cons x rs)
  obtain t where x: "x = (t, RdyPoll)" using Cons.prems(4) by (cases x) auto
  define s0 where "s0 = snd (on_db_at w (\<lambda>now. agent_touch now (sv_group p) (sv_session p)) s)"
  have s0: "db_ok (dm_db s0)" "dm_agent_bcast s0 = dm_agent_bcast s" "dm_children s0 = dm_children s"
    "filter (am_pending (sv_group p) (sv_session p) ''turn_input'') (db_agent_messages (dm_db s0)) = []"
    using Cons.prems by (simp_all add: s0_def)
  have polls: "list_all (\<lambda>x. snd x = RdyPoll) rs" using Cons.prems(4) by simp
  note st = poll_no_turns [OF Cons.prems(3,1,2), of j t l h, folded s0_def]
  let ?fire = "sl_turn_active l \<and> \<not> sl_idle_notified l
       \<and> (\<exists>tm. sv_idle_timeout p = Some tm \<and> tm * 1000000000 \<le> t - sl_last_activity l)"
  show ?case
  proof (cases ?fire)
    case True
    define s1 where "s1 = snd (bus_enqueue w (sv_group p) (sv_session p) (sv_session p) (sv_prime p) Control
                  (bytes_of (idle_text ((t - sl_last_activity l) div 1000000000))) s0)"
    have i: "idle_check w p t (l, h, s0) = (l\<lparr>sl_idle_notified := True\<rparr>, h, s1)"
      unfolding idle_check_cases s1_def using True by simp
    have s1: "db_ok (dm_db s1)" "dm_children s1 = dm_children s"
      "filter (am_pending (sv_group p) (sv_session p) ''turn_input'') (db_agent_messages (dm_db s1)) = []"
      using s0 by (simp_all add: s1_def control_not_turn)
    obtain ev where ev: "dm_agent_bcast s1 = dm_agent_bcast s @ ev" "length ev \<le> 1"
      "\<forall>e\<in>set ev. be_kind e = Control \<and> be_from_agent e = sv_session p \<and> be_to_agent e = sv_prime p"
      using bus_enqueue_bcast [OF s0(1)] s0(2) unfolding s1_def by metis
    from Cons.IH [OF s1(1) Cons.prems(2) s1(3) polls, of "l\<lparr>sl_idle_notified := True\<rparr>"] obtain l' s' where
      "sup_loop j w p rs (l\<lparr>sl_idle_notified := True\<rparr>, h, s1) = (True, l', h, s')" "sl_idle_notified l'"
      "dm_agent_bcast s' = dm_agent_bcast s1" "dm_children s' = dm_children s1" by auto
    with ev s1(2) True st i x show ?thesis by (auto intro!: exI [where x = ev])
  next
    case False
    have i: "idle_check w p t (l, h, s0) = (l, h, s0)" unfolding idle_check_cases by (rule if_not_P [OF False])
    from Cons.IH [OF s0(1) Cons.prems(2) s0(4) polls, of l] st i x s0(2,3) False show ?thesis by auto (blast+)
  qed
qed


lemma idle_notified_once_witness:
  "\<exists>l' s'. sup_loop sample_json_crate sample_world sample_supervised [(60000000000, RdyPoll), (90000000000, RdyPoll)]
       (\<lparr>sl_turn_active = True, sl_last_activity = 0, sl_idle_notified = False\<rparr>, sample_harness, sample_daemon)
     = (True, l', sample_harness, s') \<and> sl_idle_notified l' \<and> length (dm_agent_bcast s') \<le> 1"
proof -
  let ?l = "\<lparr>sl_turn_active = True, sl_last_activity = 0, sl_idle_notified = False\<rparr>"
  let ?rs = "[(60000000000, RdyPoll), (90000000000, RdyPoll)]"
  have ok: "db_ok (dm_db sample_daemon)" by (simp add: sample_daemon_def)
  have none: "filter (am_pending (sv_group sample_supervised) (sv_session sample_supervised) ''turn_input'')
      (db_agent_messages (dm_db sample_daemon)) = []" by (simp add: sample_daemon_def)
  have polls: "list_all (\<lambda>x. snd x = RdyPoll) ?rs" by simp
  have "\<exists>tm t r. sv_idle_timeout sample_supervised = Some tm \<and> (t, r) \<in> set ?rs \<and> tm * 1000000000 \<le> t - sl_last_activity ?l"
    by (rule exI [where x = 60], rule exI [where x = 60000000000], rule exI [where x = RdyPoll]) (simp add: sample_supervised_def)
  with idle_notified_once [OF ok sample_plans none polls, of sample_json_crate ?l sample_harness] show ?thesis
    by (auto simp: sample_daemon_bcast)
qed

text \<open>Recording the opening prompt leaves it on the bus, but not waiting.\<close>

lemma record_prompt_pending:
  assumes "db_ok (dm_db s)" "bus_unique (db_agent_messages (dm_db s))" "bus_room (sv_group p) (sv_session p) (dm_db s)" "prompt \<noteq> []"
  shows "db_agents (dm_db (record_prompt w p prompt s)) = db_agents (dm_db s)
    \<and> set (filter (am_pending (sv_group p) (sv_session p) ''turn_input'') (db_agent_messages (dm_db (record_prompt w p prompt s))))
      \<subseteq> set (filter (am_pending (sv_group p) (sv_session p) ''turn_input'') (db_agent_messages (dm_db s)))"
proof -
  let ?g = "sv_group p" and ?c = "sv_session p" and ?pl = "bytes_of prompt"
  let ?P = "am_pending ?g ?c ''turn_input''"
  obtain row d where e: "bus_enqueue w ?g ?c (sv_prime p) ?c TurnInput ?pl s
      = (Inr (am_seq row), s\<lparr>dm_tick := Suc (dm_tick s), dm_db := d, dm_agent_bcast := dm_agent_bcast s @ [event_of row]\<rparr>)"
    and row: "row \<in> set (db_agent_messages d)" "db_agents d = db_agents (dm_db s)"
      "bus_row_for ?g ?c (sv_prime p) ?c TurnInput ?pl row"
      "set (db_agent_messages d) \<subseteq> insert row (set (db_agent_messages (dm_db s)))"
    using bus_enqueue_room [OF assms(1,3), of w "sv_prime p" ?c TurnInput ?pl] by blast
  have d: "d = snd (agent_msg_enqueue (w_ms w (dm_tick s)) ?g ?c (sv_prime p) ?c (kind_to_str TurnInput) ?pl (dm_db s))"
    using arg_cong [OF e, of "\<lambda>x. dm_db (snd x)"]
    by (auto simp: bus_enqueue_def and_then_def on_db_at_def on_db_def split: prod.splits sum.splits)
  have dok: "db_ok d" "bus_unique (db_agent_messages d)"
    unfolding d using assms(1) agent_msg_enqueue_unique [OF assms(2)] by simp_all
  define u where "u = s\<lparr>dm_tick := Suc (dm_tick s), dm_db := d, dm_agent_bcast := dm_agent_bcast s @ [event_of row]\<rparr>"
  have r: "record_prompt w p prompt s = snd (on_db_at w (\<lambda>now. agent_msg_mark_consumed now (am_group row) (am_session row) (am_seq row)) u)"
    using assms(4) row(3) by (simp add: record_prompt_def e u_def bus_row_for_def)
  have "filter ?P (db_agent_messages (dm_db (record_prompt w p prompt s))) = filter (\<lambda>x. ?P x \<and> x \<noteq> row) (db_agent_messages d)"
    using mark_consumed_filter(1) [OF dok row(1) _ refl, of ?P] by (simp add: r u_def am_pending_def)
  moreover have "set (filter (\<lambda>x. ?P x \<and> x \<noteq> row) (db_agent_messages d)) \<subseteq> set (filter ?P (db_agent_messages (dm_db s)))"
    using row(4) by fastforce
  ultimately show ?thesis using row(2) by (simp add: r u_def)
qed

lemma record_prompt_unrecorded:
  assumes "db_ok (dm_db s)" "prompt = [] \<or> \<not> bus_room (sv_group p) (sv_session p) (dm_db s)"
  shows "dm_db (record_prompt w p prompt s) = dm_db s"
proof (cases "prompt = []")
  case False
  then have full: "\<not> bus_room (sv_group p) (sv_session p) (dm_db s)" using assms(2) by simp
  let ?enq = "bus_enqueue w (sv_group p) (sv_session p) (sv_prime p) (sv_session p) TurnInput (bytes_of prompt) s"
  have "dm_db (snd ?enq) = dm_db s" using bus_enqueue_full [OF assms(1) full] by blast
  moreover have "\<not> is_ok (fst ?enq)"
    using full assms(1) by (simp add: bus_room_def bus_enqueue_def and_then_def on_db_at_def on_db_def agent_msg_enqueue_def call_ok)
  ultimately show ?thesis using False by (auto simp: record_prompt_def split: prod.splits sum.splits)
qed (simp add: record_prompt_def)

lemma record_prompt_effect:
  assumes "db_ok (dm_db s)" "bus_unique (db_agent_messages (dm_db s))"
  shows "db_agents (dm_db (record_prompt w p prompt s)) = db_agents (dm_db s)
    \<and> set (filter (am_pending (sv_group p) (sv_session p) ''turn_input'') (db_agent_messages (dm_db (record_prompt w p prompt s))))
      \<subseteq> set (filter (am_pending (sv_group p) (sv_session p) ''turn_input'') (db_agent_messages (dm_db s)))"
  using record_prompt_pending [OF assms] record_prompt_unrecorded [OF assms(1)] by (metis order_refl)

lemma harness_spawn_prompt:
  assumes "harness_spawn j proc spec = Inr h"
  shows "\<exists>pid stdin. proc spec = Some (pid, stdin)
    \<and> (if hs_initial_prompt spec = [] then hn_out h = ss_out stdin
       else \<exists>l. hx_print j (user_turn (hs_initial_prompt spec)) = Some l \<and> hn_out h = ss_out stdin @ l @ [0x0A])"
  using assms by (auto simp: harness_spawn_def Let_def hn_out_def send_turn_def write_all_def
      split: if_splits option.splits sum.splits prod.splits)

text \<open>
  Starting a child.  When \<open>supervisor_start\<close> succeeds, the opening prompt is the first line on the
  child's standard input (none when it is empty), the child's row says \<open>running\<close>, its task is
  registered, and no turn waits for the child that did not wait before: the prompt is on the bus for
  observers but is not fed a second time.  When the program cannot be started nothing is changed.
\<close>

lemma supervisor_start_prompt:
  assumes "db_inv (dm_db s)" and "is_plan (w_bus_plan w)" and "supervisor_start j w proc p spec s = (r, s')"
  shows "case r of
      Inl (SupHarness e) \<Rightarrow> s' = s
    | Inl (SupDaemon e) \<Rightarrow> False
    | Inr h \<Rightarrow> (\<exists>pid stdin. proc spec = Some (pid, stdin)
          \<and> (if hs_initial_prompt spec = [] then hn_out h = ss_out stdin
             else \<exists>l. hx_print j (user_turn (hs_initial_prompt spec)) = Some l \<and> hn_out h = ss_out stdin @ l @ [0x0A]))
        \<and> agents_status (sv_group p) (sv_session p) ''running'' s'
        \<and> map_of (dm_children s') (sv_group p, sv_session p) \<noteq> None
        \<and> set (pending_turns w (sv_group p) (sv_session p) s') \<subseteq> set (pending_turns w (sv_group p) (sv_session p) s)"
proof (cases "harness_spawn j proc spec")
  case (Inl e)
  with assms(3) show ?thesis by (auto simp: supervisor_start_def)
next
  case (Inr h)
  note inv = db_invD [OF assms(1)]
  let ?g = "sv_group p" and ?c = "sv_session p"
  let ?pend = "\<lambda>s. filter (am_pending ?g ?c ''turn_input'') (db_agent_messages (dm_db s))"
  define s1 where "s1 = snd (on_db_at w (\<lambda>now. agent_set_status now ?g ?c ''running'' (hn_pid h)) s)"
  define s2 where "s2 = record_prompt w p (hs_initial_prompt spec) s1"
  have "on_db_at w (\<lambda>now. agent_set_status now ?g ?c ''running'' (hn_pid h)) s = (Inr (), s1)"
    using inv(1) by (simp add: s1_def on_db_at_def on_db_def agent_set_status_def call_ok)
  then have run: "r = Inr h" "s' = register_child ?g ?c (dm_tick s2) s2"
    using assms(3) Inr by (simp_all add: supervisor_start_def Let_def s2_def)
  have s1: "db_ok (dm_db s1)" "agents_status ?g ?c ''running'' s1" "?pend s1 = ?pend s"
      "bus_unique (db_agent_messages (dm_db s1))"
    using inv(1,9) by (simp_all add: s1_def set_status_agents)
  have s2: "agents_status ?g ?c ''running'' s2" "set (?pend s2) \<subseteq> set (?pend s)"
    using record_prompt_effect [OF s1(1,4), of w p "hs_initial_prompt spec"] s1(2,3) by (auto simp: s2_def agents_status_def)
  have "set (pending_turns w ?g ?c s') \<subseteq> set (pending_turns w ?g ?c s)"
    using s2(2) by (simp add: run pending_turns_def is_plan_set [OF assms(2)] register_child_def)
  moreover have "agents_status ?g ?c ''running'' s'" "map_of (dm_children s') (?g, ?c) \<noteq> None"
    using s2(1) by (simp_all add: run agents_status_def register_child_def update_conv)
  ultimately show ?thesis using harness_spawn_prompt [OF Inr] unfolding run(1) by simp
qed

end
