(* ===== verification/Wt_Workspace.thy ===== *)
theory Wt_Workspace
  imports Wt_Proto
begin

text \<open>
  \<^verbatim>\<open>src/crates/wt-core/src/paths.rs\<close> and \<^verbatim>\<open>src/crates/wt-core/src/workspace.rs\<close>: where
  an install keeps its files, and the directory a session's child works in.  A path is the string
  the code holds, its key the components the library splits it into; the operating system finds what a
  key with \<open>..\<close> in it means by walking the directories that exist.  There are no links, the files of the
  install itself are named by their keys, so that \<open>WT_HOME\<close> is taken to be free of \<open>..\<close>, and nothing
  is known of what lies above a relative path.  What the operating system refuses and what the program \<open>git\<close> does are arguments (record \<open>os\<close>); what
  the code relies on of \<open>git\<close> is the predicate \<open>git_laws\<close>.
\<close>

section \<open>Paths\<close>

fun split_slash :: "string \<Rightarrow> string list" where
  "split_slash [] = [[]]"
| "split_slash (ch # s) =
     (if ch = CHR ''/'' then [] # split_slash s
      else (case split_slash s of [] \<Rightarrow> [[ch]] | p # ps \<Rightarrow> (ch # p) # ps))"

definition is_absolute :: "string \<Rightarrow> bool" where
  "is_absolute p \<longleftrightarrow> starts_with p ''/''"

text \<open>\<open>PathBuf::join\<close>: an absolute argument replaces the path.\<close>

definition path_join :: "string \<Rightarrow> string \<Rightarrow> string" where
  "path_join p q =
     (if is_absolute q then q
      else if p = [] \<or> last p = CHR ''/'' then p @ q
      else p @ ''/'' @ q)"

type_synonym path_key = "bool \<times> string list"

definition path_key :: "string \<Rightarrow> path_key" where
  "path_key p = (is_absolute p, filter (\<lambda>x. x \<noteq> [] \<and> x \<noteq> ''.'') (split_slash p))"

definition parent_key :: "path_key \<Rightarrow> path_key option" where
  "parent_key k = (if snd k = [] then None else Some (fst k, butlast (snd k)))"

section \<open>The operating system\<close>

record fsys =
  fs_paths :: "path_key set"
  fs_files :: "path_key \<rightharpoonup> bytes"
  fs_private :: "path_key set"
  fs_branches :: "(string \<times> string) set"

datatype git_outcome = GitNotRun | GitFailed string | GitOk

record os =
  os_env_home :: "string option"
  os_base_home :: "string option"
  os_can_create :: "path_key \<Rightarrow> bool"
  os_can_remove :: "path_key \<Rightarrow> bool"
  os_inside_work_tree :: "fsys \<Rightarrow> string \<Rightarrow> bool"
  os_worktree_add :: "string \<Rightarrow> string \<Rightarrow> string \<Rightarrow> fsys \<Rightarrow> git_outcome \<times> fsys"
  os_worktree_remove :: "string \<Rightarrow> string \<Rightarrow> fsys \<Rightarrow> fsys"
  os_branch_delete :: "string \<Rightarrow> string \<Rightarrow> fsys \<Rightarrow> fsys"

definition fs_exists :: "string \<Rightarrow> fsys \<Rightarrow> bool" where
  "fs_exists p f \<longleftrightarrow> path_key p \<in> fs_paths f \<or> fs_files f (path_key p) \<noteq> None"

text \<open>Walking the components of a path from the directory \<open>cur\<close>: \<open>..\<close> leads to the parent of a directory
  that is there, and from the root to itself.\<close>

fun walk :: "(path_key \<Rightarrow> bool) \<Rightarrow> bool \<Rightarrow> string list \<Rightarrow> string list \<Rightarrow> string list option" where
  "walk dir absolute cur [] = Some cur"
| "walk dir absolute cur (x # xs) =
     (if x \<noteq> ''..'' then walk dir absolute (cur @ [x]) xs
      else if cur = [] then (if absolute then walk dir absolute [] xs else None)
      else if dir (absolute, cur) then walk dir absolute (butlast cur) xs else None)"

definition resolve :: "fsys \<Rightarrow> path_key \<Rightarrow> path_key option" where
  "resolve f k = map_option (Pair (fst k)) (walk (\<lambda>d. d \<in> fs_paths f) (fst k) [] (snd k))"

text \<open>\<open>Path::exists\<close>.\<close>

definition path_exists :: "string \<Rightarrow> fsys \<Rightarrow> bool" where
  "path_exists p f =
     (case resolve f (path_key p) of None \<Rightarrow> False | Some k \<Rightarrow> k \<in> fs_paths f \<or> fs_files f k \<noteq> None)"

text \<open>\<open>create_dir_all\<close> makes each directory on the way, so it can step up from any of them.\<close>

definition ancestors :: "path_key \<Rightarrow> path_key set" where
  "ancestors k =
     Pair (fst k) ` set (List.map_filter (\<lambda>n. walk (\<lambda>_. True) (fst k) [] (take n (snd k))) [0..<Suc (length (snd k))])"

definition create_dir_all :: "'o os_scheme \<Rightarrow> path_key \<Rightarrow> fsys \<Rightarrow> bool \<times> fsys" where
  "create_dir_all os k f =
     (if os_can_create os k then (True, f\<lparr>fs_paths := fs_paths f \<union> ancestors k\<rparr>) else (False, f))"

definition under :: "path_key \<Rightarrow> path_key \<Rightarrow> bool" where
  "under k x \<longleftrightarrow> fst x = fst k \<and> take (length (snd k)) (snd x) = snd k"

text \<open>\<open>remove_dir_all\<close> empties the directory the path leads to and then removes it by its path, which works
  if the path still leads there and does not end in \<open>..\<close>; otherwise the empty directory stays, and whether
  that is reported depends on the system.\<close>

definition remove_dir_all :: "'o os_scheme \<Rightarrow> path_key \<Rightarrow> fsys \<Rightarrow> bool \<times> fsys" where
  "remove_dir_all os k f =
     (case resolve f k of
        None \<Rightarrow> (False, f)
      | Some r \<Rightarrow>
          if \<not> os_can_remove os r then (False, f)
          else (let f1 = f\<lparr>fs_paths := Set.filter (\<lambda>x. x = r \<or> \<not> under r x) (fs_paths f),
                           fs_files := (\<lambda>x. if under r x then None else fs_files f x)\<rparr>
                in if (snd k = [] \<or> last (snd k) \<noteq> ''..'') \<and> resolve f1 k = Some r
                   then (True, f1\<lparr>fs_paths := fs_paths f1 - {r}\<rparr>)
                   else (os_can_remove os k, f1)))"

section \<open>The directories of an install\<close>

definition home :: "'o os_scheme \<Rightarrow> string" where
  "home os =
     (case os_env_home os of
        Some p \<Rightarrow> p
      | None \<Rightarrow> path_join (case os_base_home os of Some d \<Rightarrow> d | None \<Rightarrow> ''.'') ''.wt'')"

definition keys_dir :: "'o os_scheme \<Rightarrow> string" where
  "keys_dir os = path_join (home os) ''keys''"

definition secret_key_path :: "'o os_scheme \<Rightarrow> string" where
  "secret_key_path os = path_join (keys_dir os) ''id_ed25519''"

definition public_key_path :: "'o os_scheme \<Rightarrow> string" where
  "public_key_path os = path_join (keys_dir os) ''id_ed25519.pub''"

definition data_dir :: "'o os_scheme \<Rightarrow> string" where
  "data_dir os = path_join (home os) ''data''"

definition state_db_path :: "'o os_scheme \<Rightarrow> string" where
  "state_db_path os = path_join (data_dir os) ''state.db''"

definition run_dir :: "'o os_scheme \<Rightarrow> string" where
  "run_dir os = path_join (home os) ''run''"

definition daemon_sock_path :: "'o os_scheme \<Rightarrow> string" where
  "daemon_sock_path os = path_join (run_dir os) ''daemon.sock''"

definition daemon_pid_path :: "'o os_scheme \<Rightarrow> string" where
  "daemon_pid_path os = path_join (run_dir os) ''daemon.pid''"

definition logs_dir :: "'o os_scheme \<Rightarrow> string" where
  "logs_dir os = path_join (home os) ''logs''"

definition sessions_dir :: "'o os_scheme \<Rightarrow> string" where
  "sessions_dir os = path_join (home os) ''sessions''"

definition session_dir :: "'o os_scheme \<Rightarrow> string \<Rightarrow> string \<Rightarrow> string" where
  "session_dir os grp session = path_join (path_join (sessions_dir os) grp) session"

text \<open>\<open>ensure_dirs\<close>: each directory is created and set to mode \<open>0700\<close>; the first failure stops it.\<close>

fun ensure_each :: "'o os_scheme \<Rightarrow> string list \<Rightarrow> fsys \<Rightarrow> bool \<times> fsys" where
  "ensure_each os [] f = (True, f)"
| "ensure_each os (d # ds) f =
     (case create_dir_all os (path_key d) f of
        (False, f') \<Rightarrow> (False, f')
      | (True, f') \<Rightarrow> ensure_each os ds (f'\<lparr>fs_private := insert (path_key d) (fs_private f')\<rparr>))"

definition ensure_dirs :: "'o os_scheme \<Rightarrow> fsys \<Rightarrow> bool \<times> fsys" where
  "ensure_dirs os = ensure_each os [keys_dir os, data_dir os, run_dir os, logs_dir os, sessions_dir os]"

definition unlink_if_exists :: "'o os_scheme \<Rightarrow> string \<Rightarrow> fsys \<Rightarrow> bool \<times> fsys" where
  "unlink_if_exists os p f =
     (if fs_files f (path_key p) \<noteq> None then
        (if os_can_remove os (path_key p) then (True, f\<lparr>fs_files := (fs_files f)(path_key p := None)\<rparr>) else (False, f))
      else (path_key p \<notin> fs_paths f, f))"

section \<open>Workspaces\<close>

record Workspace =
  ws_path :: string
  ws_branch :: "string option"

datatype ws_error =
    WsExists string
  | WsCreateParent string
  | WsNotRepo string
  | WsSpawnGit
  | WsGit string
  | WsCreate string
  | WsRemove string

text \<open>The outermost message of the error, as \<open>{e}\<close> prints it; the parent's spelling is its components.\<close>

definition ws_error_display :: "ws_error \<Rightarrow> string" where
  "ws_error_display e =
     (case e of
        WsExists p \<Rightarrow> ''workspace path already exists: '' @ p
      | WsCreateParent p \<Rightarrow> ''create workspace parent '' @ p
      | WsNotRepo b \<Rightarrow> ''--worktree requires a git repository at '' @ b @ '' (use --new for a fresh folder)''
      | WsSpawnGit \<Rightarrow> ''spawn git worktree add''
      | WsGit err \<Rightarrow> ''git worktree add failed: '' @ trim err
      | WsCreate p \<Rightarrow> ''create workspace '' @ p
      | WsRemove p \<Rightarrow> ''remove workspace '' @ p)"

definition show_key :: "path_key \<Rightarrow> string" where
  "show_key k = (if fst k then ''/'' else []) @ fold (\<lambda>x acc. if acc = [] then x else acc @ ''/'' @ x) (snd k) []"

definition is_git_repo :: "'o os_scheme \<Rightarrow> string \<Rightarrow> fsys \<Rightarrow> bool" where
  "is_git_repo os dir f = (if \<not> path_exists dir f then False else os_inside_work_tree os f dir)"

definition provision_in ::
  "'o os_scheme \<Rightarrow> string \<Rightarrow> string \<Rightarrow> string \<Rightarrow> FsMode \<Rightarrow> fsys \<Rightarrow> (ws_error + Workspace) \<times> fsys" where
  "provision_in os ws branch base_dir mode f =
     (case mode of
        Worktree \<Rightarrow>
          if \<not> is_git_repo os base_dir f then (Inl (WsNotRepo base_dir), f)
          else (case os_worktree_add os base_dir ws branch f of
                  (GitNotRun, f') \<Rightarrow> (Inl WsSpawnGit, f')
                | (GitFailed err, f') \<Rightarrow> (Inl (WsGit err), f')
                | (GitOk, f') \<Rightarrow> (Inr \<lparr>ws_path = ws, ws_branch = Some branch\<rparr>, f'))
      | New \<Rightarrow>
          (case create_dir_all os (path_key ws) f of
             (False, f') \<Rightarrow> (Inl (WsCreate ws), f')
           | (True, f') \<Rightarrow> (Inr \<lparr>ws_path = ws, ws_branch = None\<rparr>, f')))"

definition provision_at ::
  "'o os_scheme \<Rightarrow> string \<Rightarrow> string \<Rightarrow> string \<Rightarrow> FsMode \<Rightarrow> fsys \<Rightarrow> (ws_error + Workspace) \<times> fsys" where
  "provision_at os ws branch base_dir mode f =
     (if path_exists ws f then (Inl (WsExists ws), f)
      else (case parent_key (path_key ws) of
              None \<Rightarrow> provision_in os ws branch base_dir mode f
            | Some parent \<Rightarrow>
                (case create_dir_all os parent f of
                   (False, f') \<Rightarrow> (Inl (WsCreateParent (show_key parent)), f')
                 | (True, f') \<Rightarrow> provision_in os ws branch base_dir mode f')))"

definition session_branch :: "string \<Rightarrow> string \<Rightarrow> string" where
  "session_branch grp session = ''wt/'' @ grp @ ''/'' @ session"

definition provision ::
  "'o os_scheme \<Rightarrow> string \<Rightarrow> string \<Rightarrow> string \<Rightarrow> FsMode \<Rightarrow> fsys \<Rightarrow> (ws_error + Workspace) \<times> fsys" where
  "provision os grp session base_dir mode =
     provision_at os (session_dir os grp session) (session_branch grp session) base_dir mode"

definition teardown ::
  "'o os_scheme \<Rightarrow> string \<Rightarrow> string option \<Rightarrow> FsMode \<Rightarrow> string option \<Rightarrow> bool \<Rightarrow> fsys \<Rightarrow> (ws_error + unit) \<times> fsys" where
  "teardown os ws base_dir mode branch discard f =
     (case mode of
        Worktree \<Rightarrow>
          (let f1 = (case base_dir of
                       None \<Rightarrow> f
                     | Some base \<Rightarrow>
                         (let g = os_worktree_remove os base ws f in
                          if discard then (case branch of Some b \<Rightarrow> os_branch_delete os base b g | None \<Rightarrow> g) else g));
               f2 = (if discard \<and> path_exists ws f1 then snd (remove_dir_all os (path_key ws) f1) else f1)
           in (Inr (), f2))
      | New \<Rightarrow>
          if discard \<and> path_exists ws f then
            (case remove_dir_all os (path_key ws) f of
               (False, f') \<Rightarrow> (Inl (WsRemove ws), f')
             | (True, f') \<Rightarrow> (Inr (), f'))
          else (Inr (), f))"

section \<open>What the code relies on of git\<close>

definition below :: "path_key \<Rightarrow> path_key set" where
  "below k = {x. under k x}"

text \<open>A successful \<open>worktree add\<close> makes the directory and the branch, and whether it succeeds or not it touches
  nothing outside the worktree; \<open>worktree remove --force\<close> removes no branch and nothing outside the worktree;
  \<open>branch -D\<close> removes that branch only and no path.  The files in which \<open>git\<close> keeps a repository are not part
  of the model, which knows of a repository only its branches.  Nothing is asked of a path with \<open>..\<close> in it.\<close>

definition plain_key :: "path_key \<Rightarrow> bool" where
  "plain_key k \<longleftrightarrow> ''..'' \<notin> set (snd k)"

definition git_laws :: "'o os_scheme \<Rightarrow> bool" where
  "git_laws os \<longleftrightarrow>
     (\<forall>base ws b f out f'. plain_key (path_key ws) \<longrightarrow> os_worktree_add os base ws b f = (out, f') \<longrightarrow>
        (out = GitOk \<longrightarrow> path_key ws \<in> fs_paths f' \<and> fs_branches f' = insert (base, b) (fs_branches f) \<and> fs_paths f \<subseteq> fs_paths f')
        \<and> fs_paths f' - below (path_key ws) = fs_paths f - below (path_key ws)
        \<and> (\<forall>x. x \<notin> below (path_key ws) \<longrightarrow> fs_files f' x = fs_files f x))
     \<and> (\<forall>base ws f. plain_key (path_key ws) \<longrightarrow> fs_branches (os_worktree_remove os base ws f) = fs_branches f
        \<and> fs_paths (os_worktree_remove os base ws f) - below (path_key ws) = fs_paths f - below (path_key ws)
        \<and> (\<forall>x. x \<notin> below (path_key ws) \<longrightarrow> fs_files (os_worktree_remove os base ws f) x = fs_files f x))
     \<and> (\<forall>base b f. fs_branches (os_branch_delete os base b f) = fs_branches f - {(base, b)}
        \<and> fs_paths (os_branch_delete os base b f) = fs_paths f \<and> fs_files (os_branch_delete os base b f) = fs_files f)"

section \<open>Lemmas\<close>

lemma self_in_below [simp]: "k \<in> below k"
  by (simp add: below_def under_def)

text \<open>Without \<open>..\<close> a path leads where its components say.\<close>

lemma walk_plain: "''..'' \<notin> set xs \<Longrightarrow> walk dir a cur xs = Some (cur @ xs)"
  by (induction xs arbitrary: cur) auto

lemma walk_plain_append: "''..'' \<notin> set xs \<Longrightarrow> walk dir a cur (xs @ ys) = walk dir a (cur @ xs) ys"
  by (induction xs arbitrary: cur) auto

lemma resolve_plain [simp]: "plain_key k \<Longrightarrow> resolve f k = Some k"
  by (simp add: resolve_def plain_key_def walk_plain)

lemma path_exists_plain: "plain_key (path_key p) \<Longrightarrow> path_exists p f \<longleftrightarrow> fs_exists p f"
  by (simp add: path_exists_def fs_exists_def)

lemma ancestors_plain:
  assumes "plain_key k"
  shows "ancestors k = (\<lambda>n. (fst k, take n (snd k))) ` {..length (snd k)}"
proof -
  have "walk (\<lambda>_. True) (fst k) [] (take n (snd k)) = Some (take n (snd k))" for n
    using assms by (subst walk_plain) (auto simp: plain_key_def dest: in_set_takeD)
  then show ?thesis
    by (auto simp: ancestors_def List.map_filter_def image_image atLeast0LessThan lessThan_Suc_atMost simp del: upt_Suc)
qed

lemma walk_length: "walk dir a cur xs = Some q \<Longrightarrow> length q \<le> length cur + length xs"
  by (induction dir a cur xs rule: walk.induct) (auto split: if_splits)

lemma ancestors_length: "k \<in> ancestors m \<Longrightarrow> length (snd k) \<le> length (snd m)"
proof -
  assume "k \<in> ancestors m"
  then obtain n where "n \<le> length (snd m)" "walk (\<lambda>_. True) (fst m) [] (take n (snd m)) = Some (snd k)"
    by (auto simp: ancestors_def List.map_filter_def less_Suc_eq_le simp del: upt_Suc)
  then show ?thesis using walk_length by force
qed

lemma in_ancestors:
  assumes "walk (\<lambda>_. True) (fst k) [] (take n (snd k)) = Some cs" "n \<le> length (snd k)"
  shows "(fst k, cs) \<in> ancestors k"
proof -
  have "cs \<in> set (List.map_filter (\<lambda>n. walk (\<lambda>_. True) (fst k) [] (take n (snd k))) [0..<Suc (length (snd k))])"
    using assms unfolding List.map_filter_def by (auto simp: less_Suc_eq_le simp del: upt_Suc intro!: rev_image_eqI [of n])
  then show ?thesis unfolding ancestors_def by blast
qed

lemma self_in_ancestors: "plain_key k \<Longrightarrow> k \<in> ancestors k"
  by (cases k) (auto simp: ancestors_plain intro: rev_image_eqI [of "length (snd k)"])

text \<open>The components of a joined path.\<close>

lemma split_slash_not_Nil [simp]: "split_slash s \<noteq> []"
  by (cases s) (auto split: list.splits)

lemma split_slash_append: "split_slash (p @ CHR ''/'' # q) = split_slash p @ split_slash q"
proof (induction p)
  case (Cons ch p)
  then show ?case by (cases "split_slash p") auto
qed simp

lemma split_slash_name: "CHR ''/'' \<notin> set q \<Longrightarrow> split_slash q = [q]"
  by (induction q) auto

lemma path_key_join_relative:
  assumes "\<not> is_absolute q"
  shows "path_key (path_join p q) = (fst (path_key p), snd (path_key p) @ snd (path_key q))"
proof -
  consider "p = []" | p' where "p = p' @ [CHR ''/'']" | "p \<noteq> []" "last p \<noteq> CHR ''/''"
    by (metis append_butlast_last_id)
  then show ?thesis
  proof cases
    case 1
    with assms show ?thesis by (simp add: path_join_def path_key_def is_absolute_def starts_with_def)
  next
    case 2
    have "is_absolute (p @ q) = is_absolute p" by (simp add: 2 is_absolute_def starts_with_def take_Cons' split: nat.splits)
    moreover have "split_slash (p @ q) = split_slash p' @ split_slash q" "split_slash p = split_slash p' @ [[]]"
      using split_slash_append [of p' q] split_slash_append [of p' "[]"] by (simp_all add: 2)
    ultimately show ?thesis using assms by (simp add: path_join_def path_key_def 2)
  next
    case 3
    have "is_absolute (p @ CHR ''/'' # q) = is_absolute p" using 3(1) by (cases p) (auto simp: is_absolute_def starts_with_def)
    with 3 assms show ?thesis by (simp add: path_join_def path_key_def split_slash_append)
  qed
qed

lemma path_key_join:
  assumes "CHR ''/'' \<notin> set q" "q \<noteq> []" "q \<noteq> ''.''"
  shows "path_key (path_join p q) = (fst (path_key p), snd (path_key p) @ [q])"
proof -
  have "\<not> is_absolute q" using assms(1,2) by (cases q) (auto simp: is_absolute_def starts_with_def)
  from path_key_join_relative [OF this] assms show ?thesis by (simp add: path_key_def split_slash_name)
qed

text \<open>A name that is one component of a path.  Such names keep a workspace in its place below the
  directory of the sessions.\<close>

definition plain_name :: "string \<Rightarrow> bool" where
  "plain_name n \<longleftrightarrow> n \<noteq> [] \<and> CHR ''/'' \<notin> set n \<and> n \<noteq> ''.'' \<and> n \<noteq> ''..''"

lemma sessions_key: "path_key (sessions_dir os) = (fst (path_key (home os)), snd (path_key (home os)) @ [''sessions''])"
  unfolding sessions_dir_def by (rule path_key_join) simp_all

lemma group_key:
  "plain_name g \<Longrightarrow> path_key (path_join (sessions_dir os) g) = (fst (path_key (home os)), snd (path_key (home os)) @ [''sessions'', g])"
  by (simp add: plain_name_def path_key_join sessions_key)

lemma session_key:
  assumes "plain_name g" "plain_name n"
  shows "path_key (session_dir os g n) = (fst (path_key (home os)), snd (path_key (home os)) @ [''sessions'', g, n])"
  using assms(2) group_key [OF assms(1), of os] by (simp add: session_dir_def plain_name_def path_key_join)

text \<open>Creating directories only adds paths that lead to the new one.\<close>

lemma create_dir_all_effect:
  assumes "create_dir_all os k f = (ok, f')"
  shows "fs_paths f' = (if ok then fs_paths f \<union> ancestors k else fs_paths f)" "fs_files f' = fs_files f"
    "fs_branches f' = fs_branches f"
  using assms by (auto simp: create_dir_all_def split: if_splits)

lemma ancestors_not_below:
  assumes "parent_key k = Some p" "plain_key k"
  shows "ancestors p \<inter> below k = {}" "ancestors k = insert k (ancestors p)"
proof -
  obtain a cs where k: "k = (a, cs)" by (cases k)
  with assms have cs: "cs \<noteq> []" and p: "p = (a, butlast cs)" by (auto simp: parent_key_def split: if_splits)
  have "plain_key p" using assms(2) by (auto simp: plain_key_def k p dest: in_set_butlastD)
  note anc = ancestors_plain [OF assms(2), unfolded k] ancestors_plain [OF this, unfolded p]
  have len: "length cs = Suc (length (butlast cs))" using cs by simp
  show "ancestors p \<inter> below k = {}"
  proof (rule equals0I)
    fix x assume "x \<in> ancestors p \<inter> below k"
    then obtain n where "n \<le> length (butlast cs)" "x = (a, take n (butlast cs))" "take (length cs) (snd x) = cs"
      unfolding k p anc by (auto simp: below_def under_def)
    then have "length cs \<le> length (butlast cs)" by (metis length_take min.cobounded1 min.commute snd_conv le_trans)
    with len show False by simp
  qed
  obtain m where m: "length (butlast cs) = m" "length cs = Suc m" using len by blast
  have "(\<lambda>n. (a, take n cs)) ` {..m} = (\<lambda>n. (a, take n (butlast cs))) ` {..m}"
  proof (rule image_cong)
    fix n assume "n \<in> {..m}"
    then have "n < length cs" using m by simp
    then show "(a, take n cs) = (a, take n (butlast cs))" by (simp add: take_butlast)
  qed simp
  moreover have "take (Suc m) cs = cs" using m by simp
  ultimately have "(\<lambda>n. (a, take n cs)) ` {..Suc m} = insert (a, cs) ((\<lambda>n. (a, take n (butlast cs))) ` {..m})"
    unfolding atMost_Suc image_insert by simp
  then show "ancestors k = insert k (ancestors p)" unfolding k p anc fst_conv snd_conv m .
qed


lemma remove_dir_all_effect:
  assumes "os_can_remove os k" "plain_key k"
  shows "remove_dir_all os k f = (True, f\<lparr>fs_paths := fs_paths f - below k,
     fs_files := (\<lambda>x. if under k x then None else fs_files f x)\<rparr>)"
proof -
  have "Set.filter (\<lambda>x. x = k \<or> \<not> under k x) S - {k} = S - below k" for S by (auto simp: below_def under_def)
  moreover have "snd k = [] \<or> last (snd k) \<noteq> ''..''" using assms(2) by (metis last_in_set plain_key_def)
  ultimately show ?thesis using assms by (simp add: remove_dir_all_def Let_def)
qed

text \<open>Whatever comes of it, neither provisioning nor tearing down touches a file outside the workspace.\<close>

lemma provision_files:
  assumes "git_laws os" "plain_key (path_key ws)" "x \<notin> below (path_key ws)"
  shows "fs_files (snd (provision_at os ws b base mode f)) x = fs_files f x"
proof -
  have dirs: "fs_files (snd (create_dir_all os k g)) = fs_files g" for k g by (simp add: create_dir_all_def)
  have "fs_files (snd (os_worktree_add os base ws b g)) x = fs_files g x" for g
    using assms surj_pair [of "os_worktree_add os base ws b g"] unfolding git_laws_def by (metis snd_conv)
  then have "fs_files (snd (provision_in os ws b base mode g)) x = fs_files g x" for g
    using dirs [of "path_key ws" g]
    by (auto simp: provision_in_def split: FsMode.splits prod.splits git_outcome.splits bool.splits) (metis snd_conv)+
  then show ?thesis
    using dirs [of _ f] by (auto simp: provision_at_def split: option.splits prod.splits bool.splits) (metis snd_conv)+
qed

lemma teardown_files:
  assumes "git_laws os" "plain_key (path_key ws)" "x \<notin> below (path_key ws)"
  shows "fs_files (snd (teardown os ws base mode br discard f)) x = fs_files f x"
proof -
  have rm: "fs_files (snd (remove_dir_all os (path_key ws) g)) x = fs_files g x" for g
    using assms(2,3) by (cases "os_can_remove os (path_key ws)")
      (simp_all add: remove_dir_all_effect below_def, simp add: remove_dir_all_def)
  have git: "fs_files (os_worktree_remove os b0 ws g) x = fs_files g x" "fs_files (os_branch_delete os b0 b1 g) = fs_files g" for b0 b1 g
    using assms unfolding git_laws_def by blast+
  show ?thesis
  proof (cases mode)
    case New
    with rm [of f] show ?thesis by (auto simp: teardown_def split: prod.splits bool.splits)
  next
    case Worktree
    with rm git show ?thesis by (auto simp: teardown_def Let_def split: option.splits)
  qed
qed

text \<open>What provisioning leaves, in either mode.\<close>

lemma provision_in_effect:
  assumes "git_laws os" "plain_key (path_key ws)" and "provision_in os ws b base mode f = (Inr wk, f')"
  shows "path_key ws \<in> fs_paths f' \<and> ws_path wk = ws
    \<and> fs_paths f' - below (path_key ws) = (fs_paths f \<union> (if mode = New then ancestors (path_key ws) else {})) - below (path_key ws)
    \<and> (\<forall>x. x \<notin> below (path_key ws) \<longrightarrow> fs_files f' x = fs_files f x)
    \<and> (mode = Worktree \<longrightarrow> ws_branch wk = Some b \<and> fs_branches f' = insert (base, b) (fs_branches f))
    \<and> (mode = New \<longrightarrow> ws_branch wk = None \<and> fs_branches f' = fs_branches f)"
proof (cases mode)
  case Worktree
  with assms(3) have "os_worktree_add os base ws b f = (GitOk, f')" "wk = \<lparr>ws_path = ws, ws_branch = Some b\<rparr>"
    by (auto simp: provision_in_def split: if_splits prod.splits git_outcome.splits)
  with assms(1,2) Worktree show ?thesis unfolding git_laws_def by simp
next
  case New
  with assms(3) have "create_dir_all os (path_key ws) f = (True, f')" "wk = \<lparr>ws_path = ws, ws_branch = None\<rparr>"
    by (auto simp: provision_in_def split: if_splits prod.splits bool.splits)
  with create_dir_all_effect [OF this(1)] self_in_ancestors [OF assms(2)] New show ?thesis by simp
qed

lemma teardown_effect:
  assumes "git_laws os" "os_can_remove os (path_key ws)" "plain_key (path_key ws)"
  shows "\<exists>f'. teardown os ws (Some base) mode br discard f = (Inr (), f')
    \<and> fs_paths f' - below (path_key ws) = fs_paths f - below (path_key ws)
    \<and> (\<forall>x. x \<notin> below (path_key ws) \<longrightarrow> fs_files f' x = fs_files f x)
    \<and> (discard \<longrightarrow> \<not> path_exists ws f')
    \<and> (mode = New \<and> \<not> discard \<longrightarrow> f' = f)
    \<and> fs_branches f' = fs_branches f - (if mode = Worktree \<and> discard then {base} \<times> set_option br else {})"
proof -
  note rm = remove_dir_all_effect [OF assms(2,3)] and ex = path_exists_plain [OF assms(3)]
  have gone: "\<not> path_exists ws (g\<lparr>fs_paths := fs_paths g - below (path_key ws),
        fs_files := (\<lambda>x. if under (path_key ws) x then None else fs_files g x)\<rparr>)" for g
    by (simp add: ex fs_exists_def under_def)
  show ?thesis
  proof (cases mode)
    case New
    with gone show ?thesis by (simp add: teardown_def rm below_def)
  next
    case Worktree
    define g where "g = os_worktree_remove os base ws f"
    define h where "h = (if discard then (case br of Some b \<Rightarrow> os_branch_delete os base b g | None \<Rightarrow> g) else g)"
    have g: "fs_branches g = fs_branches f" "fs_paths g - below (path_key ws) = fs_paths f - below (path_key ws)"
      "\<forall>x. x \<notin> below (path_key ws) \<longrightarrow> fs_files g x = fs_files f x"
      using assms(1,3) by (auto simp: git_laws_def g_def)
    have h: "fs_paths h = fs_paths g" "fs_files h = fs_files g"
      "fs_branches h = fs_branches g - (if discard then {base} \<times> set_option br else {})"
      using assms(1) by (auto simp: git_laws_def h_def split: option.splits)
    define f' where "f' = (if discard \<and> path_exists ws h then snd (remove_dir_all os (path_key ws) h) else h)"
    have "teardown os ws (Some base) mode br discard f = (Inr (), f')"
      unfolding teardown_def Worktree Let_def f'_def h_def g_def by simp
    moreover have "discard \<longrightarrow> \<not> path_exists ws f'" using gone by (auto simp: f'_def rm)
    moreover have "fs_paths f' - below (path_key ws) = fs_paths f - below (path_key ws)"
      "\<forall>x. x \<notin> below (path_key ws) \<longrightarrow> fs_files f' x = fs_files f x"
      using g(2,3) h(1,2) by (auto simp: f'_def rm below_def)
    moreover have "fs_branches f' = fs_branches f - (if discard then {base} \<times> set_option br else {})"
      using g(1) h(3) by (simp add: f'_def rm)
    ultimately show ?thesis using Worktree by simp
  qed
qed

lemma provision_at_inner:
  assumes "provision_at os ws b base mode f = (Inr wk, f1)" "plain_key (path_key ws)"
  obtains f0 where "\<not> path_exists ws f" "provision_in os ws b base mode f0 = (Inr wk, f1)" "fs_branches f0 = fs_branches f"
    "fs_paths f0 - ancestors (path_key ws) = fs_paths f - ancestors (path_key ws)" "fs_files f0 = fs_files f"
proof (cases "parent_key (path_key ws)")
  case None
  with assms that show ?thesis by (auto simp: provision_at_def split: if_splits)
next
  case (Some par)
  with assms obtain f0 where f0: "\<not> path_exists ws f" "create_dir_all os par f = (True, f0)" "provision_in os ws b base mode f0 = (Inr wk, f1)"
    by (auto simp: provision_at_def split: prod.splits bool.splits if_splits)
  with create_dir_all_effect [OF f0(2)] ancestors_not_below(2) [OF Some assms(2)] show ?thesis by (intro that [of f0]) auto
qed

lemma provision_teardown:
  assumes "git_laws os" "os_can_remove os (path_key ws)" "plain_key (path_key ws)" "provision_at os ws b base mode f = (Inr wk, f1)"
  shows "\<not> path_exists ws f \<and> path_exists ws f1 \<and> ws_path wk = ws \<and> ws_branch wk = (if mode = Worktree then Some b else None)
    \<and> (\<exists>f2. teardown os ws (Some base) mode (ws_branch wk) discard f1 = (Inr (), f2)
         \<and> (discard \<longrightarrow> \<not> path_exists ws f2)
         \<and> fs_branches f2 = (if mode = New then fs_branches f
                              else if discard then fs_branches f - {(base, b)} else insert (base, b) (fs_branches f))
         \<and> (\<forall>x. x \<notin> below (path_key ws) \<longrightarrow> fs_files f2 x = fs_files f x)
         \<and> fs_paths f2 - below (path_key ws) - ancestors (path_key ws)
             = fs_paths f - below (path_key ws) - ancestors (path_key ws))"
proof -
  obtain f0 where f0: "\<not> path_exists ws f" "provision_in os ws b base mode f0 = (Inr wk, f1)" "fs_branches f0 = fs_branches f"
    "fs_paths f0 - ancestors (path_key ws) = fs_paths f - ancestors (path_key ws)" "fs_files f0 = fs_files f"
    by (rule provision_at_inner [OF assms(4,3)])
  note p = provision_in_effect [OF assms(1,3) f0(2)]
  from teardown_effect [OF assms(1-3), of base mode "ws_branch wk" discard f1] obtain f2 where t:
    "teardown os ws (Some base) mode (ws_branch wk) discard f1 = (Inr (), f2)"
    "fs_paths f2 - below (path_key ws) = fs_paths f1 - below (path_key ws)" "discard \<longrightarrow> \<not> path_exists ws f2"
    "\<forall>x. x \<notin> below (path_key ws) \<longrightarrow> fs_files f2 x = fs_files f1 x"
    "fs_branches f2 = fs_branches f1 - (if mode = Worktree \<and> discard then {base} \<times> set_option (ws_branch wk) else {})" by blast
  have "fs_paths f1 - below (path_key ws) - ancestors (path_key ws) = fs_paths f0 - ancestors (path_key ws) - below (path_key ws)"
    using p by (auto split: if_splits)
  with t(2) f0(4) have "fs_paths f2 - below (path_key ws) - ancestors (path_key ws)
                = fs_paths f - below (path_key ws) - ancestors (path_key ws)" by auto
  moreover have "fs_branches f2 = (if mode = New then fs_branches f
                                 else if discard then fs_branches f - {(base, b)} else insert (base, b) (fs_branches f))"
    using p t(5) f0(3) by (cases mode) auto
  moreover have "path_exists ws f1" using p by (simp add: path_exists_plain [OF assms(3)] fs_exists_def)
  ultimately show ?thesis using f0(1,5) t(1,3,4) p by (cases mode) auto
qed

section \<open>A session named after the parent directory\<close>

lemma dotdot_key:
  assumes "plain_name g"
  shows "path_key (session_dir os g ''../..'') = (fst (path_key (home os)), snd (path_key (home os)) @ [''sessions'', g, ''..'', ''..''])"
proof -
  have "\<not> is_absolute ''../..''" "snd (path_key ''../..'') = [''..'', ''..'']" by (simp_all add: is_absolute_def starts_with_def path_key_def)
  then show ?thesis using group_key [OF assms, of os] by (simp add: session_dir_def path_key_join_relative)
qed

lemma dotdot_resolve:
  assumes "plain_key h" "''..'' \<noteq> g"
  shows "resolve f (fst h, snd h @ [''sessions'', g, ''..'', ''..'']) =
    (if (fst h, snd h @ [''sessions'', g]) \<in> fs_paths f \<and> (fst h, snd h @ [''sessions'']) \<in> fs_paths f then Some h else None)"
  using assms by (cases h) (simp add: resolve_def plain_key_def walk_plain_append butlast_append)

text \<open>Provisioning takes the path for a new one as long as the group has no directory yet, makes that
  directory, and the path then leads to the install's own directory.\<close>

lemma dotdot_provision:
  assumes "plain_key (path_key (home os))" "plain_name g" "\<And>k. os_can_create os k"
    and "path_key (path_join (sessions_dir os) g) \<notin> fs_paths f"
  shows "\<exists>f1. provision os g ''../..'' base New f = (Inr \<lparr>ws_path = session_dir os g ''../..'', ws_branch = None\<rparr>, f1)
    \<and> resolve f1 (path_key (session_dir os g ''../..'')) = Some (path_key (home os)) \<and> path_key (home os) \<in> fs_paths f1"
proof -
  let ?h = "path_key (home os)" and ?ws = "session_dir os g ''../..''"
  have g: "''..'' \<noteq> g" using assms(2) by (auto simp: plain_name_def)
  note key = dotdot_key [OF assms(2), of os] and res = dotdot_resolve [OF assms(1) g]
  have "\<not> path_exists ?ws f" using assms(4) by (simp add: path_exists_def key res group_key [OF assms(2)])
  moreover obtain par where par: "parent_key (path_key ?ws) = Some par" by (simp add: key parent_key_def)
  define f1 where "f1 = snd (create_dir_all os (path_key ?ws) (snd (create_dir_all os par f)))"
  have "provision os g ''../..'' base New f = (Inr \<lparr>ws_path = ?ws, ws_branch = None\<rparr>, f1)"
    using calculation par assms(3) by (simp add: provision_def provision_at_def provision_in_def create_dir_all_def f1_def)
  moreover have anc: "(fst ?h, cs) \<in> fs_paths f1"
    if "walk (\<lambda>_. True) (fst ?h) [] (take n (snd (path_key ?ws))) = Some cs" "n \<le> length (snd (path_key ?ws))" for n cs
    using in_ancestors [of "path_key ?ws" n cs] that assms(3) unfolding f1_def create_dir_all_def by (simp add: key)
  moreover have plain: "''..'' \<notin> set (snd ?h)" "walk (\<lambda>_. True) (fst ?h) [] (snd ?h) = Some (snd ?h)"
    using assms(1) by (simp_all add: plain_key_def walk_plain)
  then have "(fst ?h, snd ?h @ [''sessions'', g]) \<in> fs_paths f1" "(fst ?h, snd ?h @ [''sessions'']) \<in> fs_paths f1"
    "(fst ?h, snd ?h) \<in> fs_paths f1"
    using anc [of "length (snd ?h) + 2"] anc [of "length (snd ?h) + 1"] anc [of "length (snd ?h)"] g
    by (simp_all add: key walk_plain_append)
  ultimately show ?thesis by (simp add: key res)
qed

lemma dotdot_teardown:
  assumes "plain_key (path_key (home os))" "plain_name g" "os_can_remove os (path_key (home os))"
    and "resolve f (path_key (session_dir os g ''../..'')) = Some (path_key (home os))" "path_key (home os) \<in> fs_paths f"
  shows "\<exists>r f1. teardown os (session_dir os g ''../..'') base New br True f = (r, f1)
    \<and> (\<forall>x. under (path_key (home os)) x \<longrightarrow> fs_files f1 x = None \<and> (x \<in> fs_paths f1 \<longrightarrow> x = path_key (home os)))"
proof -
  let ?ws = "session_dir os g ''../..''"
  have "path_exists ?ws f" using assms(4,5) by (simp add: path_exists_def)
  moreover obtain ok f1 where "remove_dir_all os (path_key ?ws) f = (ok, f1)"
    "\<forall>x. under (path_key (home os)) x \<longrightarrow> fs_files f1 x = None \<and> (x \<in> fs_paths f1 \<longrightarrow> x = path_key (home os))"
    using assms(3,4) by (simp add: remove_dir_all_def Let_def dotdot_key [OF assms(2)])
  ultimately show ?thesis by (cases ok) (simp_all add: teardown_def)
qed

section \<open>Properties\<close>

text \<open>
  C34 The life of a workspace.  Provisioning refuses a path that exists and changes nothing; when it
  succeeds the directory exists, and a worktree is on a branch of its own.  Tearing it down with
  \<open>discard\<close> then removes the directory and the branch it made; without \<open>discard\<close> the branch stays, for
  merging.  Every file outside the workspace, and every directory that is neither in it nor leads to it,
  is as before provisioning.  (The path has no \<open>..\<close> in it.)
\<close>

theorem workspace_lifecycle:
  assumes "git_laws os" and "os_can_remove os (path_key ws)" and "plain_key (path_key ws)"
    and "provision_at os ws b base mode f = (r, f1)"
  shows "(path_exists ws f \<longrightarrow> r = Inl (WsExists ws) \<and> f1 = f)
    \<and> (\<forall>wk. r = Inr wk \<longrightarrow> \<not> path_exists ws f \<and> path_exists ws f1 \<and> ws_path wk = ws
         \<and> ws_branch wk = (if mode = Worktree then Some b else None)
         \<and> (\<exists>f2. teardown os ws (Some base) mode (ws_branch wk) discard f1 = (Inr (), f2)
              \<and> (discard \<longrightarrow> \<not> path_exists ws f2)
              \<and> fs_branches f2 = (if mode = New then fs_branches f
                                   else if discard then fs_branches f - {(base, b)} else insert (base, b) (fs_branches f))
              \<and> (\<forall>x. x \<notin> below (path_key ws) \<longrightarrow> fs_files f2 x = fs_files f x)
              \<and> fs_paths f2 - below (path_key ws) - ancestors (path_key ws)
                  = fs_paths f - below (path_key ws) - ancestors (path_key ws)))"
proof (intro conjI)
  show "\<forall>wk. r = Inr wk \<longrightarrow> \<not> path_exists ws f \<and> path_exists ws f1 \<and> ws_path wk = ws
         \<and> ws_branch wk = (if mode = Worktree then Some b else None)
         \<and> (\<exists>f2. teardown os ws (Some base) mode (ws_branch wk) discard f1 = (Inr (), f2)
              \<and> (discard \<longrightarrow> \<not> path_exists ws f2)
              \<and> fs_branches f2 = (if mode = New then fs_branches f
                                   else if discard then fs_branches f - {(base, b)} else insert (base, b) (fs_branches f))
              \<and> (\<forall>x. x \<notin> below (path_key ws) \<longrightarrow> fs_files f2 x = fs_files f x)
              \<and> fs_paths f2 - below (path_key ws) - ancestors (path_key ws)
                  = fs_paths f - below (path_key ws) - ancestors (path_key ws))"
    using provision_teardown [OF assms(1-3)] assms(4) by blast
qed (use assms(4) in \<open>auto simp: provision_at_def\<close>)

text \<open>A system that refuses nothing, whose \<open>git\<close> does what the laws ask and no more.\<close>

definition sample_os :: os where
  "sample_os = \<lparr>os_env_home = Some ''/h'', os_base_home = None, os_can_create = (\<lambda>k. True), os_can_remove = (\<lambda>k. True),
     os_inside_work_tree = (\<lambda>f d. True),
     os_worktree_add = (\<lambda>base ws b f. (GitOk, f\<lparr>fs_paths := insert (path_key ws) (fs_paths f), fs_branches := insert (base, b) (fs_branches f)\<rparr>)),
     os_worktree_remove = (\<lambda>base ws f. f), os_branch_delete = (\<lambda>base b f. f\<lparr>fs_branches := fs_branches f - {(base, b)}\<rparr>)\<rparr>"

definition sample_fsys :: fsys where
  "sample_fsys = \<lparr>fs_paths = {path_key ''/repo''}, fs_files = Map.empty, fs_private = {}, fs_branches = {}\<rparr>"

lemma sample_git: "git_laws sample_os"
  by (auto simp: git_laws_def sample_os_def)

lemma workspace_lifecycle_witness:
  "\<exists>f1 f2. provision sample_os ''g'' ''s'' ''/repo'' Worktree sample_fsys = (Inr \<lparr>ws_path = ''/h/sessions/g/s'', ws_branch = Some ''wt/g/s''\<rparr>, f1)
     \<and> teardown sample_os ''/h/sessions/g/s'' (Some ''/repo'') Worktree (Some ''wt/g/s'') True f1 = (Inr (), f2)
     \<and> \<not> path_exists ''/h/sessions/g/s'' f2 \<and> fs_branches f2 = {}"
proof -
  have path: "session_dir sample_os ''g'' ''s'' = ''/h/sessions/g/s''" "session_branch ''g'' ''s'' = ''wt/g/s''"
    by (simp_all add: session_dir_def sessions_dir_def home_def sample_os_def path_join_def is_absolute_def starts_with_def
        session_branch_def)
  let ?p = "provision_at sample_os ''/h/sessions/g/s'' ''wt/g/s'' ''/repo'' Worktree sample_fsys"
  have "fst ?p = Inr \<lparr>ws_path = ''/h/sessions/g/s'', ws_branch = Some ''wt/g/s''\<rparr>"
    by (simp add: provision_at_def provision_in_def path_exists_def resolve_def sample_fsys_def path_key_def is_absolute_def starts_with_def
        parent_key_def create_dir_all_def sample_os_def is_git_repo_def)
  then have p: "?p = (Inr \<lparr>ws_path = ''/h/sessions/g/s'', ws_branch = Some ''wt/g/s''\<rparr>, snd ?p)" by (metis prod.collapse)
  have rm: "os_can_remove sample_os k" for k by (simp add: sample_os_def)
  have plain: "plain_key (path_key ''/h/sessions/g/s'')" by (simp add: plain_key_def path_key_def)
  define f1 where "f1 = snd ?p"
  note life = workspace_lifecycle [OF sample_git rm plain p, of True, folded f1_def, THEN conjunct2, rule_format, OF refl]
  obtain f2 where
    "teardown sample_os ''/h/sessions/g/s'' (Some ''/repo'') Worktree (Some ''wt/g/s'') True f1 = (Inr (), f2)"
    "\<not> path_exists ''/h/sessions/g/s'' f2" "fs_branches f2 = fs_branches sample_fsys - {(''/repo'', ''wt/g/s'')}"
    using life by (simp only: FsMode.distinct Workspace.simps if_False if_True simp_thms) blast
  with p [folded f1_def] show ?thesis unfolding provision_def path by (simp add: sample_fsys_def)
qed

end
