(* ===== verification/Wt_Mdns.thy ===== *)
theory Wt_Mdns
  imports Wt_Daemon
begin

text \<open>
  \<^verbatim>\<open>src/crates/wt-daemon/src/mdns.rs\<close>: the map of peers seen on the local network, kept by the
  browse loop from the events the mDNS library reports.  The map is the list of its entries.
\<close>

record LanPeer =
  lp_nodeid :: NodeId
  lp_addresses :: "string list"
  lp_port :: "16 word"
  lp_instance :: string
  lp_last_seen_ms :: u64

text \<open>A resolved service: its properties, addresses, port and full name.\<close>

record ResolvedService =
  rv_txt :: "(string \<times> string) list"
  rv_addresses :: "string list"
  rv_port :: "16 word"
  rv_fullname :: string

datatype ServiceEvent = ServiceResolved ResolvedService | ServiceRemoved string | ServiceOther

definition service_instance :: "crates \<Rightarrow> NodeId \<Rightarrow> string" where
  "service_instance c n = ''wt-'' @ take 16 (hex_encode c (nid n))"

definition service_properties :: "crates \<Rightarrow> NodeId \<Rightarrow> (string \<times> string) list" where
  "service_properties c n = [(''nodeid'', hex_encode c (nid n)), (''v'', ''0.2'')]"

text \<open>Registering and browsing are calls of the mDNS library, each of which may fail; the first failure ends
  the start and discovery is left out.\<close>

definition SERVICE_TYPE :: string where
  "SERVICE_TYPE = ''_wt._udp.local.''"

record ServiceInfo =
  si_type :: string
  si_instance :: string
  si_host :: string
  si_port :: "16 word"
  si_properties :: "(string \<times> string) list"
  si_addr_auto :: bool

record mdns_lib =
  ml_daemon :: bool
  ml_info :: "ServiceInfo \<Rightarrow> bool"
  ml_register :: "ServiceInfo \<Rightarrow> bool"
  ml_browse :: "string \<Rightarrow> bool"

record Mdns =
  md_service :: ServiceInfo
  md_lan_peers :: "(NodeId \<times> LanPeer) list"
  md_own_nodeid :: NodeId
  md_running :: bool

definition service_info :: "crates \<Rightarrow> NodeId \<Rightarrow> 16 word \<Rightarrow> ServiceInfo" where
  "service_info c nodeid port =
     \<lparr>si_type = SERVICE_TYPE, si_instance = service_instance c nodeid, si_host = service_instance c nodeid @ ''.local.'',
      si_port = port, si_properties = service_properties c nodeid, si_addr_auto = True\<rparr>"

definition mdns_start :: "crates \<Rightarrow> mdns_lib \<Rightarrow> NodeId \<Rightarrow> 16 word \<Rightarrow> Mdns option" where
  "mdns_start c ml nodeid port =
     (let info = service_info c nodeid port in
      if \<not> ml_daemon ml then None
      else if \<not> ml_info ml info then None
      else if \<not> ml_register ml info then None
      else if \<not> ml_browse ml SERVICE_TYPE then None
      else Some \<lparr>md_service = info, md_lan_peers = [], md_own_nodeid = nodeid, md_running = True\<rparr>)"

text \<open>An error of the library is only logged.\<close>

definition mdns_shutdown :: "Mdns \<Rightarrow> Mdns" where
  "mdns_shutdown m = m\<lparr>md_running := False\<rparr>"

text \<open>One event of the loop body; \<open>now\<close> is the reading of \<open>now_ms\<close>.\<close>

definition browse_event ::
  "crates \<Rightarrow> NodeId \<Rightarrow> u64 \<Rightarrow> ServiceEvent \<Rightarrow> (NodeId \<times> LanPeer) list \<Rightarrow> (NodeId \<times> LanPeer) list" where
  "browse_event c own now ev peers =
     (case ev of
        ServiceResolved svc \<Rightarrow>
          (case map_of (rv_txt svc) ''nodeid'' of
             None \<Rightarrow> peers
           | Some nodeid_str \<Rightarrow>
               (case nodeid_from_str c nodeid_str of
                  Inl _ \<Rightarrow> peers
                | Inr nodeid \<Rightarrow>
                    if nodeid = own then peers
                    else AList.update nodeid
                           \<lparr>lp_nodeid = nodeid, lp_addresses = rv_addresses svc, lp_port = rv_port svc,
                            lp_instance = rv_fullname svc, lp_last_seen_ms = now\<rparr> peers))
      | ServiceRemoved fullname \<Rightarrow> filter (\<lambda>p. lp_instance (snd p) \<noteq> fullname) peers
      | ServiceOther \<Rightarrow> peers)"

text \<open>
  The loop ends at the first \<open>recv_timeout\<close> that fails, be it that the channel is closed or that thirty
  seconds passed without an event (\<open>None\<close>); the flag says that it is still running at the end of the
  list.
\<close>

fun browse_loop ::
  "crates \<Rightarrow> NodeId \<Rightarrow> (u64 \<times> ServiceEvent) option list \<Rightarrow> (NodeId \<times> LanPeer) list \<Rightarrow> bool \<times> (NodeId \<times> LanPeer) list" where
  "browse_loop c own [] peers = (True, peers)"
| "browse_loop c own (None # evs) peers = (False, peers)"
| "browse_loop c own (Some (now, ev) # evs) peers = browse_loop c own evs (browse_event c own now ev peers)"

section \<open>Lemmas\<close>

text \<open>What the map holds: entries under their own node id, each once, never the install itself.\<close>

definition lan_ok :: "NodeId \<Rightarrow> (NodeId \<times> LanPeer) list \<Rightarrow> bool" where
  "lan_ok own peers \<longleftrightarrow> distinct (map fst peers) \<and> list_all (\<lambda>p. lp_nodeid (snd p) = fst p \<and> fst p \<noteq> own \<and> wf_nodeid (fst p)) peers"

lemma set_alist_update: "set (AList.update k v xs) \<subseteq> insert (k, v) (set xs)"
  by (induction xs) auto

lemma browse_event_ok: "lan_ok own peers \<Longrightarrow> lan_ok own (browse_event c own now ev peers)"
proof (cases ev)
  case (ServiceRemoved nm)
  assume "lan_ok own peers"
  with ServiceRemoved show ?thesis
    by (auto simp: browse_event_def lan_ok_def list_all_iff distinct_map inj_on_def)
next
  case (ServiceResolved svc)
  assume ok: "lan_ok own peers"
  show ?thesis
  proof (cases "map_of (rv_txt svc) ''nodeid''")
    case (Some str)
    show ?thesis
    proof (cases "nodeid_from_str c str")
      case (Inr n)
      show ?thesis
      proof (cases "n = own")
        case False
        let ?e = "\<lparr>lp_nodeid = n, lp_addresses = rv_addresses svc, lp_port = rv_port svc,
            lp_instance = rv_fullname svc, lp_last_seen_ms = now\<rparr>"
        have "distinct (map fst (AList.update n ?e peers))"
          using ok by (simp add: lan_ok_def distinct_update)
        moreover have "list_all (\<lambda>p. lp_nodeid (snd p) = fst p \<and> fst p \<noteq> own \<and> wf_nodeid (fst p)) (AList.update n ?e peers)"
          using ok False nodeid_from_str_wf [OF Inr] set_alist_update [of n ?e peers] by (fastforce simp: lan_ok_def list_all_iff)
        ultimately show ?thesis using ServiceResolved Some Inr False by (simp add: browse_event_def lan_ok_def)
      qed (use ok ServiceResolved Some Inr in \<open>simp add: browse_event_def\<close>)
    qed (use ok ServiceResolved Some in \<open>simp add: browse_event_def\<close>)
  qed (use ok ServiceResolved in \<open>simp add: browse_event_def\<close>)
qed (simp add: browse_event_def)

lemma browse_loop_ok: "lan_ok own peers \<Longrightarrow> lan_ok own (snd (browse_loop c own evs peers))"
  by (induction c own evs peers rule: browse_loop.induct) (auto intro: browse_event_ok)

text \<open>The service this install announces is the one another install's browser reads back.\<close>

lemma announced_service_resolves:
  assumes "hex_laws c" "wf_nodeid n" "n \<noteq> own"
  shows "map_of (browse_event c own now (ServiceResolved \<lparr>rv_txt = service_properties c n, rv_addresses = addrs, rv_port = port,
       rv_fullname = nm\<rparr>) peers) n = Some \<lparr>lp_nodeid = n, lp_addresses = addrs, lp_port = port, lp_instance = nm, lp_last_seen_ms = now\<rparr>"
proof -
  have "nodeid_from_str c (hex_encode c (nid n)) = Inr n"
    using nodeid_parse_display [OF assms(1,2)] by (simp add: nodeid_display_def)
  with assms(3) show ?thesis by (simp add: browse_event_def service_properties_def update_conv)
qed

text \<open>What a started responder announces, a browser elsewhere resolves to its node id and port.\<close>

lemma started_service_resolves:
  assumes "hex_laws c" "wf_nodeid n" "n \<noteq> own" "mdns_start c ml n port = Some m"
  shows "map_of (browse_event c own now (ServiceResolved \<lparr>rv_txt = si_properties (md_service m), rv_addresses = addrs,
       rv_port = si_port (md_service m), rv_fullname = nm\<rparr>) peers) n
      = Some \<lparr>lp_nodeid = n, lp_addresses = addrs, lp_port = port, lp_instance = nm, lp_last_seen_ms = now\<rparr>"
proof -
  have "md_service m = service_info c n port" using assms(4) by (auto simp: mdns_start_def Let_def split: if_splits)
  then show ?thesis using announced_service_resolves [OF assms(1-3)] by (simp add: service_info_def)
qed

section \<open>Properties\<close>

text \<open>
  Discovery.  Whatever the network announces, the map of local peers never holds this install and
  holds each other one once, under its own id; an install that announces itself is found under its
  node id; and a pause of thirty seconds between events ends the loop, after which no announcement is
  seen any more.
\<close>

lemma browse_finds_peers:
  assumes "hex_laws c" and "wf_nodeid n" and "n \<noteq> own"
  shows "lan_ok own (snd (browse_loop c own evs []))
    \<and> map_of (snd (browse_loop c own [Some (now, ServiceResolved \<lparr>rv_txt = service_properties c n, rv_addresses = addrs,
         rv_port = port, rv_fullname = nm\<rparr>)] (snd (browse_loop c own evs [])))) n
        = Some \<lparr>lp_nodeid = n, lp_addresses = addrs, lp_port = port, lp_instance = nm, lp_last_seen_ms = now\<rparr>
    \<and> browse_loop c own (evs @ None # later) [] = (False, snd (browse_loop c own evs []))"
proof -
  have "lan_ok own []" by (simp add: lan_ok_def)
  moreover have "browse_loop c own (evs @ None # later) peers = (False, snd (browse_loop c own evs peers))" for peers
    by (induction c own evs peers rule: browse_loop.induct) auto
  ultimately show ?thesis using announced_service_resolves [OF assms] browse_loop_ok by simp
qed

end
