(* ===== verification/Wt_Install.thy ===== *)
theory Wt_Install
  imports Wt_Workspace Wt_Mdns
begin

text \<open>
  What an install keeps on disk besides its database: the identity key of
  \<^verbatim>\<open>src/crates/wt-core/src/identity.rs\<close> and the pid file by which
  \<^verbatim>\<open>src/crates/wt-daemon/src/state.rs\<close> keeps a second daemon from starting, up to the whole
  of \<open>DaemonState::start\<close> and \<open>shutdown\<close>.  The libraries the start calls are fields of the record \<open>host\<close>: whether
  the database file opens, the sockets an endpoint gets for a secret key and its protocols, the milliseconds
  until a relay answers, and the mDNS library.
\<close>

section \<open>Files\<close>

record host = os +
  os_can_read :: "path_key \<Rightarrow> bool"
  os_pid_alive :: "int \<Rightarrow> bool"
  os_db_ok :: bool
  os_endpoint :: "bytes \<Rightarrow> bytes list \<Rightarrow> SocketAddr list option"
  os_online :: "nat option"
  os_mdns :: mdns_lib

definition read_file :: "'o host_scheme \<Rightarrow> string \<Rightarrow> fsys \<Rightarrow> bytes option" where
  "read_file os p f = (if os_can_read os (path_key p) then fs_files f (path_key p) else None)"

text \<open>\<open>std::fs::write\<close>: create or truncate.\<close>

definition write_file :: "'o host_scheme \<Rightarrow> string \<Rightarrow> bytes \<Rightarrow> fsys \<Rightarrow> bool \<times> fsys" where
  "write_file os p bs f =
     (if os_can_create os (path_key p) \<and> path_key p \<notin> fs_paths f
      then (True, f\<lparr>fs_files := (fs_files f)(path_key p \<mapsto> bs)\<rparr>) else (False, f))"

section \<open>Identity\<close>

datatype id_error = IdReadKey string | IdDirs | IdWriteKey string | IdWritePub string

text \<open>\<open>read_exact\<close> into a buffer of 32 bytes.\<close>

definition read_seed :: "'o host_scheme \<Rightarrow> string \<Rightarrow> fsys \<Rightarrow> bytes option" where
  "read_seed os p f =
     (case read_file os p f of None \<Rightarrow> None | Some bs \<Rightarrow> if length bs < 32 then None else Some (take 32 bs))"

text \<open>\<open>create_new\<close> with mode \<open>0600\<close>: an existing path is an error.\<close>

definition create_private :: "'o host_scheme \<Rightarrow> string \<Rightarrow> bytes \<Rightarrow> fsys \<Rightarrow> bool \<times> fsys" where
  "create_private os p bs f =
     (if fs_exists p f \<or> \<not> os_can_create os (path_key p) then (False, f)
      else (True, f\<lparr>fs_files := (fs_files f)(path_key p \<mapsto> bs), fs_private := insert (path_key p) (fs_private f)\<rparr>))"

definition write_seed :: "'o host_scheme \<Rightarrow> string \<Rightarrow> bytes \<Rightarrow> fsys \<Rightarrow> bool \<times> fsys" where
  "write_seed os p seed f =
     (case parent_key (path_key p) of
        None \<Rightarrow> create_private os p seed f
      | Some parent \<Rightarrow>
          (case create_dir_all os parent f of
             (False, f') \<Rightarrow> (False, f')
           | (True, f') \<Rightarrow> create_private os p seed f'))"

definition identity_load :: "'o host_scheme \<Rightarrow> fsys \<Rightarrow> id_error + bytes" where
  "identity_load os f =
     (case read_seed os (secret_key_path os) f of
        None \<Rightarrow> Inl (IdReadKey (secret_key_path os))
      | Some seed \<Rightarrow> Inr seed)"

text \<open>\<open>rnd\<close> is the key \<open>SecretKey::generate\<close> makes.\<close>

definition load_or_create :: "crates \<Rightarrow> 'o host_scheme \<Rightarrow> bytes \<Rightarrow> fsys \<Rightarrow> (id_error + bytes) \<times> fsys" where
  "load_or_create c os rnd f =
     (if fs_exists (secret_key_path os) f then (identity_load os f, f)
      else (case ensure_dirs os f of
              (False, f1) \<Rightarrow> (Inl IdDirs, f1)
            | (True, f1) \<Rightarrow>
                (case write_seed os (secret_key_path os) rnd f1 of
                   (False, f2) \<Rightarrow> (Inl (IdWriteKey (secret_key_path os)), f2)
                 | (True, f2) \<Rightarrow>
                     (case write_file os (public_key_path os) (bytes_of (hex_encode c (ed_public c rnd) @ [CHR 0x0A])) f2 of
                        (False, f3) \<Rightarrow> (Inl (IdWritePub (public_key_path os)), f3)
                      | (True, f3) \<Rightarrow> (Inr rnd, f3)))))"

section \<open>One daemon per install\<close>

definition parse_i32 :: "string \<Rightarrow> int option" where
  "parse_i32 s = (case parse_i64 s of None \<Rightarrow> None | Some n \<Rightarrow> if - 2147483648 \<le> n \<and> n \<le> 2147483647 then Some n else None)"

text \<open>The pid a readable pid file holds.\<close>

definition recorded_pid :: "'o host_scheme \<Rightarrow> fsys \<Rightarrow> int option" where
  "recorded_pid os f =
     (case read_file os (daemon_pid_path os) f of
        None \<Rightarrow> None
      | Some bs \<Rightarrow> if valid_utf8 bs then parse_i32 (trim (string_of bs)) else None)"

datatype boot_error = BootDirs | BootRunning int | BootIdentity id_error | BootStore | BootBind | BootPidfile

definition ensure_no_other_daemon :: "'o host_scheme \<Rightarrow> fsys \<Rightarrow> (boot_error + unit) \<times> fsys" where
  "ensure_no_other_daemon os f =
     (case recorded_pid os f of
        Some pid \<Rightarrow>
          if os_pid_alive os pid then (Inl (BootRunning pid), f)
          else (Inr (), snd (unlink_if_exists os (daemon_sock_path os) (snd (unlink_if_exists os (daemon_pid_path os) f))))
      | None \<Rightarrow> (Inr (), snd (unlink_if_exists os (daemon_sock_path os) (snd (unlink_if_exists os (daemon_pid_path os) f)))))"

definition write_pidfile :: "'o host_scheme \<Rightarrow> u32 \<Rightarrow> fsys \<Rightarrow> bool \<times> fsys" where
  "write_pidfile os pid = write_file os (daemon_pid_path os) (bytes_of (show_nat (unat pid) @ [CHR 0x0A]))"

text \<open>The endpoint: bound with the install's key, for one protocol.  Waiting for a relay is best effort and
  takes no longer than the time given.\<close>

definition ALPN :: bytes where
  "ALPN = bytes_of ''wt/1''"

definition transport_bind :: "'o host_scheme \<Rightarrow> bytes \<Rightarrow> SocketAddr list option" where
  "transport_bind os secret = os_endpoint os secret [ALPN]"

definition wait_online :: "nat \<Rightarrow> nat option \<Rightarrow> (boot_error + unit) \<times> nat" where
  "wait_online timeout online =
     (case online of
        Some t \<Rightarrow> if t \<le> timeout then (Inr (), t) else (Inr (), timeout)
      | None \<Rightarrow> (Inr (), timeout))"

fun socket_port :: "SocketAddr \<Rightarrow> 16 word" where
  "socket_port (V4 ip port) = port"
| "socket_port (V6 ip port) = port"

text \<open>Discovery needs the port of the first socket; it is left out when there is none or the library fails.\<close>

definition start_mdns :: "crates \<Rightarrow> mdns_lib \<Rightarrow> NodeId \<Rightarrow> SocketAddr list \<Rightarrow> Mdns option" where
  "start_mdns c ml nodeid sockets =
     (let mdns_port = (case sockets of [] \<Rightarrow> 0 | sa # _ \<Rightarrow> socket_port sa)
      in if mdns_port = 0 then None else mdns_start c ml nodeid mdns_port)"

text \<open>\<open>DaemonState::start\<close>; \<open>dbfile\<close> is what the database file holds.  Besides the state it leaves an open
  endpoint, the responder for discovery, and the time it waited for a relay.\<close>

record 's Started =
  sd_state :: 's
  sd_sockets :: "SocketAddr list"
  sd_open :: bool
  sd_mdns :: "Mdns option"
  sd_waited :: nat

definition daemon_boot ::
  "crates \<Rightarrow> 'o host_scheme \<Rightarrow> u32 \<Rightarrow> bytes \<Rightarrow> db \<Rightarrow> fsys \<Rightarrow> (boot_error + daemon Started) \<times> fsys" where
  "daemon_boot c os pid rnd dbfile f =
     (case ensure_dirs os f of
        (False, f1) \<Rightarrow> (Inl BootDirs, f1)
      | (True, f1) \<Rightarrow>
          (case ensure_no_other_daemon os f1 of
             (Inl e, f2) \<Rightarrow> (Inl e, f2)
           | (Inr _, f2) \<Rightarrow>
               (case load_or_create c os rnd f2 of
                  (Inl e, f3) \<Rightarrow> (Inl (BootIdentity e), f3)
                | (Inr sk, f3) \<Rightarrow>
                    if \<not> os_db_ok os then (Inl BootStore, f3)
                    else (case transport_bind os sk of
                            None \<Rightarrow> (Inl BootBind, f3)
                          | Some sockets \<Rightarrow>
                              (case write_pidfile os pid f3 of
                                 (False, f4) \<Rightarrow> (Inl BootPidfile, f4)
                               | (True, f4) \<Rightarrow>
                                   (Inr \<lparr>sd_state = daemon_start sk dbfile, sd_sockets = sockets, sd_open = True,
                                         sd_mdns = start_mdns c (os_mdns os) (identity_nodeid c sk) sockets,
                                         sd_waited = snd (wait_online 5000 (os_online os))\<rparr>, f4))))))"

text \<open>\<open>shutdown\<close>: the children are aborted, the responder stopped, the endpoint closed, and the pid file and
  the socket removed.\<close>

definition daemon_stop :: "'o host_scheme \<Rightarrow> 'z daemon_scheme Started \<Rightarrow> fsys \<Rightarrow> 'z daemon_scheme Started \<times> fsys" where
  "daemon_stop os st f =
     (st\<lparr>sd_state := daemon_shutdown (sd_state st), sd_mdns := map_option mdns_shutdown (sd_mdns st), sd_open := False\<rparr>,
      snd (unlink_if_exists os (daemon_sock_path os) (snd (unlink_if_exists os (daemon_pid_path os) f))))"

section \<open>Lemmas\<close>

text \<open>The files of an install are different files, and none is one of its directories.\<close>

lemma install_keys:
  "path_key (secret_key_path os) = (fst (path_key (home os)), snd (path_key (home os)) @ [''keys'', ''id_ed25519''])"
  "path_key (public_key_path os) = (fst (path_key (home os)), snd (path_key (home os)) @ [''keys'', ''id_ed25519.pub''])"
  "path_key (daemon_pid_path os) = (fst (path_key (home os)), snd (path_key (home os)) @ [''run'', ''daemon.pid''])"
  "path_key (daemon_sock_path os) = (fst (path_key (home os)), snd (path_key (home os)) @ [''run'', ''daemon.sock''])"
  by (simp_all add: secret_key_path_def public_key_path_def keys_dir_def daemon_pid_path_def daemon_sock_path_def run_dir_def
      path_key_join)

lemma ensure_each_effect:
  "ensure_each os ds f = (ok, f') \<Longrightarrow>
     fs_files f' = fs_files f \<and> fs_private f \<subseteq> fs_private f' \<and> fs_paths f \<subseteq> fs_paths f' \<and> (ok \<longleftrightarrow> list_all (\<lambda>d. os_can_create os (path_key d)) ds)"
proof (induction ds arbitrary: f)
  case (Cons d ds)
  show ?case
  proof (cases "os_can_create os (path_key d)")
    case True
    let ?g = "f\<lparr>fs_paths := fs_paths f \<union> ancestors (path_key d), fs_private := insert (path_key d) (fs_private f)\<rparr>"
    from True Cons.prems have "ensure_each os ds ?g = (ok, f')" by (simp add: create_dir_all_def)
    from Cons.IH [OF this] True show ?thesis by auto
  next
    case False
    with Cons.prems show ?thesis by (simp add: create_dir_all_def)
  qed
qed simp

lemma ensure_dirs_effect:
  assumes "ensure_dirs os f = (ok, f')"
  shows "fs_files f' = fs_files f" "\<exists>g'. ensure_dirs os g = (ok, g') \<and> fs_files g' = fs_files g"
proof -
  note e = ensure_each_effect [OF assms [unfolded ensure_dirs_def]]
  then show "fs_files f' = fs_files f" by simp
  obtain ok2 g' where g: "ensure_dirs os g = (ok2, g')" by fastforce
  with ensure_each_effect [OF g [unfolded ensure_dirs_def]] e show "\<exists>g'. ensure_dirs os g = (ok, g') \<and> fs_files g' = fs_files g"
    by auto
qed

lemma write_file_effect:
  assumes "write_file os p bs f = (True, f')"
  shows "fs_files f' = (fs_files f)(path_key p \<mapsto> bs)" "fs_private f' = fs_private f"
  using assms by (auto simp: write_file_def split: if_splits)

lemma write_seed_effect:
  assumes "write_seed os p bs f = (True, f')"
  shows "fs_files f' = (fs_files f)(path_key p \<mapsto> bs) \<and> path_key p \<in> fs_private f'"
  using assms
  by (auto simp: write_seed_def create_private_def create_dir_all_def split: option.splits if_splits prod.splits)

lemma unlink_effect:
  "fs_files (snd (unlink_if_exists os p f)) = fs_files f \<or> fs_files (snd (unlink_if_exists os p f)) = (fs_files f)(path_key p := None)"
  "os_can_remove os (path_key p) \<Longrightarrow> fs_files (snd (unlink_if_exists os p f)) = (fs_files f)(path_key p := None)"
  by (auto simp: unlink_if_exists_def fun_upd_idem)

text \<open>What \<open>load_or_create\<close> leaves when it creates the key.\<close>

lemma load_or_create_new:
  assumes "load_or_create c os rnd f = (Inr sk, f')" "\<not> fs_exists (secret_key_path os) f"
  shows "sk = rnd" "path_key (secret_key_path os) \<in> fs_private f'"
    "fs_files f' = (fs_files f)(path_key (secret_key_path os) \<mapsto> rnd,
       path_key (public_key_path os) \<mapsto> bytes_of (hex_encode c (ed_public c rnd) @ [CHR 0x0A]))"
proof -
  from assms obtain f1 f2 where f: "ensure_dirs os f = (True, f1)" "write_seed os (secret_key_path os) rnd f1 = (True, f2)"
    "write_file os (public_key_path os) (bytes_of (hex_encode c (ed_public c rnd) @ [CHR 0x0A])) f2 = (True, f')" and sk: "sk = rnd"
    by (auto simp: load_or_create_def split: if_splits prod.splits bool.splits)
  show "sk = rnd" by (rule sk)
  note e = ensure_dirs_effect(1) [OF f(1)] write_seed_effect [OF f(2)] write_file_effect [OF f(3)]
  show "path_key (secret_key_path os) \<in> fs_private f'" using e by simp
  show "fs_files f' = (fs_files f)(path_key (secret_key_path os) \<mapsto> rnd,
       path_key (public_key_path os) \<mapsto> bytes_of (hex_encode c (ed_public c rnd) @ [CHR 0x0A]))" using e by simp
qed

lemma load_or_create_files:
  assumes "load_or_create c os rnd f = (Inr sk, f')" "k \<noteq> path_key (secret_key_path os)" "k \<noteq> path_key (public_key_path os)"
  shows "fs_files f' k = fs_files f k"
proof (cases "fs_exists (secret_key_path os) f")
  case True
  with assms(1) show ?thesis by (simp add: load_or_create_def)
next
  case False
  with load_or_create_new(3) [OF assms(1) False] assms(2,3) show ?thesis by simp
qed

text \<open>A key that was returned is on disk, and a key on disk is returned.\<close>

lemma load_or_create_stored:
  assumes "load_or_create c os rnd f = (Inr sk, f')" "length rnd = 32"
  shows "\<exists>bs. fs_files f' (path_key (secret_key_path os)) = Some bs \<and> 32 \<le> length bs \<and> take 32 bs = sk"
proof (cases "fs_exists (secret_key_path os) f")
  case True
  with assms show ?thesis
    by (auto simp: load_or_create_def identity_load_def read_seed_def read_file_def split: option.splits if_splits)
next
  case False
  with load_or_create_new [OF assms(1) False] assms(2) show ?thesis by (auto simp: install_keys)
qed

lemma load_or_create_reads:
  assumes "fs_files f (path_key (secret_key_path os)) = Some bs" "32 \<le> length bs" "os_can_read os (path_key (secret_key_path os))"
  shows "load_or_create c os rnd f = (Inr (take 32 bs), f)"
  using assms by (simp add: load_or_create_def identity_load_def read_seed_def read_file_def fs_exists_def)

text \<open>A decimal number on a line of its own reads back.\<close>

lemma digit_char_graphic: "d < 10 \<Longrightarrow> graphic (digit_char d)"
proof -
  have "list_all (\<lambda>d. graphic (digit_char d)) [0..<10]" by code_simp
  then show "d < 10 \<Longrightarrow> ?thesis" by (simp add: list_all_iff)
qed

lemma show_nat_graphic: "list_all graphic (show_nat n)"
proof (induction n rule: show_nat.induct)
  case (1 n)
  then show ?case by (subst show_nat.simps) (auto simp: digit_char_graphic)
qed

lemma ascii_valid_utf8: "list_all (\<lambda>b. b < 0x80) bs \<Longrightarrow> valid_utf8 bs"
  by (induction bs) (simp_all add: utf8_step_def)

lemma graphic_ascii: "graphic ch \<Longrightarrow> (of_char ch :: u8) < 0x80"
  by (auto simp: graphic_def in_range8_def word_le_nat_alt word_less_nat_alt)

lemma pid_line:
  assumes "n < 2 ^ 31"
  shows "valid_utf8 (bytes_of (show_nat n @ [CHR 0x0A]))"
    "parse_i32 (trim (string_of (bytes_of (show_nat n @ [CHR 0x0A])))) = Some (int n)"
proof -
  show "valid_utf8 (bytes_of (show_nat n @ [CHR 0x0A]))"
    using show_nat_graphic [of n] by (intro ascii_valid_utf8) (auto simp: bytes_of_def list_all_iff graphic_ascii)
  have "list_all ascii_blank [CHR 0x0A]" by (simp add: ascii_blank_def ascii_ws_def)
  then have "trim (show_nat n @ [CHR 0x0A]) = show_nat n"
    using trim_pad [of "[]" "[CHR 0x0A]" "show_nat n"] show_nat_graphic by simp
  moreover have "parse_i32 (show_nat n) = Some (int n)"
    using assms parse_i64_show_nat [of n] by (simp add: parse_i32_def max_i64_def)
  ultimately show "parse_i32 (trim (string_of (bytes_of (show_nat n @ [CHR 0x0A])))) = Some (int n)"
    by (simp only: string_of_bytes_of)
qed

section \<open>Properties\<close>

text \<open>
  C33 The identity is made once and kept.  When \<open>load_or_create\<close> returns a key, the key is 32 bytes long
  and every later call on the disk it left returns that same key and changes nothing, whatever
  randomness it would have used; when it made the key, the key file is readable by its owner only and
  the public file holds the printed node id.  A key file of fewer than 32 bytes is refused, not
  replaced.
\<close>

theorem identity_stable:
  assumes "length rnd = 32" and "os_can_read os (path_key (secret_key_path os))"
  shows "(\<forall>sk f'. load_or_create c os rnd f = (Inr sk, f') \<longrightarrow>
       length sk = 32 \<and> load_or_create c os rnd' f' = (Inr sk, f')
       \<and> (\<not> fs_exists (secret_key_path os) f \<longrightarrow> sk = rnd \<and> path_key (secret_key_path os) \<in> fs_private f'
            \<and> fs_files f' (path_key (public_key_path os)) = Some (bytes_of (nodeid_display c (identity_nodeid c sk) @ [CHR 0x0A]))))
    \<and> (\<forall>bs. fs_files f (path_key (secret_key_path os)) = Some bs \<and> length bs < 32 \<longrightarrow>
         load_or_create c os rnd f = (Inl (IdReadKey (secret_key_path os)), f))"
proof -
  let ?k = "path_key (secret_key_path os)"
  have load: "load_or_create c os r g = ((if length bs < 32 then Inl (IdReadKey (secret_key_path os)) else Inr (take 32 bs)), g)"
    if "fs_files g ?k = Some bs" for r g bs
    using that assms(2) by (simp add: load_or_create_def identity_load_def read_seed_def read_file_def fs_exists_def)
  have "length sk = 32 \<and> load_or_create c os rnd' f' = (Inr sk, f')
       \<and> (\<not> fs_exists (secret_key_path os) f \<longrightarrow> sk = rnd \<and> ?k \<in> fs_private f'
            \<and> fs_files f' (path_key (public_key_path os)) = Some (bytes_of (nodeid_display c (identity_nodeid c sk) @ [CHR 0x0A])))"
    if ok: "load_or_create c os rnd f = (Inr sk, f')" for sk f'
  proof (cases "fs_exists (secret_key_path os) f")
    case True
    then have idl: "identity_load os f = Inr sk" and f': "f' = f" using ok by (auto simp: load_or_create_def)
    have "read_seed os (secret_key_path os) f = Some sk" using idl by (simp add: identity_load_def split: option.splits)
    then have "length sk = 32" by (auto simp: read_seed_def split: option.splits if_splits)
    moreover have "load_or_create c os rnd' f = (Inr sk, f)" using True idl by (simp add: load_or_create_def)
    ultimately show ?thesis using True f' by simp
  next
    case False
    note n = load_or_create_new [OF ok False]
    have "fs_files f' ?k = Some rnd" by (simp add: n(3) install_keys)
    from load [OF this] assms(1) n show ?thesis by (simp add: identity_nodeid_def nodeid_display_def)
  qed
  moreover have "load_or_create c os rnd f = (Inl (IdReadKey (secret_key_path os)), f)"
    if "fs_files f ?k = Some bs \<and> length bs < 32" for bs
    using load [of f bs rnd] that by simp
  ultimately show ?thesis by blast
qed

text \<open>
  C32 One daemon per install.  After a daemon has started, as long as its process lives, starting
  another one on the same disk is refused with that process's number and changes no file; once the
  daemon has shut down (its pid file being removable), the pid file no longer stops a start.
\<close>

theorem single_daemon:
  assumes "daemon_boot c os pid rnd d f = (Inr s, f')"
    and "os_can_read os (path_key (daemon_pid_path os))" and "os_can_remove os (path_key (daemon_pid_path os))"
    and "unat pid < 2 ^ 31" and "os_pid_alive os (int (unat pid))"
  shows "(\<exists>f''. daemon_boot c os pid' rnd' d' f' = (Inl (BootRunning (int (unat pid))), f'') \<and> fs_files f'' = fs_files f')
    \<and> recorded_pid os (snd (daemon_stop os s f')) = None"
proof -
  let ?k = "path_key (daemon_pid_path os)"
  from assms(1) obtain f1 f3 where e: "ensure_dirs os f = (True, f1)" and w: "write_pidfile os pid f3 = (True, f')"
    by (auto simp: daemon_boot_def split: prod.splits bool.splits sum.splits if_splits option.splits)
  have pidf: "fs_files f' ?k = Some (bytes_of (show_nat (unat pid) @ [CHR 0x0A]))"
    using write_file_effect(1) [OF w [unfolded write_pidfile_def]] by simp
  obtain g where g: "ensure_dirs os f' = (True, g)" "fs_files g = fs_files f'" using ensure_dirs_effect(2) [OF e, of f'] by blast
  have "recorded_pid os g = Some (int (unat pid))"
    using pidf g(2) assms(2) pid_line [OF assms(4)] by (simp add: recorded_pid_def read_file_def)
  with g(1) assms(5) have "daemon_boot c os pid' rnd' d' f' = (Inl (BootRunning (int (unat pid))), g)"
    by (simp add: daemon_boot_def ensure_no_other_daemon_def)
  moreover have "fs_files (snd (daemon_stop os s f')) ?k = None"
  proof -
    let ?h = "snd (unlink_if_exists os (daemon_pid_path os) f')"
    have "fs_files ?h ?k = None" using unlink_effect(2) [OF assms(3)] by simp
    with unlink_effect(1) [of os "daemon_sock_path os" ?h] show ?thesis by (auto simp: daemon_stop_def)
  qed
  ultimately show ?thesis using g(2) by (auto simp: recorded_pid_def read_file_def)
qed

definition sample_host :: host where
  "sample_host = os.extend sample_os \<lparr>os_can_read = (\<lambda>k. True), os_pid_alive = (\<lambda>n. n = 41), os_db_ok = True,
     os_endpoint = (\<lambda>k alpns. Some [V4 [0, 0, 0, 0] 4242]), os_online = None,
     os_mdns = \<lparr>ml_daemon = True, ml_info = (\<lambda>i. True), ml_register = (\<lambda>i. True), ml_browse = (\<lambda>t. True)\<rparr>\<rparr>"

lemma sample_host_simps [simp]:
  "os_can_read sample_host k" "os_pid_alive sample_host n \<longleftrightarrow> n = 41" "os_db_ok sample_host"
  "os_endpoint sample_host k' alpns = Some [V4 [0, 0, 0, 0] 4242]" "os_online sample_host = None" "os_can_create sample_host k"
  "os_can_remove sample_host k" "os_env_home sample_host = Some ''/h''"
  by (simp_all add: sample_host_def sample_os_def os.defs)

lemma sample_home [simp]: "path_key (home sample_host) = (True, [''h''])"
  by (simp add: home_def path_key_def is_absolute_def starts_with_def)

definition sample_disk :: fsys where
  "sample_disk = \<lparr>fs_paths = {}, fs_files = Map.empty, fs_private = {}, fs_branches = {}\<rparr>"

text \<open>On a disk with no files and no path of an install, everything can be created.\<close>

lemma identity_stable_witness:
  "fst (load_or_create sample_crates sample_host (replicate 32 7)
     (sample_disk\<lparr>fs_files := [path_key (secret_key_path sample_host) \<mapsto> replicate 32 1]\<rparr>)) = Inr (replicate 32 1)
   \<and> fst (load_or_create sample_crates sample_host (replicate 32 7)
     (sample_disk\<lparr>fs_files := [path_key (secret_key_path sample_host) \<mapsto> replicate 31 1]\<rparr>)) = Inl (IdReadKey (secret_key_path sample_host))"
proof -
  let ?k = "path_key (secret_key_path sample_host)"
  let ?f = "sample_disk\<lparr>fs_files := [?k \<mapsto> replicate 32 1]\<rparr>" and ?g = "sample_disk\<lparr>fs_files := [?k \<mapsto> replicate 31 1]\<rparr>"
  have "load_or_create sample_crates sample_host (replicate 32 8) ?f = (Inr (replicate 32 1), ?f)"
    by (simp add: load_or_create_def identity_load_def read_seed_def read_file_def fs_exists_def)
  then have "load_or_create sample_crates sample_host (replicate 32 7) ?f = (Inr (replicate 32 1), ?f)"
    using identity_stable [where rnd = "replicate 32 8" and rnd' = "replicate 32 7" and os = sample_host and c = sample_crates and f = ?f]
    by simp
  moreover have "load_or_create sample_crates sample_host (replicate 32 7) ?g = (Inl (IdReadKey (secret_key_path sample_host)), ?g)"
    using identity_stable [where rnd = "replicate 32 7" and os = sample_host and c = sample_crates and f = ?g] by simp
  ultimately show ?thesis by simp
qed

lemma sample_dirs:
  "ensure_dirs sample_host f = (True, f') \<Longrightarrow> fs_files f' = fs_files f \<and> (\<forall>k\<in>fs_paths f'. k \<in> fs_paths f \<or> length (snd k) \<le> 2)"
  by (auto simp: ensure_dirs_def create_dir_all_def keys_dir_def data_dir_def run_dir_def logs_dir_def sessions_dir_def
      path_key_join dest!: ancestors_length)

lemma single_daemon_witness:
  "\<exists>s f'. daemon_boot sample_crates sample_host 41 (replicate 32 7) empty_file
       (sample_disk\<lparr>fs_files := [path_key (secret_key_path sample_host) \<mapsto> replicate 32 1]\<rparr>) = (Inr s, f')
     \<and> fst (daemon_boot sample_crates sample_host 42 (replicate 32 8) empty_file f') = Inl (BootRunning 41)"
proof -
  let ?f = "sample_disk\<lparr>fs_files := [path_key (secret_key_path sample_host) \<mapsto> replicate 32 1]\<rparr>"
  let ?b = "daemon_boot sample_crates sample_host 41 (replicate 32 7) empty_file ?f"
  have e: "ensure_dirs sample_host ?f = (True, snd (ensure_dirs sample_host ?f))"
    by (simp add: ensure_dirs_def create_dir_all_def)
  define g where "g = snd (ensure_dirs sample_host ?f)"
  have g: "fs_files g = [path_key (secret_key_path sample_host) \<mapsto> replicate 32 1]" "\<forall>k\<in>fs_paths g. length (snd k) \<le> 2"
    using sample_dirs [OF e] by (auto simp: g_def sample_disk_def)
  have np: "path_key (daemon_pid_path sample_host) \<notin> fs_paths g" "path_key (daemon_sock_path sample_host) \<notin> fs_paths g"
    using g(2) by (auto simp: install_keys)
  have n: "ensure_no_other_daemon sample_host g = (Inr (), g)"
    using g(1) by (simp add: ensure_no_other_daemon_def recorded_pid_def read_file_def unlink_if_exists_def install_keys)
  have l: "load_or_create sample_crates sample_host (replicate 32 7) g = (Inr (replicate 32 1), g)"
    using g(1) by (simp add: load_or_create_def identity_load_def read_seed_def read_file_def fs_exists_def)
  have "is_ok (fst ?b)"
    using e [folded g_def] n l np by (simp add: daemon_boot_def write_pidfile_def write_file_def transport_bind_def)
  then obtain s where b: "?b = (Inr s, snd ?b)" by (cases "fst ?b") (auto simp: prod_eq_iff)
  have "\<exists>f''. daemon_boot sample_crates sample_host 42 (replicate 32 8) empty_file (snd ?b) = (Inl (BootRunning 41), f'')"
    using single_daemon [OF b, where pid' = 42 and rnd' = "replicate 32 8" and d' = empty_file] by auto
  with b show ?thesis by (intro exI [where x = s] exI [where x = "snd ?b"]) auto
qed

end
