(* ===== verification/Wt_Ipc.thy ===== *)
theory Wt_Ipc
  imports Wt_Delivery Wt_Supervisor Wt_Install Wt_Mdns
begin

text \<open>
  \<^verbatim>\<open>src/crates/wt-daemon/src/ipc.rs\<close>: the requests the command line sends over the local socket,
  one definition per request, the launch of a session and the loop of one connection.  The state of a
  connection is the daemon's state extended with what this connection's socket has been sent, how many
  more events it takes, the file system, the peers mDNS has found and the supervisor tasks launched.
  A live tail is given the events it receives until its channel closes.
\<close>

section \<open>The state of a connection\<close>

record ipc_state = daemon +
  cx_out :: "IpcEvent list"
  cx_room :: "nat option"
  cx_fs :: fsys
  cx_lan :: "LanPeer list option"
  cx_tasks :: "(Supervised \<times> Harness) list"

text \<open>What surrounds the daemon: other crates, the host, the texts errors of other crates print.\<close>

record env =
  en_crates :: crates
  en_json :: json_crate
  en_world :: world
  en_host :: host
  en_proc :: "HarnessSpec \<Rightarrow> (int option \<times> SendStream) option"
  en_harness_cmd :: "string option"
  en_ticket :: AddrTicket
  en_show :: "dm_error \<Rightarrow> string"
  en_show_chain :: "dm_error \<Rightarrow> string"
  en_show_cbor :: "bytes \<Rightarrow> string"
  en_req_dec :: "bytes \<Rightarrow> IpcRequest option"

type_synonym ipc_op = "ipc_state \<Rightarrow> (dm_error + unit) \<times> ipc_state"

datatype 'a rx = RxItem 'a | RxLagged

section \<open>Helpers\<close>

definition ipc_err :: "IpcErrorCode \<Rightarrow> string \<Rightarrow> IpcEvent" where
  "ipc_err cd msg = EvErr \<lparr>code = cd, message = msg\<rparr>"

definition write_event :: "IpcEvent \<Rightarrow> ipc_op" where
  "write_event ev s =
     (if cx_room s = Some 0 then (Inl DWriteEvent, s)
      else (Inr (), s\<lparr>cx_out := cx_out s @ [ev], cx_room := map_option (\<lambda>n. n - 1) (cx_room s)\<rparr>))"

fun write_events :: "IpcEvent list \<Rightarrow> ipc_op" where
  "write_events [] s = (Inr (), s)"
| "write_events (ev # evs) s = and_then (write_event ev) (\<lambda>_. write_events evs) s"

definition sel_to_bytes :: "PeerSelector \<Rightarrow> PeerSelectorBytes" where
  "sel_to_bytes s = (case s of SelName n \<Rightarrow> PsName n | SelNodeId n \<Rightarrow> PsNodeId n)"

definition filter_match :: "PeerFilter \<Rightarrow> PeerInfo \<Rightarrow> bool" where
  "filter_match f p =
     (case f of
        FilterAll \<Rightarrow> True
      | FilterRemote \<Rightarrow> pi_source p = Manual
      | FilterLocal \<Rightarrow> pi_source p = Mdns
      | FilterConnected \<Rightarrow> (case pi_state p of Connected _ \<Rightarrow> True | _ \<Rightarrow> False))"

definition fs_mode_of :: "string \<Rightarrow> FsMode" where
  "fs_mode_of s = (if s = ''worktree'' then Worktree else New)"

definition fs_mode_str :: "FsMode \<Rightarrow> string" where
  "fs_mode_str mode = (case mode of Worktree \<Rightarrow> ''worktree'' | New \<Rightarrow> ''new'')"

definition session_info :: "SessionRow \<Rightarrow> string option \<Rightarrow> SessionInfo" where
  "session_info s child_status =
     \<lparr>si_group = se_group s, si_name = se_name s, si_child_agent = se_child_agent s,
      si_fs_mode = fs_mode_of (se_fs_mode s), si_workspace_path = se_workspace_path s,
      si_branch = se_branch s, si_status = se_status s, si_child_status = child_status\<rparr>"

definition agent_info :: "AgentRow \<Rightarrow> AgentInfo" where
  "agent_info a = \<lparr>ai_group = ag_group a, ai_name = ag_name a, ai_role = ag_role a, ai_status = ag_status a,
     ai_dir = ag_dir a, ai_pid = ag_pid a\<rparr>"

definition token_info :: "TokenRow \<Rightarrow> TokenInfo" where
  "token_info r = \<lparr>ti_id = tr_id r, ti_iss = tr_iss r, ti_sub = tr_sub r, ti_exp = tr_exp r, ti_caps = tr_caps r,
     ti_revoked = tr_revoked r\<rparr>"

definition claims_info :: "CapabilityToken \<Rightarrow> TokenInfo" where
  "claims_info cl = \<lparr>ti_id = tid cl, ti_iss = iss cl, ti_sub = sub cl, ti_exp = exp cl, ti_caps = caps cl, ti_revoked = False\<rparr>"

definition resolve_agent :: "env \<Rightarrow> string \<Rightarrow> ipc_state \<Rightarrow> (dm_error + AgentRow option) \<times> ipc_state" where
  "resolve_agent e token = on_db (agent_by_token (agent_token_hash (en_crates e) token))"

text \<open>The opening of every handler that takes a bearer token.\<close>

definition with_agent :: "env \<Rightarrow> string \<Rightarrow> (AgentRow \<Rightarrow> ipc_op) \<Rightarrow> ipc_op" where
  "with_agent e token body =
     and_then (resolve_agent e token) (\<lambda>me.
       case me of
         None \<Rightarrow> write_event (ipc_err Unauthorized ''unknown or invalid wt token'')
       | Some a \<Rightarrow> body a)"

text \<open>A random value of the given length.\<close>

definition draw :: "env \<Rightarrow> nat \<Rightarrow> ipc_state \<Rightarrow> (dm_error + bytes) \<times> ipc_state" where
  "draw e n s = (Inr (take n (w_rand (en_world e) (dm_rands s))), s\<lparr>dm_rands := Suc (dm_rands s)\<rparr>)"

text \<open>A reading of the clock in milliseconds, and in seconds.\<close>

definition unix_ms :: "env \<Rightarrow> ipc_state \<Rightarrow> (dm_error + u64) \<times> ipc_state" where
  "unix_ms e s = (Inr (w_ms (en_world e) (dm_tick s)), s\<lparr>dm_tick := Suc (dm_tick s)\<rparr>)"

definition unix_secs :: "env \<Rightarrow> ipc_state \<Rightarrow> (dm_error + u64) \<times> ipc_state" where
  "unix_secs e s = (Inr (w_secs (en_world e) (dm_tick s)), s\<lparr>dm_tick := Suc (dm_tick s)\<rparr>)"

definition fail_with :: "dm_error \<Rightarrow> ipc_state \<Rightarrow> (dm_error + 'a) \<times> ipc_state" where
  "fail_with e s = (Inl e, s)"

section \<open>Identity, peers and connections\<close>

definition ipc_status :: "env \<Rightarrow> ipc_op" where
  "ipc_status e s = write_event (EvStatusInfo (local_nodeid (en_crates e) s) ''0.5.0'' True) s"

definition ipc_nodeid :: "env \<Rightarrow> ipc_op" where
  "ipc_nodeid e s = write_event (EvNodeIdValue (local_nodeid (en_crates e) s)) s"

definition ipc_ticket :: "env \<Rightarrow> ipc_op" where
  "ipc_ticket e =
     (case ticket_encode (en_crates e) (en_ticket e) of
        Inl err \<Rightarrow> fail_with (DTicket err)
      | Inr str \<Rightarrow> write_event (EvTicketValue str))"

definition ipc_peer_add :: "env \<Rightarrow> NodeId \<Rightarrow> string \<Rightarrow> bytes option \<Rightarrow> ipc_op" where
  "ipc_peer_add e nodeid name addr_blob =
     and_then (on_db_at (en_world e) (\<lambda>now. peer_add now nodeid name addr_blob)) (\<lambda>_. write_event EvOk)"

definition ipc_peer_rm :: "PeerSelector \<Rightarrow> ipc_op" where
  "ipc_peer_rm selector =
     and_then (on_db (peer_remove (sel_to_bytes selector))) (\<lambda>n.
       if n = 0 then write_event (ipc_err NotFound ''no such peer'') else write_event EvOk)"

definition peer_info :: "ConnInfo list \<Rightarrow> PeerRow \<Rightarrow> PeerInfo" where
  "peer_info conns p =
     \<lparr>pi_nodeid = pr_nodeid p, pi_name = pr_name p, pi_source = Manual,
      pi_state = (case find (\<lambda>c. ci_nodeid c = pr_nodeid p) conns of
                    Some c \<Rightarrow> Connected (of_nat (length (ci_streams c)))
                  | None \<Rightarrow> if pr_last_seen_ms p \<noteq> None then Idle else Offline),
      pi_last_seen_ms = pr_last_seen_ms p\<rparr>"

definition lan_info :: "LanPeer \<Rightarrow> PeerInfo" where
  "lan_info lp =
     \<lparr>pi_nodeid = lp_nodeid lp, pi_name = lp_instance lp, pi_source = Mdns, pi_state = Idle,
      pi_last_seen_ms = Some (lp_last_seen_ms lp)\<rparr>"

definition ipc_peer_list :: "PeerFilter \<Rightarrow> ipc_op" where
  "ipc_peer_list f =
     and_then (on_db peer_list) (\<lambda>peers s.
       let infos = filter (filter_match f) (map (peer_info (list_conns s)) peers);
           lan = (if f = FilterAll \<or> f = FilterLocal
                  then (case cx_lan s of
                          Some lps \<Rightarrow> map lan_info (filter (\<lambda>lp. lp_nodeid lp \<notin> set (map pi_nodeid infos)) lps)
                        | None \<Rightarrow> [])
                  else [])
       in and_then (write_events (map EvPeerListItem infos)) (\<lambda>_.
            and_then (write_events (map EvPeerListItem lan)) (\<lambda>_. write_event EvPeerListEnd)) s)"

definition ipc_conn_list :: ipc_op where
  "ipc_conn_list s =
     and_then (write_events (map EvConnListItem (list_conns s))) (\<lambda>_. write_event EvConnListEnd) s"

definition ipc_conn_close :: ipc_op where
  "ipc_conn_close = write_event (ipc_err Unimplemented ''conn close not implemented yet'')"

section \<open>Tokens\<close>

definition ipc_token_grant :: "env \<Rightarrow> PeerSelector \<Rightarrow> Cap list \<Rightarrow> u64 option \<Rightarrow> ipc_op" where
  "ipc_token_grant e peer cs ttl_secs =
     (let c = en_crates e in
      and_then (on_db (peer_get (sel_to_bytes peer))) (\<lambda>row.
        case row of
          None \<Rightarrow> write_event (ipc_err NotFound ''peer not found'')
        | Some p \<Rightarrow>
            and_then (unix_secs e) (\<lambda>now.
            and_then (draw e 16) (\<lambda>rnd s.
              (case sign_token c now rnd (dm_secret s) (pr_nodeid p) cs ttl_secs of
                 Inl err \<Rightarrow> fail_with (DSign err)
               | Inr (cl, stok) \<Rightarrow>
                   (case token_row c cl stok of
                      Inl err \<Rightarrow> fail_with (DSign err)
                    | Inr trow \<Rightarrow>
                        and_then (on_db (token_insert c trow)) (\<lambda>_.
                          case signed_enc c stok of
                            None \<Rightarrow> fail_with (DSign EncodeSigned)
                          | Some raw \<Rightarrow> write_event (EvTokenIssued raw (claims_info cl))))) s))))"

definition ipc_token_import :: "env \<Rightarrow> bytes \<Rightarrow> ipc_op" where
  "ipc_token_import e raw =
     (let c = en_crates e in
      case signed_dec c raw of
        None \<Rightarrow> write_event (ipc_err BadRequest (''decode signed token: '' @ en_show_cbor e raw))
      | Some stok \<Rightarrow>
          (case verify_signed_claims c stok of
             Inl err \<Rightarrow> write_event (ipc_err Unauthorized (''verify token signature: '' @ auth_error_display c err))
           | Inr cl \<Rightarrow> (\<lambda>s.
               if sub cl \<noteq> local_nodeid c s
               then write_event (ipc_err BadRequest ''token subject is not this install'') s
               else and_then (on_db (peer_get (PsNodeId (iss cl)))) (\<lambda>row.
                      case row of
                        None \<Rightarrow> write_event (ipc_err BadRequest ''token issuer is not a known peer'')
                      | Some _ \<Rightarrow>
                          (case token_row c cl stok of
                             Inl err \<Rightarrow> fail_with (DSign err)
                           | Inr trow \<Rightarrow>
                               and_then (on_db (token_insert c trow)) (\<lambda>_.
                                 write_events [EvTokenListItem (claims_info cl), EvOk]))) s)))"

definition ipc_token_list :: "env \<Rightarrow> ipc_op" where
  "ipc_token_list e =
     and_then (on_db (token_list (en_crates e) (w_token_plan (en_world e)))) (\<lambda>rows.
       and_then (write_events (map (\<lambda>r. EvTokenListItem (token_info r)) rows)) (\<lambda>_. write_event EvTokenListEnd))"

definition ipc_token_revoke :: "TokenId \<Rightarrow> ipc_op" where
  "ipc_token_revoke ident =
     and_then (on_db (token_revoke ident)) (\<lambda>n.
       if n = 0 then write_event (ipc_err NotFound ''no such token'') else write_event EvOk)"

section \<open>Messages between peers\<close>

definition ipc_send :: "env \<Rightarrow> PeerSelector \<Rightarrow> string \<Rightarrow> bytes \<Rightarrow> ipc_op" where
  "ipc_send e peer channel payload =
     (let c = en_crates e in
      and_then (on_db (peer_get (sel_to_bytes peer))) (\<lambda>row.
        case row of
          None \<Rightarrow> write_event (ipc_err NotFound ''peer not found'')
        | Some p \<Rightarrow> (\<lambda>s.
            and_then (on_db_at (en_world e) (\<lambda>now. outbox_enqueue c now (local_nodeid c s) (pr_nodeid p) channel payload))
              (\<lambda>_ s'. write_event EvOk (notify_peer (pr_nodeid p) s')) s)))"

definition recv_want :: "PeerSelector option \<Rightarrow> ipc_state \<Rightarrow> NodeId option" where
  "recv_want peer s =
     (case peer of
        Some (SelNodeId n) \<Rightarrow> Some n
      | Some (SelName n) \<Rightarrow>
          (case fst (peer_get (PsName n) (dm_db s)) of Inr (Some r) \<Rightarrow> Some (pr_nodeid r) | _ \<Rightarrow> None)
      | None \<Rightarrow> None)"

definition recv_backlog_event :: "MessageRow \<Rightarrow> ipc_state \<Rightarrow> IpcEvent" where
  "recv_backlog_event row s =
     EvRecvMsg (mr_sender row)
       (case fst (peer_get (PsNodeId (mr_sender row)) (dm_db s)) of Inr (Some p) \<Rightarrow> Some (pr_name p) | _ \<Rightarrow> None)
       (mr_channel row) (mr_payload row) (mr_enqueued_at_ms row)"

definition recv_pass :: "NodeId option \<Rightarrow> string option \<Rightarrow> IpcEvent \<Rightarrow> bool" where
  "recv_pass want_peer want_chan ev =
     (case ev of
        EvRecvMsg from _ channel _ _ \<Rightarrow> null_or_eq want_peer from \<and> null_or_eq want_chan channel
      | _ \<Rightarrow> False)"

fun recv_tail :: "NodeId option \<Rightarrow> string option \<Rightarrow> IpcEvent rx list \<Rightarrow> ipc_op" where
  "recv_tail wp wc [] s = (Inr (), s)"
| "recv_tail wp wc (RxLagged # evs) s = recv_tail wp wc evs s"
| "recv_tail wp wc (RxItem ev # evs) s =
     (if recv_pass wp wc ev then and_then (write_event ev) (\<lambda>_. recv_tail wp wc evs) s else recv_tail wp wc evs s)"

definition ipc_recv_subscribe ::
  "env \<Rightarrow> IpcEvent rx list \<Rightarrow> PeerSelector option \<Rightarrow> string option \<Rightarrow> u64 option \<Rightarrow> bool \<Rightarrow> ipc_op" where
  "ipc_recv_subscribe e live peer channel since_ms follow s =
     (let want_peer = recv_want peer s in
      and_then (on_db (inbox_backlog (w_msg_plan (en_world e)) want_peer channel since_ms 10000)) (\<lambda>rows s1.
        and_then (write_events (map (\<lambda>row. recv_backlog_event row s1) rows)) (\<lambda>_.
          and_then (write_event EvRecvBacklogEnd) (\<lambda>_.
            if \<not> follow then (\<lambda>s2. (Inr (), s2)) else recv_tail want_peer channel live)) s1) s)"

section \<open>Groups, sessions and agents\<close>

definition prime_row :: "crates \<Rightarrow> string \<Rightarrow> string \<Rightarrow> u64 \<Rightarrow> AgentRow" where
  "prime_row c name token now =
     \<lparr>ag_group = name, ag_name = ''prime'', ag_token_hash = agent_token_hash c token, ag_role = ''prime'', ag_dir = None,
      ag_pid = None, ag_status = ''idle'', ag_created_at_ms = now, ag_last_seen_ms = None\<rparr>"

definition ipc_group_new :: "env \<Rightarrow> string \<Rightarrow> ipc_op" where
  "ipc_group_new e name =
     and_then (on_db_at (en_world e) (\<lambda>now. group_create now name)) (\<lambda>fresh.
       if \<not> fresh then write_event (ipc_err BadRequest (''group '' @ [CHR 0x27] @ name @ [CHR 0x27] @ '' already exists''))
       else and_then (draw e 32) (\<lambda>rnd.
            let token = new_agent_token (en_crates e) rnd in
            and_then (unix_ms e) (\<lambda>now.
            and_then (on_db (agent_register (prime_row (en_crates e) name token now))) (\<lambda>_.
              write_event (EvGroupCreated name token)))))"

fun group_items :: "GroupRow list \<Rightarrow> ipc_op" where
  "group_items [] s = (Inr (), s)"
| "group_items (g # gs) s =
     and_then (on_db (session_list (gr_name g))) (\<lambda>ss.
       and_then (write_event (EvGroupListItem \<lparr>gi_name = gr_name g, gi_created_at_ms = gr_created_at_ms g,
                                               gi_session_count = of_nat (length ss)\<rparr>))
         (\<lambda>_. group_items gs)) s"

definition ipc_group_list :: ipc_op where
  "ipc_group_list =
     and_then (on_db group_list) (\<lambda>gs. and_then (group_items gs) (\<lambda>_. write_event EvGroupListEnd))"

fun session_items :: "SessionRow list \<Rightarrow> ipc_op" where
  "session_items [] s = (Inr (), s)"
| "session_items (r # rs) s =
     and_then (on_db (agent_get (se_group r) (se_child_agent r))) (\<lambda>child.
       and_then (write_event (EvSessionListItem (session_info r (map_option ag_status child))))
         (\<lambda>_. session_items rs)) s"

definition ipc_session_list :: "string \<Rightarrow> ipc_op" where
  "ipc_session_list grp =
     and_then (on_db (session_list grp)) (\<lambda>rs. and_then (session_items rs) (\<lambda>_. write_event EvSessionListEnd))"

definition agent_items :: "AgentRow list \<Rightarrow> ipc_op" where
  "agent_items rows =
     and_then (write_events (map (\<lambda>a. EvAgentListItem (agent_info a)) rows)) (\<lambda>_. write_event EvAgentListEnd)"

definition ipc_agent_list :: "string option \<Rightarrow> string option \<Rightarrow> ipc_op" where
  "ipc_agent_list grp session =
     (case (grp, session) of
        (Some g, Some sn) \<Rightarrow>
          and_then (on_db (session_get g sn)) (\<lambda>found.
            case found of
              None \<Rightarrow> write_event (ipc_err NotFound ''no such session'')
            | Some sess \<Rightarrow>
                and_then (on_db (agent_get g (se_prime_agent sess))) (\<lambda>a.
                and_then (on_db (agent_get g (se_child_agent sess))) (\<lambda>b.
                  agent_items ((case a of Some x \<Rightarrow> [x] | None \<Rightarrow> []) @ (case b of Some x \<Rightarrow> [x] | None \<Rightarrow> [])))))
      | (g, _) \<Rightarrow> and_then (on_db (agent_list g)) agent_items)"

definition who_am_i :: "AgentRow \<Rightarrow> WhoAmIInfo" where
  "who_am_i me = \<lparr>wi_group = ag_group me, wi_agent = ag_name me, wi_role = ag_role me,
     wi_session = (if ag_role me = ''child'' then Some (ag_name me) else None)\<rparr>"

definition ipc_whoami :: "env \<Rightarrow> string \<Rightarrow> ipc_op" where
  "ipc_whoami e token = with_agent e token (\<lambda>me. write_event (EvWhoAmIInfo (who_am_i me)))"

section \<open>The local bus\<close>

text \<open>The other end of a session.\<close>

definition counterparty :: "AgentRow \<Rightarrow> SessionRow \<Rightarrow> string option" where
  "counterparty me sess =
     (if ag_name me = se_prime_agent sess then Some (se_child_agent sess)
      else if ag_name me = se_child_agent sess then Some (se_prime_agent sess)
      else None)"

definition ipc_agent_send :: "env \<Rightarrow> string \<Rightarrow> string \<Rightarrow> AgentMsgKind \<Rightarrow> bytes \<Rightarrow> ipc_op" where
  "ipc_agent_send e token session kind payload =
     with_agent e token (\<lambda>me.
       and_then (on_db (session_get (ag_group me) session)) (\<lambda>found.
         case found of
           None \<Rightarrow> write_event (ipc_err NotFound ''no such session'')
         | Some sess \<Rightarrow>
             (case counterparty me sess of
                None \<Rightarrow> write_event (ipc_err BadRequest ''sender is not a participant of this session'')
              | Some to_agent \<Rightarrow>
                  and_then (bus_enqueue (en_world e) (ag_group me) session (ag_name me) to_agent kind payload)
                    (\<lambda>_. write_event EvOk))))"

definition backlog_event :: "AgentMsgRow \<Rightarrow> IpcEvent" where
  "backlog_event r = EvAgentMsg (am_session r) (am_from r) (kind_from_str (am_kind r)) (am_payload r) (am_enqueued_at_ms r)"

definition bus_event_msg :: "BusEvent \<Rightarrow> IpcEvent" where
  "bus_event_msg ev = EvAgentMsg (be_session ev) (be_from_agent ev) (be_kind ev) (be_payload ev) (be_ts_ms ev)"

text \<open>Show one message; a consuming reader then marks it, dropping the outcome.\<close>

definition show_and_mark :: "env \<Rightarrow> bool \<Rightarrow> string \<Rightarrow> string \<Rightarrow> u64 \<Rightarrow> IpcEvent \<Rightarrow> ipc_op" where
  "show_and_mark e consume grp session sq ev =
     and_then (write_event ev) (\<lambda>_.
       if consume then ignore (on_db_at (en_world e) (\<lambda>now. agent_msg_mark_consumed now grp session sq))
       else (\<lambda>s. (Inr (), s)))"

fun recv_rows :: "env \<Rightarrow> bool \<Rightarrow> string \<Rightarrow> AgentMsgRow list \<Rightarrow> ipc_op" where
  "recv_rows e consume grp [] s = (Inr (), s)"
| "recv_rows e consume grp (r # rs) s =
     and_then (show_and_mark e consume grp (am_session r) (am_seq r) (backlog_event r))
       (\<lambda>_. recv_rows e consume grp rs) s"

fun agent_tail :: "env \<Rightarrow> bool \<Rightarrow> AgentRow \<Rightarrow> string option \<Rightarrow> BusEvent rx list \<Rightarrow> ipc_op" where
  "agent_tail e consume me session [] s = (Inr (), s)"
| "agent_tail e consume me session (RxLagged # evs) s = agent_tail e consume me session evs s"
| "agent_tail e consume me session (RxItem ev # evs) s =
     (if be_group ev = ag_group me \<and> be_to_agent ev = ag_name me \<and> null_or_eq session (be_session ev)
      then and_then (show_and_mark e consume (ag_group me) (be_session ev) (be_seq ev) (bus_event_msg ev))
             (\<lambda>_. agent_tail e consume me session evs) s
      else agent_tail e consume me session evs s)"

definition ipc_agent_recv ::
  "env \<Rightarrow> BusEvent rx list \<Rightarrow> string \<Rightarrow> string option \<Rightarrow> u64 option \<Rightarrow> bool \<Rightarrow> bool \<Rightarrow> ipc_op" where
  "ipc_agent_recv e live token session since_ms follow consume =
     with_agent e token (\<lambda>me.
       let (since, unconsumed_only) = (if consume then (None, True) else (since_ms, False)) in
       and_then (on_db (agent_msg_backlog (w_bus_plan (en_world e)) (ag_group me) (ag_name me) session since 10000
                          unconsumed_only)) (\<lambda>rows.
       and_then (recv_rows e consume (ag_group me) rows) (\<lambda>_.
       and_then (write_event EvAgentBacklogEnd) (\<lambda>_.
         if \<not> follow then (\<lambda>s. (Inr (), s)) else agent_tail e consume me session live))))"

section \<open>Launching a session\<close>

text \<open>The backquote, the apostrophe, the double quote and the dash of the texts below.\<close>

definition bq :: string where
  "bq = [CHR 0x60]"

definition apo :: string where
  "apo = [CHR 0x27]"

definition dq :: string where
  "dq = [CHR 0x22]"

definition dash :: string where
  "dash = [CHR 0xE2, CHR 0x80, CHR 0x94]"

fun join_lines :: "string list \<Rightarrow> string" where
  "join_lines [] = []"
| "join_lines [l] = l"
| "join_lines (l # ls) = l @ [CHR 0x0A] @ join_lines ls"

definition coordinator_prompt :: "string \<Rightarrow> string \<Rightarrow> string \<Rightarrow> string" where
  "coordinator_prompt grp base_dir goal = join_lines
      [''You are the PRIME COORDINATOR of wt group '' @ bq @ grp @ bq @ ''. A human supervises you from a '' @
         ''dashboard: every message you receive is from them, and each turn'' @ apo @
         ''s final output is shown back to them. You do NOT write code yourself '' @ dash @
         '' you delegate to worker agents and report progress.'',
       [],
       ''You have the '' @ bq @ ''wt'' @ bq @ '' CLI on your PATH and a prime token already in your environment '' @
         ''(WT_TOKEN, WT_GROUP='' @ bq @ grp @ bq @ ''). Drive it with the Bash tool to manage workers. The base '' @
         ''repository to spawn workers from is '' @ bq @ base_dir @ bq @ ''.'',
       [],
       ''Commands:'',
       ''- Spawn a worker (its own isolated git worktree, runs autonomously as a full Claude Code agent):'',
       ''wt spawn --session <name> --dir '' @ base_dir @ '' --worktree --prompt '' @ dq @ ''<the worker'' @ apo @
         ''s self-contained task>'' @ dq,
       ''- Send a follow-up instruction to a worker:'',
       ''wt send --session <name> --kind turn_input '' @ dq @ ''<text>'' @ dq,
       ''- Read a worker'' @ apo @ ''s latest output (drains the backlog; add --follow to tail live):'',
       ''wt recv --session <name>'',
       ''- List workers and their status:'',
       ''wt ls --group '' @ grp,
       [],
       ''How to work:'',
       ''- Break the user'' @ apo @ ''s goal into a few worker sessions (e.g. '' @ bq @ ''frontend'' @ bq @ '', '' @ bq @
         ''backend'' @ bq @ '') and spawn them.'',
       ''- Give each worker a clear, self-contained task; they cannot see this conversation.'',
       ''- After spawning, check on workers with '' @ bq @ ''wt recv --session <name>'' @ bq @
         '' and summarize their progress to the user. Re-spawning a session name that already exists will fail '' @ dash @
         '' reuse '' @ bq @ ''wt send'' @ bq @ '' instead.'',
       ''- End every turn with a concise status the user will read in the dashboard.'',
       [],
       ''The user'' @ apo @ ''s goal:'',
       goal]"

record SpawnOutcome =
  so_workspace :: string
  so_child_token :: string

text \<open>The arguments of \<open>spawn_session\<close>.\<close>

record SpawnArgs =
  sa_prime :: string
  sa_group :: string
  sa_session :: string
  sa_base_dir :: string
  sa_fs_mode :: FsMode
  sa_prompt :: string
  sa_harness_argv :: "string list option"
  sa_idle_timeout :: "nat option"
  sa_permission_mode :: "string option"
  sa_skip_permissions :: bool
  sa_trace :: bool
  sa_coordinator :: bool

type_synonym 'a spawn_op = "ipc_state \<Rightarrow> ((IpcErrorCode \<times> string) + 'a) \<times> ipc_state"

definition harness_error_display :: "HarnessSpec \<Rightarrow> harness_error \<Rightarrow> string" where
  "harness_error_display spec err =
     (case err of
        EmptyArgv \<Rightarrow> ''empty harness argv''
      | SpawnFailed \<Rightarrow> ''spawn harness '' @ bq @ hd (hs_argv spec) @ bq @ '' in '' @ hs_cwd spec
      | EncodeTurn \<Rightarrow> ''encode user turn''
      | WriteStdin \<Rightarrow> ''write to harness stdin''
      | ReadStdout \<Rightarrow> ''read harness stdout''
      | LineTooLong \<Rightarrow> ''harness emitted a line larger than '' @ show_int MAX_LINE_BYTES @ '' bytes'')"

definition sup_error_display :: "env \<Rightarrow> HarnessSpec \<Rightarrow> sup_error \<Rightarrow> string" where
  "sup_error_display e spec err =
     (case err of SupHarness he \<Rightarrow> harness_error_display spec he | SupDaemon de \<Rightarrow> en_show e de)"

text \<open>\<open>.map_err(spawn_err)\<close>.\<close>

definition spawn_db :: "env \<Rightarrow> (ipc_state \<Rightarrow> (dm_error + 'a) \<times> ipc_state) \<Rightarrow> 'a spawn_op" where
  "spawn_db e m s =
     (case m s of (Inl err, s') \<Rightarrow> (Inl (Internal, en_show e err), s') | (Inr a, s') \<Rightarrow> (Inr a, s'))"

definition already_exists :: "SpawnArgs \<Rightarrow> 'a spawn_op" where
  "already_exists a s =
     (Inl (BadRequest, ''session '' @ apo @ sa_session a @ apo @ '' already exists in group '' @ apo @ sa_group a @ apo), s)"

definition name_taken :: "env \<Rightarrow> SpawnArgs \<Rightarrow> bool spawn_op" where
  "name_taken e a =
     and_then (spawn_db e (on_db (session_get (sa_group a) (sa_session a)))) (\<lambda>found.
       if found \<noteq> None then (\<lambda>s. (Inr True, s))
       else and_then (spawn_db e (on_db (agent_get (sa_group a) (sa_session a)))) (\<lambda>ag s. (Inr (ag \<noteq> None), s)))"

definition provision_ws :: "env \<Rightarrow> SpawnArgs \<Rightarrow> Workspace spawn_op" where
  "provision_ws e a s =
     (case provision (en_host e) (sa_group a) (sa_session a) (sa_base_dir a) (sa_fs_mode a) (cx_fs s) of
        (Inl err, f) \<Rightarrow> (Inl (BadRequest, ''workspace provisioning failed: '' @ ws_error_display err), s\<lparr>cx_fs := f\<rparr>)
      | (Inr ws, f) \<Rightarrow> (Inr ws, s\<lparr>cx_fs := f\<rparr>))"

text \<open>The rollback: \<open>let _ = teardown(.., true)\<close>.\<close>

definition discard_ws :: "env \<Rightarrow> SpawnArgs \<Rightarrow> Workspace \<Rightarrow> ipc_state \<Rightarrow> ipc_state" where
  "discard_ws e a ws s =
     s\<lparr>cx_fs := snd (teardown (en_host e) (ws_path ws) (Some (sa_base_dir a)) (sa_fs_mode a) (ws_branch ws) True (cx_fs s))\<rparr>"

definition mark_exited :: "env \<Rightarrow> SpawnArgs \<Rightarrow> ipc_state \<Rightarrow> ipc_state" where
  "mark_exited e a s =
     snd (on_db_at (en_world e) (\<lambda>now. agent_set_status now (sa_group a) (sa_session a) ''exited'' None) s)"

definition child_row :: "crates \<Rightarrow> SpawnArgs \<Rightarrow> string \<Rightarrow> u64 \<Rightarrow> AgentRow" where
  "child_row c a token now =
     \<lparr>ag_group = sa_group a, ag_name = sa_session a, ag_token_hash = agent_token_hash c token,
      ag_role = (if sa_coordinator a then ''prime'' else ''child''), ag_dir = Some (sa_base_dir a), ag_pid = None,
      ag_status = ''starting'', ag_created_at_ms = now, ag_last_seen_ms = None\<rparr>"

definition session_row :: "SpawnArgs \<Rightarrow> Workspace \<Rightarrow> u64 \<Rightarrow> SessionRow" where
  "session_row a ws now =
     \<lparr>se_group = sa_group a, se_name = sa_session a, se_prime_agent = sa_prime a, se_child_agent = sa_session a,
      se_fs_mode = fs_mode_str (sa_fs_mode a), se_base_dir = Some (sa_base_dir a), se_workspace_path = ws_path ws,
      se_branch = ws_branch ws, se_status = ''active'', se_created_at_ms = now\<rparr>"

definition harness_spec :: "env \<Rightarrow> SpawnArgs \<Rightarrow> Workspace \<Rightarrow> string \<Rightarrow> HarnessSpec" where
  "harness_spec e a ws token =
     \<lparr>hs_argv = (case sa_harness_argv a of
                   Some (x # xs) \<Rightarrow> x # xs
                 | _ \<Rightarrow> claude_argv (en_harness_cmd e) (sa_permission_mode a) (sa_skip_permissions a)),
      hs_cwd = ws_path ws,
      hs_env = [(''WT_TOKEN'', token), (''WT_GROUP'', sa_group a), (''WT_SESSION'', sa_session a),
                (''WT_AGENT'', sa_session a), (''WT_HOME'', home (en_host e))],
      hs_initial_prompt = (if sa_coordinator a then coordinator_prompt (sa_group a) (sa_base_dir a) (sa_prompt a)
                           else sa_prompt a),
      hs_stderr_log = Some (path_join (logs_dir (en_host e))
                              (''harness-'' @ sa_group a @ ''-'' @ sa_session a @ ''.log''))\<rparr>"

definition supervised_of :: "SpawnArgs \<Rightarrow> Supervised" where
  "supervised_of a =
     \<lparr>sv_group = sa_group a, sv_session = sa_session a, sv_prime = sa_prime a, sv_idle_timeout = sa_idle_timeout a,
      sv_trace = sa_trace a\<rparr>"

text \<open>The last step: start the supervisor, or undo what can be undone.\<close>

definition launch :: "env \<Rightarrow> SpawnArgs \<Rightarrow> Workspace \<Rightarrow> string \<Rightarrow> SpawnOutcome spawn_op" where
  "launch e a ws token s =
     (let spec = harness_spec e a ws token in
      case supervisor_start (en_json e) (en_world e) (en_proc e) (supervised_of a) spec s of
        (Inr h, s') \<Rightarrow>
          (Inr \<lparr>so_workspace = ws_path ws, so_child_token = token\<rparr>,
           s'\<lparr>cx_tasks := cx_tasks s' @ [(supervised_of a, h)]\<rparr>)
      | (Inl err, s') \<Rightarrow>
          (Inl (Internal, ''harness spawn failed: '' @ sup_error_display e spec err),
           discard_ws e a ws (mark_exited e a s')))"

definition spawn_rows :: "env \<Rightarrow> SpawnArgs \<Rightarrow> Workspace \<Rightarrow> string \<Rightarrow> u64 \<Rightarrow> SpawnOutcome spawn_op" where
  "spawn_rows e a ws token now =
     and_then (spawn_db e (on_db (agent_register (child_row (en_crates e) a token now)))) (\<lambda>registered.
       if \<not> registered then (\<lambda>s. already_exists a (discard_ws e a ws s))
       else and_then (spawn_db e (on_db (session_create (session_row a ws now)))) (\<lambda>created.
         if \<not> created then (\<lambda>s. already_exists a (discard_ws e a ws (mark_exited e a s)))
         else launch e a ws token))"

definition spawn_session :: "env \<Rightarrow> SpawnArgs \<Rightarrow> SpawnOutcome spawn_op" where
  "spawn_session e a =
     and_then (name_taken e a) (\<lambda>taken.
       if taken then already_exists a
       else and_then (provision_ws e a) (\<lambda>ws.
            and_then (spawn_db e (draw e 32)) (\<lambda>rnd.
            and_then (spawn_db e (unix_ms e)) (\<lambda>now.
              spawn_rows e a ws (new_agent_token (en_crates e) rnd) now))))"

definition spawn_args :: "string \<Rightarrow> SpawnReq \<Rightarrow> SpawnArgs" where
  "spawn_args prime r =
     \<lparr>sa_prime = prime, sa_group = sp_group r, sa_session = sp_session r, sa_base_dir = sp_base_dir r,
      sa_fs_mode = sp_fs_mode r, sa_prompt = sp_prompt r, sa_harness_argv = sp_harness_argv r,
      sa_idle_timeout = map_option unat (sp_idle_timeout_secs r), sa_permission_mode = sp_permission_mode r,
      sa_skip_permissions = sp_skip_permissions r, sa_trace = sp_trace r, sa_coordinator = sp_coordinator r\<rparr>"

definition ipc_spawn :: "env \<Rightarrow> SpawnReq \<Rightarrow> ipc_op" where
  "ipc_spawn e r =
     with_agent e (sp_token r) (\<lambda>me.
       if ag_group me \<noteq> sp_group r \<or> ag_role me \<noteq> ''prime''
       then write_event (ipc_err Unauthorized (''spawn requires the group'' @ apo @ ''s prime token''))
       else (\<lambda>s.
         case spawn_session e (spawn_args (ag_name me) r) s of
           (Inr out, s') \<Rightarrow> write_event (EvSpawned (sp_group r) (sp_session r) (so_child_token out) (so_workspace out)) s'
         | (Inl (cd, msg), s') \<Rightarrow> write_event (ipc_err cd msg) s'))"

section \<open>Ending agents and sessions\<close>

definition ipc_agent_kill :: "env \<Rightarrow> string \<Rightarrow> string \<Rightarrow> ipc_op" where
  "ipc_agent_kill e token agent =
     with_agent e token (\<lambda>me.
       if ag_role me \<noteq> ''prime'' then write_event (ipc_err Unauthorized ''only the prime may kill agents'')
       else and_then (on_db (agent_get (ag_group me) agent)) (\<lambda>found.
         case found of
           None \<Rightarrow> write_event (ipc_err NotFound ''no such agent'')
         | Some _ \<Rightarrow> (\<lambda>s.
             let s1 = snd (kill_child (ag_group me) agent s);
                 s2 = snd (on_db_at (en_world e) (\<lambda>now. agent_set_status now (ag_group me) agent ''exited'' None) s1)
             in and_then (on_db (session_get (ag_group me) agent)) (\<lambda>sess s3.
                  write_event EvOk (if sess \<noteq> None then snd (on_db (session_close (ag_group me) agent) s3) else s3)) s2)))"

definition ipc_session_close :: "env \<Rightarrow> string \<Rightarrow> string \<Rightarrow> bool \<Rightarrow> ipc_op" where
  "ipc_session_close e token session discard =
     with_agent e token (\<lambda>me.
       if ag_role me \<noteq> ''prime'' then write_event (ipc_err Unauthorized ''only the prime may close sessions'')
       else and_then (on_db (session_get (ag_group me) session)) (\<lambda>found.
         case found of
           None \<Rightarrow> write_event (ipc_err NotFound ''no such session'')
         | Some sess \<Rightarrow> (\<lambda>s.
             let s1 = snd (kill_child (ag_group me) (se_child_agent sess) s);
                 s2 = snd (on_db_at (en_world e)
                        (\<lambda>now. agent_set_status now (ag_group me) (se_child_agent sess) ''exited'' None) s1)
             in and_then (on_db (session_close (ag_group me) session)) (\<lambda>_ s3.
                  write_event EvOk
                    (s3\<lparr>cx_fs := snd (teardown (en_host e) (se_workspace_path sess) (se_base_dir sess)
                                       (fs_mode_of (se_fs_mode sess)) (se_branch sess) discard (cx_fs s3))\<rparr>)) s2)))"

section \<open>A connection\<close>

text \<open>What the two broadcast channels deliver to this connection's subscription before they close.\<close>

record tails =
  tl_recv :: "IpcEvent rx list"
  tl_agent :: "BusEvent rx list"

definition dispatch :: "env \<Rightarrow> tails \<Rightarrow> IpcRequest \<Rightarrow> ipc_op" where
  "dispatch e tls req =
     (case req of
        ReqStatus \<Rightarrow> ipc_status e
      | ReqNodeId \<Rightarrow> ipc_nodeid e
      | ReqTicket \<Rightarrow> ipc_ticket e
      | ReqPeerAdd nodeid name addr_blob \<Rightarrow> ipc_peer_add e nodeid name addr_blob
      | ReqPeerRm selector \<Rightarrow> ipc_peer_rm selector
      | ReqPeerList f \<Rightarrow> ipc_peer_list f
      | ReqConnList \<Rightarrow> ipc_conn_list
      | ReqConnClose _ \<Rightarrow> ipc_conn_close
      | ReqTokenGrant peer cs ttl_secs \<Rightarrow> ipc_token_grant e peer cs ttl_secs
      | ReqTokenImport raw \<Rightarrow> ipc_token_import e raw
      | ReqTokenList \<Rightarrow> ipc_token_list e
      | ReqTokenRevoke ident \<Rightarrow> ipc_token_revoke ident
      | ReqSend peer channel payload \<Rightarrow> ipc_send e peer channel payload
      | ReqRecvSubscribe peer channel since_ms follow \<Rightarrow>
          ipc_recv_subscribe e (tl_recv tls) peer channel since_ms follow
      | ReqGroupNew name \<Rightarrow> ipc_group_new e name
      | ReqGroupList \<Rightarrow> ipc_group_list
      | ReqSessionList grp \<Rightarrow> ipc_session_list grp
      | ReqAgentList grp session \<Rightarrow> ipc_agent_list grp session
      | ReqSpawn r \<Rightarrow> ipc_spawn e r
      | ReqAgentSend token session kind payload \<Rightarrow> ipc_agent_send e token session kind payload
      | ReqAgentRecv token session since_ms follow consume \<Rightarrow>
          ipc_agent_recv e (tl_agent tls) token session since_ms follow consume
      | ReqAgentKill token agent \<Rightarrow> ipc_agent_kill e token agent
      | ReqSessionClose token session discard \<Rightarrow> ipc_session_close e token session discard
      | ReqWhoAmI token \<Rightarrow> ipc_whoami e token)"

definition want_stream :: "IpcRequest \<Rightarrow> bool" where
  "want_stream req = (case req of ReqRecvSubscribe _ _ _ _ \<Rightarrow> True | ReqAgentRecv _ _ _ _ _ \<Rightarrow> True | _ \<Rightarrow> False)"

text \<open>An error that leaves \<open>dispatch\<close> is answered as an internal one.\<close>

definition serve :: "env \<Rightarrow> tails \<Rightarrow> IpcRequest \<Rightarrow> ipc_op" where
  "serve e tls req s =
     (case dispatch e tls req s of
        (Inl err, s') \<Rightarrow> write_event (EvErr (ipc_error_internal (en_show_chain e err))) s'
      | (Inr _, s') \<Rightarrow> (Inr (), s'))"

datatype conn_error = ConnRead IpcReadError | ConnWrite dm_error

lemma ipc_read_frame_shorter:
  "ipc_read_frame s = (Inr (Some buf), s') \<Longrightarrow> length (rs_in s') < length (rs_in s)"
  by (auto simp: ipc_read_frame_def read_exact_def Let_def split: if_splits prod.splits sum.splits StreamEnd.splits ReadExactError.splits)

function handle_ipc_conn :: "env \<Rightarrow> tails \<Rightarrow> RecvStream \<Rightarrow> ipc_state \<Rightarrow> (conn_error + unit) \<times> ipc_state" where
  "handle_ipc_conn e tls rs s =
     (case ipc_read_frame rs of
        (Inl err, _) \<Rightarrow> (Inl (ConnRead err), s)
      | (Inr None, _) \<Rightarrow> (Inr (), s)
      | (Inr (Some buf), rs') \<Rightarrow>
          (case en_req_dec e buf of
             None \<Rightarrow>
               (case write_event (ipc_err BadRequest (''decode request: '' @ en_show_cbor e buf)) s of
                  (Inl err, s') \<Rightarrow> (Inl (ConnWrite err), s')
                | (Inr _, s') \<Rightarrow> handle_ipc_conn e tls rs' s')
           | Some req \<Rightarrow>
               (case serve e tls req s of
                  (Inl err, s') \<Rightarrow> (Inl (ConnWrite err), s')
                | (Inr _, s') \<Rightarrow> if want_stream req then (Inr (), s') else handle_ipc_conn e tls rs' s')))"
  by pat_completeness auto
termination
  by (relation "measure (\<lambda>(e, tls, rs, s). length (rs_in rs))") (auto dest: ipc_read_frame_shorter [OF sym])

end
