(* ===== verification/Wt_Effect.thy ===== *)
theory Wt_Effect
  imports Wt_Supervisor
begin

text \<open>
  Bounding what the daemon's operations do.  An operation is confined by a relation on states when
  every run of it stays within the relation.  The locale \<open>bus_effects\<close> lists the primitive effects of the
  bus, of sessions and of children that a relation must allow for the groups in question; every operation
  the supervisor composes of them is then confined by it.
\<close>

section \<open>Operations that stay within a relation\<close>

definition confined :: "('s \<Rightarrow> 's \<Rightarrow> bool) \<Rightarrow> ('s \<Rightarrow> 'r \<times> 's) \<Rightarrow> bool" where
  "confined R m \<longleftrightarrow> (\<forall>s. R s (snd (m s)))"

lemma confinedI: "(\<And>s. R s (snd (m s))) \<Longrightarrow> confined R m"
  by (simp add: confined_def)

lemma confinedD: "confined R m \<Longrightarrow> R s (snd (m s))"
  by (simp add: confined_def)

locale effect_bound =
  fixes R :: "'s \<Rightarrow> 's \<Rightarrow> bool"
  assumes bound_refl: "R s s"
    and bound_trans: "R s t \<Longrightarrow> R t u \<Longrightarrow> R s u"
begin

lemma confined_and_then:
  assumes "confined R m" and "\<And>a. confined R (f a)"
  shows "confined R (and_then m f)"
proof (rule confinedI)
  fix s
  obtain r t where m: "m s = (r, t)" by fastforce
  with assms(1) have "R s t" by (metis confinedD snd_conv)
  moreover have "R t (snd (f a t))" for a using assms(2) by (rule confinedD)
  ultimately show "R s (snd (and_then m f s))"
    using m bound_trans by (cases r) (auto simp: and_then_def)
qed

text \<open>The same for one state, where what the first call returned is known.\<close>

lemma bound_and_then:
  assumes "R s (snd (m s))" and "\<And>a t. m s = (Inr a, t) \<Longrightarrow> R t (snd (f a t))"
  shows "R s (snd (and_then m f s))"
proof -
  obtain r t where m: "m s = (r, t)" by fastforce
  with assms show ?thesis by (cases r) (auto simp: and_then_def intro: bound_trans)
qed

lemma confined_return: "confined R (\<lambda>s. (x, s))"
  by (simp add: confined_def bound_refl)

lemma confined_ignore: "confined R m \<Longrightarrow> confined R (ignore m)"
  by (simp add: confined_def ignore_def)

lemma confined_compose: "confined R m \<Longrightarrow> (\<And>s. R s (f s)) \<Longrightarrow> confined R (\<lambda>s. m (f s))"
  unfolding confined_def using bound_trans by blast

lemma bound_after: "confined R m \<Longrightarrow> R s t \<Longrightarrow> R s (snd (m t))"
  using bound_trans confinedD by metis

lemma bound_fold: "(\<And>x s. R s (f x s)) \<Longrightarrow> R s (fold f xs s)"
  by (induction xs arbitrary: s) (auto intro: bound_refl bound_trans)

end

text \<open>A call that only reads the database changes nothing at all.\<close>

lemma on_db_reads: "snd (f (dm_db s)) = dm_db s \<Longrightarrow> snd (on_db f s) = s"
  by (cases "f (dm_db s)"; cases "fst (f (dm_db s))") (simp_all add: on_db_def)

section \<open>The bus, sessions and children\<close>

locale bus_effects = effect_bound R
  for R :: "'z daemon_scheme \<Rightarrow> 'z daemon_scheme \<Rightarrow> bool" +
  fixes allowed :: "string \<Rightarrow> bool"
  assumes set_status: "allowed g \<Longrightarrow> confined R (on_db_at w (\<lambda>now. agent_set_status now g n st pid))"
    and mark_consumed: "allowed g \<Longrightarrow> confined R (on_db_at w (\<lambda>now. agent_msg_mark_consumed now g sn sq))"
    and enqueue: "allowed g \<Longrightarrow> confined R (on_db_at w (\<lambda>now. agent_msg_enqueue now g sn f t k pl))"
    and touch: "allowed g \<Longrightarrow> confined R (on_db_at w (\<lambda>now. agent_touch now g n))"
    and publish: "allowed (be_group ev) \<Longrightarrow> R s (s\<lparr>dm_agent_bcast := dm_agent_bcast s @ [ev]\<rparr>)"
    and kill: "allowed g \<Longrightarrow> R s (snd (kill_child g n s))"
    and register: "allowed g \<Longrightarrow> R s (register_child g n task s)"
    and forget: "allowed g \<Longrightarrow> R s (forget_child g n s)"
begin

lemma bus_enqueue_bound:
  assumes "allowed g"
  shows "confined R (bus_enqueue w g sn f t k pl)"
  unfolding bus_enqueue_def
  by (rule confined_and_then [OF enqueue [OF assms]]) (rule confinedI, simp add: publish assms)

lemma record_prompt_bound:
  assumes "allowed (sv_group p)"
  shows "R s (record_prompt w p prompt s)"
proof -
  let ?enq = "bus_enqueue w (sv_group p) (sv_session p) (sv_prime p) (sv_session p) TurnInput (bytes_of prompt) s"
  have "R s (snd ?enq)" by (rule confinedD [OF bus_enqueue_bound [OF assms]])
  then show ?thesis
    by (auto simp: record_prompt_def bound_refl intro: bound_after [OF mark_consumed [OF assms]] split: prod.splits sum.splits)
qed

lemma supervisor_start_bound:
  assumes "allowed (sv_group p)"
  shows "R s (snd (supervisor_start j w proc p spec s))"
proof (cases "harness_spawn j proc spec")
  case (Inr h)
  obtain r t where st: "on_db_at w (\<lambda>now. agent_set_status now (sv_group p) (sv_session p) ''running'' (hn_pid h)) s = (r, t)"
    by fastforce
  have t: "R s t" using confinedD [OF set_status [OF assms]] st by (metis snd_conv)
  let ?t = "record_prompt w p (hs_initial_prompt spec) t"
  have "R s (register_child (sv_group p) (sv_session p) (dm_tick ?t) ?t)"
    using t record_prompt_bound [OF assms] register [OF assms] bound_trans by metis
  with t Inr st show ?thesis by (cases r) (simp_all add: supervisor_start_def Let_def)
qed (simp add: supervisor_start_def bound_refl)

lemma feed_rows_bound:
  assumes "allowed g"
  shows "R s (snd (snd (feed_rows j w g child rows fed (h, s))))"
proof (induction rows arbitrary: fed h s)
  case (Cons row rows)
  let ?s = "snd (on_db_at w (\<lambda>now. agent_set_status now g child ''running'' None)
      (snd (on_db_at w (\<lambda>now. agent_msg_mark_consumed now g (am_session row) (am_seq row)) s)))"
  have "R s ?s" by (rule bound_after [OF set_status [OF assms] confinedD [OF mark_consumed [OF assms]]])
  then show ?case
    using bound_trans [OF _ Cons.IH [of ?s]] by (auto simp: Let_def bound_refl split: prod.splits sum.splits)
qed (simp add: bound_refl)

lemma drain_turn_inputs_bound:
  assumes "allowed g"
  shows "R s (snd (snd (drain_turn_inputs j w g child (h, s))))"
proof -
  obtain r t where q: "on_db (agent_msg_pending (w_bus_plan w) g child ''turn_input'') s = (r, t)" by fastforce
  have "snd (on_db (agent_msg_pending (w_bus_plan w) g child ''turn_input'') s) = s" by (rule on_db_reads) simp
  then have "t = s" by (simp add: q)
  with q show ?thesis by (cases r) (simp_all add: drain_turn_inputs_def bound_refl feed_rows_bound [OF assms])
qed

lemma finish_bound:
  assumes "allowed g"
  shows "R s (finish w g sn child prime reason s)"
proof -
  have "R s (snd (bus_enqueue w g sn child prime Control (bytes_of reason)
      (snd (on_db_at w (\<lambda>now. agent_set_status now g child ''exited'' None) s))))"
    by (rule bound_after [OF bus_enqueue_bound [OF assms] confinedD [OF set_status [OF assms]]])
  with forget [OF assms] show ?thesis unfolding finish_def Let_def using bound_trans by blast
qed

lemma drain_or_die_bound:
  assumes "allowed (sv_group p)"
  shows "R s (snd (snd (snd (drain_or_die j w p now (l, h, s)))))"
proof -
  obtain r h' t where d: "drain_turn_inputs j w (sv_group p) (sv_session p) (h, s) = (r, h', t)" by (metis prod_cases3)
  have "R s t" using drain_turn_inputs_bound [OF assms, of s j w "sv_session p" h] by (simp add: d)
  with d show ?thesis
    by (cases r) (auto simp: drain_or_die_def intro: bound_trans [OF _ finish_bound [OF assms]])
qed

lemma idle_check_bound:
  assumes "allowed (sv_group p)"
  shows "R s (snd (snd (idle_check w p now (l, h, s))))"
  using confinedD [OF bus_enqueue_bound [OF assms]]
  by (auto simp: idle_check_def Let_def bound_refl split: option.splits)

lemma sup_step_bound:
  assumes "allowed (sv_group p)"
  shows "R s (snd (snd (snd (sup_step j w p ready (l, h, s)))))"
proof -
  note enq = bus_enqueue_bound [OF assms]
  obtain now r where ready: "ready = (now, r)" by fastforce
  show ?thesis
  proof (cases r)
    case (RdyEvent ev)
    then show ?thesis
      using confinedD [OF enq] finish_bound [OF assms] bound_after [OF set_status [OF assms] confinedD [OF enq]]
      by (cases ev) (auto simp: sup_step_def ready Let_def bound_refl)
  next
    case RdyPoll
    let ?s = "snd (on_db_at w (\<lambda>now. agent_touch now (sv_group p) (sv_session p)) s)"
    obtain b l' h' t where d: "drain_or_die j w p now (l, h, ?s) = (b, l', h', t)" by (metis prod_cases4)
    have "R ?s t" using drain_or_die_bound [OF assms, of ?s j w now l h] by (simp add: d)
    then have t: "R s t" by (rule bound_trans [OF confinedD [OF touch [OF assms]]])
    obtain l2 h2 u where i: "idle_check w p now (l', h', t) = (l2, h2, u)" by (metis prod_cases3)
    have "R s u" using bound_trans [OF t] idle_check_bound [OF assms, of t w now l' h'] by (simp add: i)
    with RdyPoll d t i show ?thesis by (cases b) (simp_all add: sup_step_def ready Let_def)
  qed (use finish_bound [OF assms] drain_or_die_bound [OF assms] forget [OF assms] in \<open>simp_all add: sup_step_def ready Let_def\<close>)
qed

end

end
