(* ===== verification/Wt_Requests.thy ===== *)
theory Wt_Requests
  imports Wt_Ipc Wt_Effect
begin

text \<open>
  What the requests that carry a bearer token can do.  The locale \<open>connection_effects\<close> adds to the effects
  of the bus those of a connection that touch no file, \<open>socket_effects\<close> the files of workspaces and the row of
  a new session.  Whatever relation allows them for the groups of the token's holder confines every such
  request.
\<close>

section \<open>A whole connection\<close>

text \<open>A connection stays within a relation that every answer and every request it decodes stays within.\<close>

lemma connection_bound:
  assumes "effect_bound R" and w: "\<And>ev s. R s (snd (write_event ev s))"
    and r: "\<And>b req s. en_req_dec e b = Some req \<Longrightarrow> R s (snd (serve e tls req s))"
  shows "R s (snd (handle_ipc_conn e tls rs s))"
proof (induction "length (rs_in rs)" arbitrary: rs s rule: less_induct)
  case less
  obtain x rs' where rd: "ipc_read_frame rs = (x, rs')" by fastforce
  show ?case
  proof (cases "\<exists>buf. x = Inr (Some buf)")
    case True
    then obtain buf where buf: "x = Inr (Some buf)" ..
    note IH = less.hyps [OF ipc_read_frame_shorter [OF rd [unfolded buf]]]
    define m where "m = (case en_req_dec e buf of None \<Rightarrow> write_event (ipc_err BadRequest (''decode request: '' @ en_show_cbor e buf))
        | Some req \<Rightarrow> serve e tls req)"
    obtain y t where m: "m s = (y, t)" by fastforce
    have "R s (snd (m s))" using w r by (simp add: m_def split: option.splits)
    then have "R s t" by (simp add: m)
    moreover have "R s (snd (handle_ipc_conn e tls rs' t))"
      using effect_bound.bound_trans [OF assms(1) \<open>R s t\<close>] IH by blast
    ultimately show ?thesis using m
      by (subst handle_ipc_conn.simps) (auto simp: rd buf m_def split: option.splits sum.splits)
  qed (use rd effect_bound.bound_refl [OF assms(1)] in \<open>subst handle_ipc_conn.simps, auto split: sum.splits option.splits\<close>)
qed

section \<open>Requests that carry a token\<close>

fun req_token :: "IpcRequest \<Rightarrow> string option" where
  "req_token (ReqSpawn r) = Some (sp_token r)"
| "req_token (ReqAgentSend token _ _ _) = Some token"
| "req_token (ReqAgentRecv token _ _ _ _) = Some token"
| "req_token (ReqAgentKill token _) = Some token"
| "req_token (ReqSessionClose token _ _) = Some token"
| "req_token (ReqWhoAmI token) = Some token"
| "req_token _ = None"

text \<open>The agent a token belongs to.\<close>

definition holder :: "env \<Rightarrow> string \<Rightarrow> 'z daemon_scheme \<Rightarrow> AgentRow option" where
  "holder e token s =
     (case fst (agent_by_token (agent_token_hash (en_crates e) token) (dm_db s)) of Inr r \<Rightarrow> r | Inl _ \<Rightarrow> None)"

lemma socket_reads:
  "snd (on_db (agent_by_token hash) s) = s" "snd (on_db (agent_get h n) s) = s" "snd (on_db (session_get h n) s) = s"
  "snd (on_db (agent_msg_backlog plan h t so a l u) s) = s"
  by (rule on_db_reads, simp)+

lemma peer_get_wf: "fst (peer_get sel d) = Inr (Some p) \<Longrightarrow> wf_nodeid (pr_nodeid p)"
  by (auto simp: peer_get_def call_def row_to_peer_def fixed_32_def wf_nodeid_def split: if_splits option.splits sum.splits)

section \<open>The effects of a connection\<close>

locale connection_effects = bus_effects R allowed
  for R :: "ipc_state \<Rightarrow> ipc_state \<Rightarrow> bool" and allowed :: "string \<Rightarrow> bool" +
  assumes close: "allowed g \<Longrightarrow> confined R (on_db (session_close g n))"
    and agent_new: "allowed (ag_group arow) \<Longrightarrow> confined R (on_db (agent_register arow))"
    and socket: "R s (s\<lparr>cx_out := out, cx_room := room\<rparr>)"
    and tasks: "R s (s\<lparr>cx_tasks := ts\<rparr>)"
    and clock: "R s (s\<lparr>dm_tick := i\<rparr>)"
    and entropy: "R s (s\<lparr>dm_rands := i\<rparr>)"
begin

lemma write_event_bound: "confined R (write_event ev)"
  by (rule confinedI) (simp add: write_event_def socket bound_refl)

lemma write_events_bound: "confined R (write_events evs)"
proof (induction evs)
  case (Cons ev evs)
  have "confined R (and_then (write_event ev) (\<lambda>_. write_events evs))"
    by (rule confined_and_then [OF write_event_bound Cons.IH])
  then show ?case by (simp add: confined_def)
qed (simp add: confined_def bound_refl)

lemma reads_bound:
  "confined R (on_db (agent_by_token hash))" "confined R (on_db (agent_get h n))" "confined R (on_db (session_get h n))"
  "confined R (on_db (agent_msg_backlog plan h t so a l u))"
  by (simp_all add: confined_def socket_reads bound_refl)

lemma draws_bound: "confined R (draw e n)" "confined R (unix_ms e)" "confined R (unix_secs e)"
  by (simp_all add: confined_def draw_def unix_ms_def unix_secs_def clock entropy)

lemma spawn_db_bound: "confined R m \<Longrightarrow> confined R (spawn_db e m)"
  by (auto simp: confined_def spawn_db_def split: prod.splits sum.splits) (metis snd_conv)+

lemma show_and_mark_bound: "allowed g \<Longrightarrow> confined R (show_and_mark e consume g sn sq ev)"
  unfolding show_and_mark_def
  by (auto intro!: confined_and_then write_event_bound confined_ignore mark_consumed confined_return)

lemma recv_rows_bound:
  assumes "allowed g"
  shows "confined R (recv_rows e consume g rows)"
proof (induction rows)
  case (Cons r rs)
  have "confined R (and_then (show_and_mark e consume g (am_session r) (am_seq r) (backlog_event r)) (\<lambda>_. recv_rows e consume g rs))"
    by (rule confined_and_then [OF show_and_mark_bound [OF assms] Cons.IH])
  then show ?case by (simp add: confined_def)
qed (simp add: confined_def bound_refl)

lemma agent_tail_bound:
  assumes "allowed (ag_group me)"
  shows "confined R (agent_tail e consume me so live)"
proof -
  have "R s (snd (agent_tail e consume me so live s))" for s
    using assms
  proof (induction e consume me so live s rule: agent_tail.induct)
    case (3 e consume me so ev evs s)
    let ?show = "show_and_mark e consume (ag_group me) (be_session ev) (be_seq ev) (bus_event_msg ev)"
    obtain r t where st: "?show s = (r, t)" by fastforce
    have "R s t" using confinedD [OF show_and_mark_bound [OF 3(3)]] st by (metis snd_conv)
    with 3 st show ?case by (cases r) (auto simp: and_then_def intro: bound_trans)
  qed (simp_all add: bound_refl)
  then show ?thesis by (rule confinedI)
qed

section \<open>The handlers\<close>

lemma with_agent_bound:
  assumes "\<forall>a. holder e token s = Some a \<longrightarrow> allowed (ag_group a)" and "\<And>a. allowed (ag_group a) \<Longrightarrow> confined R (body a)"
  shows "R s (snd (with_agent e token body s))"
proof -
  obtain r t where q: "resolve_agent e token s = (r, t)" by fastforce
  have "t = s" using q socket_reads(1) unfolding resolve_agent_def by (metis snd_conv)
  moreover have "holder e token s = who" if "r = Inr who" for who
    using q that by (auto simp: holder_def resolve_agent_def on_db_def split: prod.splits sum.splits)
  ultimately show ?thesis
    using q assms confinedD [OF write_event_bound]
    by (cases r) (auto simp: with_agent_def and_then_def bound_refl confinedD split: option.splits)
qed

lemma stop_child_bound:
  "allowed g \<Longrightarrow> R s (snd (on_db_at w (\<lambda>now. agent_set_status now g n st pid) (snd (kill_child g n s))))"
  by (rule bound_after [OF set_status kill])

lemma kill_request_bound:
  assumes "\<forall>a. holder e token s = Some a \<longrightarrow> allowed (ag_group a)"
  shows "R s (snd (ipc_agent_kill e token agent s))"
  unfolding ipc_agent_kill_def
proof (rule with_agent_bound [OF assms])
  fix me :: AgentRow
  assume me: "allowed (ag_group me)"
  let ?end_session = "\<lambda>sess s3. write_event EvOk (if sess \<noteq> None then snd (on_db (session_close (ag_group me) agent) s3) else s3)"
  have "R u (if b then snd (on_db (session_close (ag_group me) agent) u) else u)" for b u
    by (simp add: bound_refl confinedD [OF close [OF me]])
  then have "confined R (?end_session sess)" for sess by (intro confinedI bound_after [OF write_event_bound])
  then have tail: "confined R (and_then (on_db (session_get (ag_group me) agent)) ?end_session)"
    by (intro confined_and_then reads_bound)
  show "confined R (if ag_role me \<noteq> ''prime'' then write_event (ipc_err Unauthorized ''only the prime may kill agents'')
       else and_then (on_db (agent_get (ag_group me) agent)) (\<lambda>found.
         case found of
           None \<Rightarrow> write_event (ipc_err NotFound ''no such agent'')
         | Some _ \<Rightarrow> (\<lambda>s.
             let s1 = snd (kill_child (ag_group me) agent s);
                 s2 = snd (on_db_at (en_world e) (\<lambda>now. agent_set_status now (ag_group me) agent ''exited'' None) s1)
             in and_then (on_db (session_get (ag_group me) agent)) ?end_session s2)))"
    using write_event_bound confined_compose [OF tail stop_child_bound [OF me]]
    by (auto simp: Let_def intro!: confined_and_then reads_bound split: option.splits)
qed

lemma bus_requests_bound:
  assumes "\<forall>a. holder e token s = Some a \<longrightarrow> allowed (ag_group a)"
  shows "R s (snd (ipc_agent_send e token session kind payload s))"
    "R s (snd (ipc_agent_recv e live token so since follow consume s))" "R s (snd (ipc_whoami e token s))"
proof -
  show "R s (snd (ipc_agent_send e token session kind payload s))"
    unfolding ipc_agent_send_def
    by (rule with_agent_bound [OF assms])
      (auto intro!: confined_and_then reads_bound write_event_bound bus_enqueue_bound split: option.splits)
  show "R s (snd (ipc_agent_recv e live token so since follow consume s))"
    unfolding ipc_agent_recv_def
    by (rule with_agent_bound [OF assms])
      (auto simp: Let_def intro!: confined_and_then reads_bound write_event_bound recv_rows_bound agent_tail_bound confined_return)
  show "R s (snd (ipc_whoami e token s))"
    unfolding ipc_whoami_def by (rule with_agent_bound [OF assms]) (rule write_event_bound)
qed

end

section \<open>Workspaces\<close>

locale socket_effects = connection_effects R allowed
  for R :: "ipc_state \<Rightarrow> ipc_state \<Rightarrow> bool" and allowed :: "string \<Rightarrow> bool" +
  assumes session_new: "allowed (se_group srow) \<Longrightarrow> confined R (on_db (session_create srow))"
    and files: "R s (s\<lparr>cx_fs := f\<rparr>)"
begin

lemma rollback_bound:
  assumes "allowed (sa_group a)"
  shows "R s (discard_ws e a ws s)" "R s (discard_ws e a ws (mark_exited e a s))"
proof -
  show d: "R s (discard_ws e a ws s)" for s by (simp add: discard_ws_def files)
  have "R s (mark_exited e a s)" unfolding mark_exited_def by (rule confinedD [OF set_status [OF assms]])
  then show "R s (discard_ws e a ws (mark_exited e a s))" by (rule bound_trans [OF _ d])
qed

lemma launch_bound:
  assumes "allowed (sa_group a)"
  shows "confined R (launch e a ws token)"
proof (rule confinedI)
  fix s :: ipc_state
  let ?start = "supervisor_start (en_json e) (en_world e) (en_proc e) (supervised_of a) (harness_spec e a ws token) s"
  obtain r t where st: "?start = (r, t)" by fastforce
  have "allowed (sv_group (supervised_of a))" using assms by (simp add: supervised_of_def)
  from supervisor_start_bound [OF this] st have t: "R s t" by (metis snd_conv)
  have "R s (t\<lparr>cx_tasks := ts\<rparr>)" "R s (discard_ws e a ws (mark_exited e a t))" for ts
    using t tasks rollback_bound(2) [OF assms] bound_trans by metis+
  with st show "R s (snd (launch e a ws token s))" by (cases r) (simp_all add: launch_def Let_def)
qed

lemma spawn_session_bound:
  assumes "allowed (sa_group a)"
  shows "confined R (spawn_session e a)"
proof -
  have fail: "confined R (already_exists a)" unfolding already_exists_def by (rule confined_return)
  have "confined R (name_taken e a)"
    unfolding name_taken_def
    by (intro confined_and_then spawn_db_bound reads_bound)
      (auto intro!: confined_and_then spawn_db_bound reads_bound confined_return)
  moreover have "confined R (provision_ws e a)"
    by (rule confinedI) (auto simp: provision_ws_def files split: prod.splits sum.splits)
  moreover have "confined R (spawn_rows e a ws token now)" for ws token now
  proof -
    have "confined R (on_db (agent_register (child_row (en_crates e) a token now)))"
      "confined R (on_db (session_create (session_row a ws now)))"
      using assms by (auto intro!: agent_new session_new simp: child_row_def session_row_def)
    then show ?thesis
      unfolding spawn_rows_def using assms
      by (auto intro!: confined_and_then spawn_db_bound launch_bound confined_compose [OF fail] rollback_bound)
  qed
  ultimately show ?thesis
    unfolding spawn_session_def by (auto intro!: confined_and_then spawn_db_bound draws_bound fail)
qed

lemma spawn_request_bound:
  assumes "\<forall>a. holder e (sp_token r) s = Some a \<longrightarrow> allowed (ag_group a)"
  shows "R s (snd (ipc_spawn e r s))"
  unfolding ipc_spawn_def
proof (rule with_agent_bound [OF assms], rule confinedI)
  fix me :: AgentRow and t :: ipc_state
  assume me: "allowed (ag_group me)"
  have w: "R u (snd (write_event ev u))" for ev u by (rule confinedD [OF write_event_bound])
  have "R t (snd (spawn_session e (spawn_args (ag_name me) r) t))" if "ag_group me = sp_group r"
    using me that by (intro confinedD [OF spawn_session_bound]) (simp add: spawn_args_def)
  then show "R t (snd ((if ag_group me \<noteq> sp_group r \<or> ag_role me \<noteq> ''prime''
       then write_event (ipc_err Unauthorized (''spawn requires the group'' @ apo @ ''s prime token''))
       else (\<lambda>s.
         case spawn_session e (spawn_args (ag_name me) r) s of
           (Inr out, s') \<Rightarrow> write_event (EvSpawned (sp_group r) (sp_session r) (so_child_token out) (so_workspace out)) s'
         | (Inl (cd, msg), s') \<Rightarrow> write_event (ipc_err cd msg) s')) t))"
    using w by (auto intro: bound_trans split: prod.splits sum.splits)
qed

lemma close_request_bound:
  assumes "\<forall>a. holder e token s = Some a \<longrightarrow> allowed (ag_group a)"
  shows "R s (snd (ipc_session_close e token session discard s))"
  unfolding ipc_session_close_def
proof (rule with_agent_bound [OF assms])
  fix me :: AgentRow
  assume me: "allowed (ag_group me)"
  let ?closed = "\<lambda>sess s3. s3\<lparr>cx_fs := snd (teardown (en_host e) (se_workspace_path sess) (se_base_dir sess)
       (fs_mode_of (se_fs_mode sess)) (se_branch sess) discard (cx_fs s3))\<rparr>"
  have tail: "confined R (and_then (on_db (session_close (ag_group me) session)) (\<lambda>_ s3. write_event EvOk (?closed sess s3)))" for sess
    by (intro confined_and_then close [OF me] confinedI bound_after [OF write_event_bound] files)
  show "confined R (if ag_role me \<noteq> ''prime'' then write_event (ipc_err Unauthorized ''only the prime may close sessions'')
       else and_then (on_db (session_get (ag_group me) session)) (\<lambda>found.
         case found of
           None \<Rightarrow> write_event (ipc_err NotFound ''no such session'')
         | Some sess \<Rightarrow> (\<lambda>s.
             let s1 = snd (kill_child (ag_group me) (se_child_agent sess) s);
                 s2 = snd (on_db_at (en_world e)
                        (\<lambda>now. agent_set_status now (ag_group me) (se_child_agent sess) ''exited'' None) s1)
             in and_then (on_db (session_close (ag_group me) session)) (\<lambda>_ s3. write_event EvOk (?closed sess s3)) s2)))"
    using write_event_bound confined_compose [OF tail stop_child_bound [OF me]]
    by (auto simp: Let_def intro!: confined_and_then reads_bound split: option.splits)
qed

lemma token_request_bound:
  assumes "req_token req = Some token" and "\<forall>a. holder e token s = Some a \<longrightarrow> allowed (ag_group a)"
  shows "R s (snd (dispatch e tls req s))"
  using assms
  by (cases req)
    (auto simp: dispatch_def intro: spawn_request_bound kill_request_bound close_request_bound bus_requests_bound)

end

end
