(* ===== verification/Wt_Guard.thy ===== *)
theory Wt_Guard
  imports Wt_Requests
begin

text \<open>
  Who may do what over the local socket: a request that carries a bearer token acts only as the agent
  the token was issued to, and on that agent's group.  The first part is the relation \<open>spares\<close>, by which
  nothing of a group changes, as an interpretation of \<open>socket_effects\<close>.
\<close>

section \<open>What a group owns\<close>

text \<open>The agents, sessions, bus rows, published bus events and running children of a group.\<close>

record group_view =
  gv_agents :: "AgentRow list"
  gv_sessions :: "SessionRow list"
  gv_msgs :: "AgentMsgRow list"
  gv_events :: "BusEvent list"
  gv_children :: "((string \<times> string) \<times> nat) list"

definition view :: "string \<Rightarrow> 'z daemon_scheme \<Rightarrow> group_view" where
  "view g s =
     \<lparr>gv_agents = filter (\<lambda>r. ag_group r = g) (db_agents (dm_db s)),
      gv_sessions = filter (\<lambda>r. se_group r = g) (db_sessions (dm_db s)),
      gv_msgs = filter (\<lambda>r. am_group r = g) (db_agent_messages (dm_db s)),
      gv_events = filter (\<lambda>ev. be_group ev = g) (dm_agent_bcast s),
      gv_children = filter (\<lambda>p. fst (fst p) = g) (dm_children s)\<rparr>"

definition db_view :: "string \<Rightarrow> db \<Rightarrow> AgentRow list \<times> SessionRow list \<times> AgentMsgRow list" where
  "db_view g d = (filter (\<lambda>r. ag_group r = g) (db_agents d), filter (\<lambda>r. se_group r = g) (db_sessions d),
     filter (\<lambda>r. am_group r = g) (db_agent_messages d))"

text \<open>Nothing of the group changes.\<close>

definition spares :: "string \<Rightarrow> 'z daemon_scheme \<Rightarrow> 'z daemon_scheme \<Rightarrow> bool" where
  "spares g s t \<longleftrightarrow> view g t = view g s"

lemma sparesI_db: "dm_agent_bcast t = dm_agent_bcast s \<Longrightarrow> dm_children t = dm_children s
    \<Longrightarrow> db_view g (dm_db t) = db_view g (dm_db s) \<Longrightarrow> spares g s t"
  by (simp add: spares_def view_def db_view_def)

section \<open>Store calls\<close>

lemma filter_sql_update:
  assumes "\<And>r. P r \<Longrightarrow> \<not> Q r" and "\<And>r. Q (f r) = Q r"
  shows "filter Q (snd (sql_update P f rows)) = filter Q rows"
  using assms by (induction rows) (auto simp: sql_update_def)

lemma confined_on_db:
  assumes "\<And>d. db_view g (snd (f d)) = db_view g d"
  shows "confined (spares g) (on_db f)"
  by (rule confinedI, rule sparesI_db) (simp_all add: assms)

lemma confined_on_db_at:
  assumes "\<And>now d. db_view g (snd (f now d)) = db_view g d"
  shows "confined (spares g) (on_db_at w f)"
  by (rule confinedI, rule sparesI_db) (simp_all add: assms)

named_theorems spare_db

lemma spare_agent_set_status [spare_db]: "h \<noteq> g \<Longrightarrow> db_view g (snd (agent_set_status now h n st pid d)) = db_view g d"
  by (simp add: agent_set_status_def call_def db_view_def) (auto intro!: filter_sql_update)

lemma spare_session_close [spare_db]: "h \<noteq> g \<Longrightarrow> db_view g (snd (session_close h n d)) = db_view g d"
  by (simp add: session_close_def call_def db_view_def case_prod_unfold) (auto intro!: filter_sql_update)

lemma spare_agent_register [spare_db]: "ag_group row \<noteq> g \<Longrightarrow> db_view g (snd (agent_register row d)) = db_view g d"
  by (simp add: agent_register_def call_def db_view_def case_prod_unfold sql_insert_or_ignore_def)

lemma spare_session_create [spare_db]: "se_group row \<noteq> g \<Longrightarrow> db_view g (snd (session_create row d)) = db_view g d"
  by (simp add: session_create_def call_def db_view_def case_prod_unfold sql_insert_or_ignore_def)

lemma spare_mark_consumed [spare_db]: "h \<noteq> g \<Longrightarrow> db_view g (snd (agent_msg_mark_consumed now h sn sq d)) = db_view g d"
  by (simp add: agent_msg_mark_consumed_def call_def db_view_def) (auto intro!: filter_sql_update simp: am_scope_def)

lemma spare_enqueue [spare_db]: "h \<noteq> g \<Longrightarrow> db_view g (snd (agent_msg_enqueue now h sn f t k pl d)) = db_view g d"
  by (auto simp: agent_msg_enqueue_def call_def db_view_def Let_def sql_delete_def am_scope_def filter_filter
      intro!: filter_cong split: option.splits)

lemma spare_agent_touch [spare_db]: "h \<noteq> g \<Longrightarrow> db_view g (snd (agent_touch now h n d)) = db_view g d"
  by (simp add: agent_touch_def call_def db_view_def) (auto intro!: filter_sql_update)

section \<open>Children\<close>

lemma filter_delete: "(\<And>v. \<not> Q (k, v)) \<Longrightarrow> filter Q (AList.delete k xs) = filter Q xs"
  by (induction xs) auto

lemma filter_update: "(\<And>v. \<not> Q (k, v)) \<Longrightarrow> filter Q (AList.update k v xs) = filter Q xs"
  by (induction xs) auto

lemma spare_kill: "h \<noteq> g \<Longrightarrow> spares g s (snd (kill_child h n s))"
  by (auto simp: kill_child_def spares_def view_def filter_delete split: option.splits)

lemma spare_register: "h \<noteq> g \<Longrightarrow> spares g s (register_child h n k s)"
  by (simp add: register_child_def spares_def view_def filter_update)

lemma spare_forget: "h \<noteq> g \<Longrightarrow> spares g s (forget_child h n s)"
  by (simp add: forget_child_def spares_def view_def filter_delete)

section \<open>Every effect outside the group leaves it alone\<close>

lemma spare_plain:
  "spares g s s" "spares g s t \<Longrightarrow> spares g t u \<Longrightarrow> spares g s u"
  "be_group ev \<noteq> g \<Longrightarrow> spares g s (s\<lparr>dm_agent_bcast := dm_agent_bcast s @ [ev]\<rparr>)"
  "spares g x (x\<lparr>cx_out := out, cx_room := room\<rparr>)" "spares g x (x\<lparr>cx_fs := f\<rparr>)" "spares g x (x\<lparr>cx_tasks := ts\<rparr>)"
  "spares g s (s\<lparr>dm_tick := i\<rparr>)" "spares g s (s\<lparr>dm_rands := i\<rparr>)"
  by (simp_all add: spares_def view_def)

interpretation spared: socket_effects "spares g" "\<lambda>h. h \<noteq> g"
  by unfold_locales
    (auto intro: spare_plain spare_kill spare_register spare_forget confined_on_db confined_on_db_at spare_db)

section \<open>Requests the guards refuse\<close>

text \<open>The holder may make the request: the group's prime for a launch, a prime to stop agents and close
  sessions, any agent otherwise.\<close>

fun may_request :: "AgentRow \<Rightarrow> IpcRequest \<Rightarrow> bool" where
  "may_request a (ReqSpawn r) \<longleftrightarrow> ag_group a = sp_group r \<and> ag_role a = ''prime''"
| "may_request a (ReqAgentKill _ _) \<longleftrightarrow> ag_role a = ''prime''"
| "may_request a (ReqSessionClose _ _ _) \<longleftrightarrow> ag_role a = ''prime''"
| "may_request a _ \<longleftrightarrow> True"

definition reply :: "IpcEvent \<Rightarrow> ipc_state \<Rightarrow> ipc_state" where
  "reply ev s = s\<lparr>cx_out := cx_out s @ [ev]\<rparr>"

lemma write_event_reply: "cx_room s = None \<Longrightarrow> write_event ev s = (Inr (), reply ev s)"
  by (cases s) (simp add: write_event_def reply_def)

lemma resolve_holder:
  "db_ok (dm_db s) \<Longrightarrow> resolve_agent e token s = (Inr (holder e token s), s)"
  by (simp add: resolve_agent_def holder_def on_db_def agent_by_token_def call_ok)

lemma with_agent_ok:
  "db_ok (dm_db s) \<Longrightarrow> with_agent e token body s =
     (case holder e token s of
        None \<Rightarrow> write_event (ipc_err Unauthorized ''unknown or invalid wt token'') s
      | Some a \<Rightarrow> body a s)"
  by (simp add: with_agent_def and_then_def resolve_holder split: option.splits)

lemma refused_request:
  assumes "db_ok (dm_db s)" "cx_room s = None" "req_token req = Some token"
    and "case holder e token s of Some a \<Rightarrow> \<not> may_request a req | None \<Rightarrow> True"
  shows "\<exists>msg. dispatch e tls req s = (Inr (), reply (ipc_err Unauthorized msg) s)"
  using assms
  by (cases req)
    (auto simp: dispatch_def ipc_spawn_def ipc_agent_send_def ipc_agent_recv_def ipc_agent_kill_def ipc_session_close_def
      ipc_whoami_def with_agent_ok write_event_reply split: option.splits)

section \<open>Properties\<close>

text \<open>
  C5 The group boundary.  A request that carries a bearer token, whatever it asks for and however it ends,
  leaves every other group as it was: no agent row, session row or bus message of a group the token's
  holder is not in changes, none of its children is started or stopped and no event is published to it.
\<close>

theorem group_isolation:
  assumes "req_token req = Some token"
    and "\<forall>a. holder e token s = Some a \<longrightarrow> ag_group a \<noteq> g"
  shows "view g (snd (dispatch e tls req s)) = view g s"
  using spared.token_request_bound [OF assms] by (simp add: spares_def)

text \<open>
  C16 Authorisation.  A token nobody holds, a launch requested by anyone but the group's own prime, and a
  kill or a close requested by an agent that is not a prime are answered with one \<open>Unauthorized\<close> error,
  and nothing else about the daemon changes.
\<close>

theorem unauthorised_refused:
  assumes "db_ok (dm_db s)" and "cx_room s = None" and "req_token req = Some token"
    and "\<forall>a. holder e token s = Some a \<longrightarrow> \<not> may_request a req"
  shows "\<exists>msg. dispatch e tls req s = (Inr (), s\<lparr>cx_out := cx_out s @ [ipc_err Unauthorized msg]\<rparr>)"
  using refused_request [OF assms(1-3), of e tls] assms(4) by (simp add: reply_def split: option.splits)

text \<open>A connection to an empty daemon whose child processes do not start.\<close>

definition sample_env :: env where
  "sample_env =
     \<lparr>en_crates = sample_crates, en_json = sample_json_crate, en_world = sample_world, en_host = sample_host,
      en_proc = (\<lambda>spec. None), en_harness_cmd = None,
      en_ticket = \<lparr>tk_nodeid = sample_node 1, relay_url = None, direct_addrs = []\<rparr>,
      en_show = (\<lambda>err. ''error''), en_show_chain = (\<lambda>err. ''error''), en_show_cbor = (\<lambda>b. ''cbor''),
      en_req_dec = (\<lambda>b. None)\<rparr>"

definition sample_tails :: tails where
  "sample_tails = \<lparr>tl_recv = [], tl_agent = []\<rparr>"

definition sample_agent :: "string \<Rightarrow> string \<Rightarrow> string \<Rightarrow> string \<Rightarrow> AgentRow" where
  "sample_agent g n token role =
     \<lparr>ag_group = g, ag_name = n, ag_token_hash = agent_token_hash sample_crates token, ag_role = role, ag_dir = None,
      ag_pid = None, ag_status = ''running'', ag_created_at_ms = 1, ag_last_seen_ms = None\<rparr>"

definition sample_conn :: "db \<Rightarrow> ipc_state" where
  "sample_conn d =
     daemon.extend (sample_daemon\<lparr>dm_db := d\<rparr>)
       \<lparr>cx_out = [], cx_room = None, cx_fs = sample_disk, cx_lan = None, cx_tasks = []\<rparr>"

lemma sample_conn_simps [simp]:
  "dm_db (sample_conn d) = d" "cx_out (sample_conn d) = []" "cx_room (sample_conn d) = None" "cx_fs (sample_conn d) = sample_disk"
  "cx_lan (sample_conn d) = None" "cx_tasks (sample_conn d) = []" "dm_children (sample_conn d) = []"
  "dm_agent_bcast (sample_conn d) = []" "dm_tick (sample_conn d) = 0" "dm_rands (sample_conn d) = 0"
  by (simp_all add: sample_conn_def daemon.defs sample_daemon_def daemon_start_def)

definition sample_guard_db :: db where
  "sample_guard_db = sample_db\<lparr>db_agents := [sample_agent ''g'' ''c'' ''t'' ''child'', sample_agent ''h'' ''x'' ''u'' ''child'']\<rparr>"

lemma sample_guard_ok: "db_ok sample_guard_db"
  by (simp add: sample_guard_db_def sample_db_def db_ok_def)

lemma sample_holder: "holder sample_env ''t'' (sample_conn sample_guard_db) = Some (sample_agent ''g'' ''c'' ''t'' ''child'')"
  by (simp add: holder_def agent_by_token_def call_ok [OF sample_guard_ok] sample_env_def)
    (simp add: sample_guard_db_def sql_query_row_def sample_agent_def)

lemma group_isolation_witness:
  "gv_agents (view ''h'' (snd (dispatch sample_env sample_tails (ReqAgentKill ''t'' ''x'') (sample_conn sample_guard_db))))
     = [sample_agent ''h'' ''x'' ''u'' ''child'']"
proof -
  have "\<forall>a. holder sample_env ''t'' (sample_conn sample_guard_db) = Some a \<longrightarrow> ag_group a \<noteq> ''h''"
    by (simp add: sample_holder sample_agent_def)
  from group_isolation [OF _ this, of "ReqAgentKill ''t'' ''x''" sample_tails] show ?thesis
    by (simp add: view_def) (simp add: sample_guard_db_def sample_agent_def)
qed

lemma unauthorised_refused_witness:
  "\<exists>msg. dispatch sample_env sample_tails (ReqAgentKill ''t'' ''x'') (sample_conn sample_guard_db)
     = (Inr (), (sample_conn sample_guard_db)\<lparr>cx_out := [ipc_err Unauthorized msg]\<rparr>)"
proof -
  let ?s = "sample_conn sample_guard_db"
  have "\<forall>a. holder sample_env ''t'' ?s = Some a \<longrightarrow> \<not> may_request a (ReqAgentKill ''t'' ''x'')"
    by (simp add: sample_holder sample_agent_def)
  from unauthorised_refused [OF _ _ req_token.simps(4) this, of sample_tails] show ?thesis
    by (simp add: sample_guard_ok)
qed

end
