(* ===== verification/Wt_Sessions.thy ===== *)
theory Wt_Sessions
  imports Wt_Guard
begin

text \<open>
  What a client of the local socket sees: a new group's token works, a consuming reader gets every
  message once, a launch that fails is undone, and a connection answers the requests of its bytes in
  order.
\<close>

declare handle_ipc_conn.simps [simp del]

section \<open>Lemmas: a new group\<close>

lemma reply_simps [simp]:
  "dm_db (reply ev s) = dm_db s" "cx_room (reply ev s) = cx_room s" "cx_out (reply ev s) = cx_out s @ [ev]"
  "cx_fs (reply ev s) = cx_fs s" "cx_tasks (reply ev s) = cx_tasks s" "dm_children (reply ev s) = dm_children s"
  "dm_tick (reply ev s) = dm_tick s" "dm_rands (reply ev s) = dm_rands s" "dm_agent_bcast (reply ev s) = dm_agent_bcast s"
  by (simp_all add: reply_def)

definition group_db :: "env \<Rightarrow> string \<Rightarrow> string \<Rightarrow> ipc_state \<Rightarrow> db" where
  "group_db e name token s =
     (let d = dm_db s in
      d\<lparr>db_groups := db_groups d @ [\<lparr>gr_name = name, gr_created_at_ms = w_ms (en_world e) (dm_tick s)\<rparr>],
        db_agents := db_agents d @ [prime_row (en_crates e) name token (w_ms (en_world e) (Suc (dm_tick s)))]\<rparr>)"

lemma group_new_fresh:
  assumes "db_ok (dm_db s)" "cx_room s = None" "\<forall>r\<in>set (db_groups (dm_db s)). gr_name r \<noteq> name"
    and token: "token = new_agent_token (en_crates e) (take 32 (w_rand (en_world e) (dm_rands s)))"
    and "\<forall>a\<in>set (db_agents (dm_db s)). ag_group a \<noteq> name \<and> ag_token_hash a \<noteq> agent_token_hash (en_crates e) token"
  shows "ipc_group_new e name s = (Inr (), reply (EvGroupCreated name token)
      (s\<lparr>dm_rands := Suc (dm_rands s), dm_tick := Suc (Suc (dm_tick s)), dm_db := group_db e name token s\<rparr>))"
proof -
  define d where "d = (dm_db s)\<lparr>db_groups := db_groups (dm_db s) @ [\<lparr>gr_name = name, gr_created_at_ms = w_ms (en_world e) (dm_tick s)\<rparr>]\<rparr>"
  define row where "row = prime_row (en_crates e) name token (w_ms (en_world e) (Suc (dm_tick s)))"
  have g: "group_create (w_ms (en_world e) (dm_tick s)) name (dm_db s) = (Inr True, d)"
    using assms(1,3) by (auto simp: group_create_def call_ok sql_insert_or_ignore_def group_conflict_def list_ex_iff d_def)
  have ok: "db_ok d" using assms(1) by (simp add: d_def db_ok_def)
  have "\<not> list_ex (agent_conflict row) (db_agents d)"
    using assms(5) by (auto simp: list_ex_iff agent_conflict_def row_def prime_row_def d_def)
  then have a: "agent_register row d = (Inr True, group_db e name token s)"
    using ok by (simp add: agent_register_def call_ok sql_insert_or_ignore_def group_db_def d_def row_def Let_def)
  show ?thesis
    using g a assms(2)
    by (simp add: ipc_group_new_def and_then_def on_db_at_def on_db_def draw_def unix_ms_def Let_def token [symmetric]
        row_def [symmetric] write_event_reply)
qed

lemma group_new_taken:
  assumes "db_ok (dm_db s)" "cx_room s = None" "\<exists>r\<in>set (db_groups (dm_db s)). gr_name r = name"
  shows "ipc_group_new e name s
     = (Inr (), reply (ipc_err BadRequest (''group '' @ [CHR 0x27] @ name @ [CHR 0x27] @ '' already exists''))
         (s\<lparr>dm_tick := Suc (dm_tick s)\<rparr>))"
proof -
  have "list_ex (group_conflict \<lparr>gr_name = name, gr_created_at_ms = now\<rparr>) (db_groups (dm_db s))" for now
    using assms(3) by (auto simp: list_ex_iff group_conflict_def)
  then have "group_create now name (dm_db s) = (Inr False, dm_db s)" for now
    using assms(1) by (simp add: group_create_def call_ok sql_insert_or_ignore_def)
  then show ?thesis using assms(2) by (simp add: ipc_group_new_def and_then_def on_db_at_def on_db_def write_event_reply)
qed

lemma whoami_reply:
  assumes "db_ok (dm_db s)" "cx_room s = None" "holder e token s = Some a"
  shows "ipc_whoami e token s = (Inr (), reply (EvWhoAmIInfo (who_am_i a)) s)"
  using assms by (simp add: ipc_whoami_def with_agent_ok write_event_reply)

lemma new_prime_holds:
  assumes "db_ok (dm_db s)" "\<forall>a\<in>set (db_agents (dm_db s)). ag_token_hash a \<noteq> agent_token_hash (en_crates e) token"
  shows "holder e token (u\<lparr>dm_db := group_db e name token s\<rparr>)
     = Some (prime_row (en_crates e) name token (w_ms (en_world e) (Suc (dm_tick s))))"
proof -
  have "db_ok (group_db e name token s)" using assms(1) by (simp add: group_db_def db_ok_def Let_def)
  moreover have "find P (xs @ [y]) = Some y" if "\<forall>x\<in>set xs. \<not> P x" "P y" for P and xs :: "AgentRow list" and y
    using that by (induction xs) auto
  ultimately show ?thesis
    using assms(2) by (simp add: holder_def agent_by_token_def call_ok sql_query_row_def) (simp add: group_db_def Let_def prime_row_def)
qed

section \<open>Lemmas: the bytes of a connection\<close>

text \<open>What a connection does with the bodies of its frames; \<open>fin\<close> is how the input ends.\<close>

fun serve_frames :: "env \<Rightarrow> tails \<Rightarrow> conn_error + unit \<Rightarrow> bytes list \<Rightarrow> ipc_state \<Rightarrow> (conn_error + unit) \<times> ipc_state" where
  "serve_frames e tls fin [] s = (fin, s)"
| "serve_frames e tls fin (buf # bufs) s =
     (case (case en_req_dec e buf of
              None \<Rightarrow> write_event (ipc_err BadRequest (''decode request: '' @ en_show_cbor e buf)) s
            | Some req \<Rightarrow> serve e tls req s) of
        (Inl err, s') \<Rightarrow> (Inl (ConnWrite err), s')
      | (Inr _, s') \<Rightarrow>
          if (case en_req_dec e buf of Some req \<Rightarrow> want_stream req | None \<Rightarrow> False) then (Inr (), s')
          else serve_frames e tls fin bufs s')"

definition ipc_fits :: "bytes \<Rightarrow> bool" where
  "ipc_fits buf \<longleftrightarrow> length buf \<le> unat MAX_IPC_FRAME"

lemma ipc_fits_len:
  assumes "ipc_fits buf"
  shows "unat (of_nat (length buf) :: u32) = length buf" "\<not> (of_nat (length buf) :: u32) > MAX_IPC_FRAME"
proof -
  have l: "length buf \<le> 67108864" using assms by (simp add: ipc_fits_def MAX_IPC_FRAME_def)
  then show u: "unat (of_nat (length buf) :: u32) = length buf" by (simp add: unat_of_nat)
  show "\<not> (of_nat (length buf) :: u32) > MAX_IPC_FRAME" using l u by (simp add: word_less_nat_alt MAX_IPC_FRAME_def)
qed

lemma ipc_frame_read:
  assumes "ipc_fits buf"
  shows "ipc_read_frame \<lparr>rs_in = frame_bytes buf @ rest, rs_end = fin\<rparr>
     = (Inr (Some buf), \<lparr>rs_in = rest, rs_end = fin\<rparr>)"
  using ipc_fits_len [OF assms] by (simp add: ipc_read_frame_def read_exact_def frame_bytes_def Let_def)

lemma ipc_frame_cut:
  assumes "ipc_fits buf" "k < length (frame_bytes buf)"
  shows "fst (ipc_read_frame \<lparr>rs_in = take k (frame_bytes buf), rs_end = Finished\<rparr>)
     = (if k < 4 then Inr None else Inl IpcReadBody)"
proof (cases "k < 4")
  case True
  then show ?thesis by (simp add: ipc_read_frame_def read_exact_def frame_bytes_def)
next
  case False
  with ipc_fits_len [OF assms(1)] assms(2) show ?thesis
    by (auto simp: ipc_read_frame_def read_exact_def frame_bytes_def Let_def)
qed

lemma handle_conn_frames:
  assumes "list_all ipc_fits bufs"
    and fin: "\<And>s. handle_ipc_conn e tls \<lparr>rs_in = rest, rs_end = se\<rparr> s = (fin, s)"
  shows "handle_ipc_conn e tls \<lparr>rs_in = concat (map frame_bytes bufs) @ rest, rs_end = se\<rparr> s = serve_frames e tls fin bufs s"
  using assms(1)
proof (induction bufs arbitrary: s)
  case Nil
  then show ?case by (simp add: fin)
next
  case (Cons buf bufs)
  then have "ipc_fits buf" and IH: "handle_ipc_conn e tls \<lparr>rs_in = concat (map frame_bytes bufs) @ rest, rs_end = se\<rparr> t
      = serve_frames e tls fin bufs t" for t by simp_all
  then show ?case
    by (subst handle_ipc_conn.simps)
      (simp add: ipc_frame_read split: option.split sum.split prod.split)
qed

section \<open>Lemmas: a consuming reader\<close>

lemma show_and_mark_consume:
  assumes "cx_room s = None"
  shows "show_and_mark e True grp sess sq ev s
     = (Inr (), snd (on_db_at (en_world e) (\<lambda>now. agent_msg_mark_consumed now grp sess sq) (reply ev s)))"
  using assms by (simp add: show_and_mark_def and_then_def write_event_reply ignore_def)

lemma recv_rows_consumes:
  assumes "db_ok (dm_db s)" "bus_unique (db_agent_messages (dm_db s))" "cx_room s = None" "distinct rows"
    and "\<forall>x\<in>set rows. x \<in> set (db_agent_messages (dm_db s)) \<and> am_group x = grp \<and> am_consumed_at_ms x = None"
  shows "\<exists>d n. recv_rows e True grp rows s = (Inr (), s\<lparr>cx_out := cx_out s @ map backlog_event rows, dm_tick := n, dm_db := d\<rparr>)
    \<and> db_ok d \<and> bus_unique (db_agent_messages d) \<and> db_agents d = db_agents (dm_db s)
    \<and> (\<forall>Q. (\<forall>x. Q x \<longrightarrow> am_consumed_at_ms x = None) \<longrightarrow>
         filter Q (db_agent_messages d) = filter (\<lambda>x. Q x \<and> x \<notin> set rows) (db_agent_messages (dm_db s)))"
  using assms
proof (induction rows arbitrary: s)
  case Nil
  then show ?case by (intro exI [where x = "dm_db s"] exI [where x = "dm_tick s"]) simp
next
  case (Cons row rows)
  define s1 where "s1 = snd (on_db_at (en_world e) (\<lambda>now. agent_msg_mark_consumed now grp (am_session row) (am_seq row))
      (reply (backlog_event row) s))"
  define d1 where "d1 = snd (agent_msg_mark_consumed (w_ms (en_world e) (dm_tick s)) grp (am_session row) (am_seq row) (dm_db s))"
  have row: "row \<in> set (db_agent_messages (dm_db s))" "am_group row = grp" using Cons.prems(5) by simp_all
  have s1: "s1 = s\<lparr>cx_out := cx_out s @ [backlog_event row], dm_tick := Suc (dm_tick s), dm_db := d1\<rparr>"
    using Cons.prems(1) by (simp add: s1_def d1_def on_db_at_def on_db_def reply_def agent_msg_mark_consumed_def call_ok)
  have ok: "db_ok (dm_db s1)" "bus_unique (db_agent_messages (dm_db s1))" "cx_room s1 = None" "db_agents d1 = db_agents (dm_db s)"
    using Cons.prems(1,3) mark_consumed_unique [OF Cons.prems(2)]
    by (simp_all add: s1) (simp_all add: d1_def agent_msg_mark_consumed_def call_ok db_ok_def)
  have drop: "filter Q (db_agent_messages d1) = filter (\<lambda>x. Q x \<and> x \<noteq> row) (db_agent_messages (dm_db s))"
    if "\<And>x. Q x \<Longrightarrow> am_consumed_at_ms x = None" for Q
    using mark_consumed_filter [OF Cons.prems(1,2) row(1) that d1_def [folded row(2)]] by blast
  have "x \<in> set (db_agent_messages (dm_db s1)) \<and> am_group x = grp \<and> am_consumed_at_ms x = None" if "x \<in> set rows" for x
  proof -
    have "x \<in> set (filter (\<lambda>x. am_consumed_at_ms x = None \<and> x \<noteq> row) (db_agent_messages (dm_db s)))"
      using that Cons.prems(4,5) by auto
    then have "x \<in> set (filter (\<lambda>x. am_consumed_at_ms x = None) (db_agent_messages d1))"
      using drop [of "\<lambda>x. am_consumed_at_ms x = None"] by simp
    with that Cons.prems(5) show ?thesis by (simp add: s1)
  qed
  with Cons.IH [OF ok(1-3)] Cons.prems(4) obtain d n where
    d: "recv_rows e True grp rows s1 = (Inr (), s1\<lparr>cx_out := cx_out s1 @ map backlog_event rows, dm_tick := n, dm_db := d\<rparr>)"
    "db_ok d" "bus_unique (db_agent_messages d)" "db_agents d = db_agents (dm_db s1)"
    and Q: "\<And>Q. (\<forall>x. Q x \<longrightarrow> am_consumed_at_ms x = None) \<Longrightarrow>
         filter Q (db_agent_messages d) = filter (\<lambda>x. Q x \<and> x \<notin> set rows) (db_agent_messages (dm_db s1))"
    by auto
  have "filter Q (db_agent_messages d) = filter (\<lambda>x. Q x \<and> x \<notin> set (row # rows)) (db_agent_messages (dm_db s))"
    if "\<forall>x. Q x \<longrightarrow> am_consumed_at_ms x = None" for Q
  proof -
    have "filter Q (db_agent_messages d) = filter (\<lambda>x. (Q x \<and> x \<notin> set rows) \<and> x \<noteq> row) (db_agent_messages (dm_db s))"
      using Q [OF that] drop [of "\<lambda>x. Q x \<and> x \<notin> set rows"] that by (simp add: s1)
    then show ?thesis by (simp add: conj_ac)
  qed
  moreover have "recv_rows e True grp (row # rows) s = recv_rows e True grp rows s1"
    using Cons.prems(3) by (simp add: and_then_def show_and_mark_consume s1_def)
  ultimately show ?case using d ok(4)
    by (intro exI [where x = d] exI [where x = n]) (simp add: s1)
qed

text \<open>The messages a consuming reader is owed.\<close>

definition unread :: "AgentRow \<Rightarrow> string option \<Rightarrow> AgentMsgRow \<Rightarrow> bool" where
  "unread me session r \<longleftrightarrow> am_group r = ag_group me \<and> am_to r = ag_name me \<and> null_or_eq session (am_session r)
     \<and> as_i64 (am_enqueued_at_ms r) > 0 \<and> am_consumed_at_ms r = None"

definition unread_rows :: "env \<Rightarrow> AgentRow \<Rightarrow> string option \<Rightarrow> 'z daemon_scheme \<Rightarrow> AgentMsgRow list" where
  "unread_rows e me session s =
     sql_order_by (\<lambda>r. (as_i64 (am_enqueued_at_ms r), am_sq r))
       (w_bus_plan (en_world e) (filter (unread me session) (db_agent_messages (dm_db s))))"

lemma unread_rows_props:
  assumes "bus_unique (db_agent_messages (dm_db s))" "is_plan (w_bus_plan (en_world e))"
  shows "distinct (unread_rows e me session s)" "set (unread_rows e me session s) = {r \<in> set (db_agent_messages (dm_db s)). unread me session r}"
    "sorted (map (\<lambda>r. (as_i64 (am_enqueued_at_ms r), am_sq r)) (unread_rows e me session s))"
    "length (unread_rows e me session s) = length (filter (unread me session) (db_agent_messages (dm_db s)))"
proof -
  let ?f = "filter (unread me session) (db_agent_messages (dm_db s))"
  have m: "mset (unread_rows e me session s) = mset ?f"
    by (simp add: unread_rows_def sql_order_by_def is_plan_mset [OF assms(2)])
  have "distinct ?f" using assms(1) by (auto simp: bus_unique_def intro: bus_t.unique_distinct distinct_filter)
  then show "distinct (unread_rows e me session s)" using mset_eq_imp_distinct_iff [OF m] by simp
  show "set (unread_rows e me session s) = {r \<in> set (db_agent_messages (dm_db s)). unread me session r}"
    using mset_eq_setD [OF m] by simp
  show "sorted (map (\<lambda>r. (as_i64 (am_enqueued_at_ms r), am_sq r)) (unread_rows e me session s))"
    by (simp add: unread_rows_def sorted_sql_order_by)
  show "length (unread_rows e me session s) = length ?f" using mset_eq_length [OF m] by simp
qed

lemma consuming_backlog:
  assumes "db_ok (dm_db s)" "bus_unique (db_agent_messages (dm_db s))" "is_plan (w_bus_plan (en_world e))"
    "length (filter (unread me session) (db_agent_messages (dm_db s))) \<le> 10000"
  shows "agent_msg_backlog (w_bus_plan (en_world e)) (ag_group me) (ag_name me) session None 10000 True (dm_db s)
     = (Inr (unread_rows e me session s), dm_db s)"
proof -
  let ?f = "\<lambda>r. am_group r = ag_group me \<and> am_to r = ag_name me \<and> null_or_eq session (am_session r)
      \<and> 0 < as_i64 (am_enqueued_at_ms r) \<and> am_consumed_at_ms r = None"
  have f: "?f = unread me session" by (simp add: unread_def fun_eq_iff)
  have "take 10000 (unread_rows e me session s) = unread_rows e me session s"
    using assms(4) unread_rows_props(4) [OF assms(2,3)] by simp
  then show ?thesis using assms(1)
    by (simp add: agent_msg_backlog_def call_ok Let_def sql_limit_def f unread_rows_def)
qed

lemma consuming_recv:
  assumes "db_ok (dm_db s)" "bus_unique (db_agent_messages (dm_db s))" "is_plan (w_bus_plan (en_world e))" "cx_room s = None"
    "holder e token s = Some me" "length (filter (unread me session) (db_agent_messages (dm_db s))) \<le> 10000"
  shows "\<exists>d n. ipc_agent_recv e live token session since False True s
      = (Inr (), s\<lparr>cx_out := cx_out s @ map backlog_event (unread_rows e me session s) @ [EvAgentBacklogEnd], dm_tick := n, dm_db := d\<rparr>)
    \<and> db_ok d \<and> bus_unique (db_agent_messages d) \<and> db_agents d = db_agents (dm_db s)
    \<and> filter (unread me session) (db_agent_messages d) = []"
proof -
  let ?rows = "unread_rows e me session s"
  note p = unread_rows_props [OF assms(2,3)]
  have "\<forall>x\<in>set ?rows. x \<in> set (db_agent_messages (dm_db s)) \<and> am_group x = ag_group me \<and> am_consumed_at_ms x = None"
    by (simp add: p(2)) (simp add: unread_def)
  from recv_rows_consumes [OF assms(1,2,4) p(1) this] obtain d n where
    d: "recv_rows e True (ag_group me) ?rows s = (Inr (), s\<lparr>cx_out := cx_out s @ map backlog_event ?rows, dm_tick := n, dm_db := d\<rparr>)"
    "db_ok d" "bus_unique (db_agent_messages d)" "db_agents d = db_agents (dm_db s)"
    and Q: "\<forall>Q. (\<forall>x. Q x \<longrightarrow> am_consumed_at_ms x = None) \<longrightarrow>
         filter Q (db_agent_messages d) = filter (\<lambda>x. Q x \<and> x \<notin> set ?rows) (db_agent_messages (dm_db s))" by blast
  have "filter (unread me session) (db_agent_messages d) = filter (\<lambda>x. unread me session x \<and> x \<notin> set ?rows) (db_agent_messages (dm_db s))"
    using Q by (simp add: unread_def)
  then have "filter (unread me session) (db_agent_messages d) = []" by (auto simp: p(2) filter_empty_conv)
  moreover have "ipc_agent_recv e live token session since False True s
      = (Inr (), s\<lparr>cx_out := cx_out s @ map backlog_event ?rows @ [EvAgentBacklogEnd], dm_tick := n, dm_db := d\<rparr>)"
    using assms(1,4,5) d(1) consuming_backlog [OF assms(1-3,6)]
    by (simp add: ipc_agent_recv_def with_agent_ok and_then_def on_db_def write_event_reply reply_def)
  ultimately show ?thesis using d by blast
qed

lemma holder_agents: "db_ok d \<Longrightarrow> db_ok (dm_db s) \<Longrightarrow> db_agents d = db_agents (dm_db s) \<Longrightarrow> dm_db t = d
    \<Longrightarrow> holder e token t = holder e token s"
  by (simp add: holder_def agent_by_token_def call_ok)

section \<open>Lemmas: launching\<close>

text \<open>Who the agents are, their changing columns aside.\<close>

definition agent_ids :: "db \<Rightarrow> (string \<times> string \<times> bytes \<times> string) list" where
  "agent_ids d = map (\<lambda>a. (ag_group a, ag_name a, ag_token_hash a, ag_role a)) (db_agents d)"

lemma set_status_ids [simp]: "agent_ids (snd (agent_set_status now g n st pid d)) = agent_ids d"
  by (simp add: agent_set_status_def call_def agent_ids_def sql_update_def)

text \<open>Operations of the daemon leave what extends its state alone.\<close>

lemma more_on_db_at [simp]: "daemon.more (snd (on_db_at w f s)) = daemon.more s"
  by (simp add: on_db_at_def on_db_def split: prod.splits sum.splits)

lemma more_bus_enqueue [simp]: "daemon.more (snd (bus_enqueue w g sess f t k pl s)) = daemon.more s"
proof -
  obtain r u where e: "on_db_at w (\<lambda>now. agent_msg_enqueue now g sess f t (kind_to_str k) pl) s = (r, u)" by fastforce
  have "daemon.more u = daemon.more s" using more_on_db_at [of w "\<lambda>now. agent_msg_enqueue now g sess f t (kind_to_str k) pl" s] by (simp add: e)
  with e show ?thesis by (cases r) (simp_all add: bus_enqueue_def and_then_def)
qed

lemma cx_more: "daemon.more t = daemon.more s \<Longrightarrow> cx_out t = cx_out s \<and> cx_room t = cx_room s \<and> cx_tasks t = cx_tasks s \<and> cx_fs t = cx_fs s"
  by (cases s, cases t) simp

lemma record_prompt_keeps:
  assumes "db_ok (dm_db s)"
  shows "agent_ids (dm_db (record_prompt w p prompt s)) = agent_ids (dm_db s) \<and> db_ok (dm_db (record_prompt w p prompt s))
    \<and> daemon.more (record_prompt w p prompt s) = daemon.more s"
proof -
  let ?enq = "bus_enqueue w (sv_group p) (sv_session p) (sv_prime p) (sv_session p) TurnInput (bytes_of prompt) s"
  obtain r t where enq: "?enq = (r, t)" by fastforce
  have "agent_ids (dm_db (snd ?enq)) = agent_ids (dm_db s) \<and> db_ok (dm_db (snd ?enq)) \<and> daemon.more (snd ?enq) = daemon.more s"
    using assms by (simp add: agent_ids_def)
  then have "agent_ids (dm_db t) = agent_ids (dm_db s) \<and> db_ok (dm_db t) \<and> daemon.more t = daemon.more s" unfolding enq snd_conv .
  moreover have "agent_ids (snd (agent_msg_mark_consumed now g sn sq d)) = agent_ids d
      \<and> db_ok (snd (agent_msg_mark_consumed now g sn sq d)) = db_ok d" for now g sn sq d
    by (simp add: agent_msg_mark_consumed_def call_def agent_ids_def db_ok_def)
  ultimately show ?thesis using assms by (cases r) (simp_all add: record_prompt_def enq)
qed

lemma supervisor_start_keeps:
  assumes "harness_spawn j proc spec = Inr h" "db_ok (dm_db s)"
  shows "\<exists>t. supervisor_start j w proc p spec s = (Inr h, t) \<and> agent_ids (dm_db t) = agent_ids (dm_db s) \<and> db_ok (dm_db t)
    \<and> map_of (dm_children t) (sv_group p, sv_session p) \<noteq> None \<and> daemon.more t = daemon.more s"
proof -
  let ?set = "on_db_at w (\<lambda>now. agent_set_status now (sv_group p) (sv_session p) ''running'' (hn_pid h)) s"
  obtain s1 where st: "?set = (Inr (), s1)"
    using assms(2) by (simp add: on_db_at_def on_db_def agent_set_status_def call_ok)
  have "agent_ids (dm_db (snd ?set)) = agent_ids (dm_db s)" "db_ok (dm_db (snd ?set))" "daemon.more (snd ?set) = daemon.more s"
    using assms(2) by simp_all
  then have k1: "agent_ids (dm_db s1) = agent_ids (dm_db s)" "db_ok (dm_db s1)" "daemon.more s1 = daemon.more s" unfolding st snd_conv .
  let ?s2 = "record_prompt w p (hs_initial_prompt spec) s1"
  have "supervisor_start j w proc p spec s = (Inr h, register_child (sv_group p) (sv_session p) (dm_tick ?s2) ?s2)"
    using assms(1) by (simp add: supervisor_start_def Let_def st)
  then show ?thesis using record_prompt_keeps [OF k1(2), of w p "hs_initial_prompt spec"] k1 by (simp add: register_child_def update_conv)
qed

text \<open>The state in which a launch that got past every check starts its harness.\<close>

definition prepared :: "env \<Rightarrow> SpawnArgs \<Rightarrow> Workspace \<Rightarrow> fsys \<Rightarrow> string \<Rightarrow> ipc_state \<Rightarrow> ipc_state" where
  "prepared e a ws f token s =
     (let now = w_ms (en_world e) (dm_tick s) in
      s\<lparr>cx_fs := f, dm_rands := Suc (dm_rands s), dm_tick := Suc (dm_tick s),
        dm_db := (dm_db s)\<lparr>db_agents := db_agents (dm_db s) @ [child_row (en_crates e) a token now],
                           db_sessions := db_sessions (dm_db s) @ [session_row a ws now]\<rparr>\<rparr>)"

definition name_free :: "env \<Rightarrow> string \<Rightarrow> string \<Rightarrow> string \<Rightarrow> 'z daemon_scheme \<Rightarrow> bool" where
  "name_free e grp session token s \<longleftrightarrow>
     list_all (\<lambda>r. \<not> (se_group r = grp \<and> se_name r = session)) (db_sessions (dm_db s))
     \<and> list_all (\<lambda>a. \<not> (ag_group a = grp \<and> ag_name a = session) \<and> ag_token_hash a \<noteq> agent_token_hash (en_crates e) token)
         (db_agents (dm_db s))"

lemma spawn_session_launches:
  assumes "db_ok (dm_db s)" "token = new_agent_token (en_crates e) (take 32 (w_rand (en_world e) (dm_rands s)))"
    "name_free e (sa_group a) (sa_session a) token s"
    "provision (en_host e) (sa_group a) (sa_session a) (sa_base_dir a) (sa_fs_mode a) (cx_fs s) = (Inr ws, f)"
  shows "spawn_session e a s = launch e a ws token (prepared e a ws f token s)"
proof -
  let ?now = "w_ms (en_world e) (dm_tick s)"
  define d1 where "d1 = (dm_db s)\<lparr>db_agents := db_agents (dm_db s) @ [child_row (en_crates e) a token ?now]\<rparr>"
  define d2 where "d2 = d1\<lparr>db_sessions := db_sessions (dm_db s) @ [session_row a ws ?now]\<rparr>"
  have free: "session_get (sa_group a) (sa_session a) (dm_db s) = (Inr None, dm_db s)"
    "agent_get (sa_group a) (sa_session a) (dm_db s) = (Inr None, dm_db s)"
    using assms(1,3) by (simp_all add: session_get_def agent_get_def call_ok sql_query_row_None name_free_def list_all_iff)
  have "\<not> list_ex (agent_conflict (child_row (en_crates e) a token ?now)) (db_agents (dm_db s))"
    using assms(3) by (auto simp: list_ex_iff agent_conflict_def child_row_def name_free_def list_all_iff)
  then have reg: "agent_register (child_row (en_crates e) a token ?now) (dm_db s) = (Inr True, d1)"
    using assms(1) by (simp add: agent_register_def call_ok sql_insert_or_ignore_def d1_def)
  have "\<not> list_ex (session_conflict (session_row a ws ?now)) (db_sessions (dm_db s))"
    using assms(3) by (auto simp: list_ex_iff session_conflict_def session_row_def name_free_def list_all_iff)
  moreover have "db_ok d1" "db_sessions d1 = db_sessions (dm_db s)" using assms(1) by (simp_all add: d1_def db_ok_def)
  ultimately have cre: "session_create (session_row a ws ?now) d1 = (Inr True, d2)"
    by (simp add: session_create_def call_ok sql_insert_or_ignore_def d2_def)
  show ?thesis
    using free reg cre assms(4)
    by (simp add: spawn_session_def name_taken_def and_then_def spawn_db_def on_db_def provision_ws_def draw_def unix_ms_def
        spawn_rows_def assms(2) [symmetric] prepared_def Let_def d2_def d1_def)
qed

lemma holder_ids:
  assumes "db_ok (dm_db s)" "distinct (map (\<lambda>(g, n, h, r). h) (agent_ids (dm_db s)))"
    "(g, n, agent_token_hash (en_crates e) token, role) \<in> set (agent_ids (dm_db s))"
  shows "\<exists>a. holder e token s = Some a \<and> ag_group a = g \<and> ag_name a = n \<and> ag_role a = role"
proof -
  let ?h = "agent_token_hash (en_crates e) token"
  obtain a where a: "a \<in> set (db_agents (dm_db s))" "ag_group a = g" "ag_name a = n" "ag_token_hash a = ?h" "ag_role a = role"
    using assms(3) by (auto simp: agent_ids_def)
  have dist: "distinct (map ag_token_hash (db_agents (dm_db s)))" using assms(2) by (simp add: agent_ids_def comp_def)
  have "find (\<lambda>r. ag_token_hash r = ?h) (db_agents (dm_db s)) \<noteq> None" using a(1,4) by (auto simp: find_None_iff)
  then obtain b where b: "find (\<lambda>r. ag_token_hash r = ?h) (db_agents (dm_db s)) = Some b" by blast
  then have "b \<in> set (db_agents (dm_db s))" "ag_token_hash b = ?h" by (auto simp: find_Some_iff)
  with a(1,4) dist have "b = a" by (metis distinct_map inj_on_eq_iff)
  then show ?thesis using a b assms(1) by (simp add: holder_def agent_by_token_def call_ok sql_query_row_def)
qed

lemma agents_hash_distinct: "unique_rows agent_conflict rows \<Longrightarrow> distinct (map ag_token_hash rows)"
  by (induction rows) (auto simp: unique_rows_def agent_conflict_def)

lemma new_child_ids:
  assumes "orch_unique (dm_db s)" "name_free e (sa_group a) (sa_session a) token s"
  shows "distinct (map (\<lambda>(g, n, h, r). h) (agent_ids (dm_db (prepared e a ws f token s))))
    \<and> (sa_group a, sa_session a, agent_token_hash (en_crates e) token, if sa_coordinator a then ''prime'' else ''child'')
        \<in> set (agent_ids (dm_db (prepared e a ws f token s)))"
proof -
  have "distinct (map ag_token_hash (db_agents (dm_db s)))"
    using assms(1) unfolding orch_unique_def by (intro agents_hash_distinct) simp
  moreover have "agent_token_hash (en_crates e) token \<notin> ag_token_hash ` set (db_agents (dm_db s))"
    using assms(2) by (auto simp: name_free_def list_all_iff)
  ultimately show ?thesis by (simp add: agent_ids_def prepared_def child_row_def Let_def comp_def)
qed

text \<open>A harness that does not start: the agent's row is closed and the workspace discarded.\<close>

lemma launch_no_harness:
  assumes "harness_spawn (en_json e) (en_proc e) (harness_spec e a ws token) = Inl err"
  shows "launch e a ws token s = (Inl (Internal, ''harness spawn failed: '' @ harness_error_display (harness_spec e a ws token) err),
    discard_ws e a ws (mark_exited e a s))"
  using assms by (simp add: launch_def Let_def supervisor_start_def sup_error_display_def)

lemma mark_exited_keeps:
  assumes "db_ok (dm_db s)"
  shows "cx_fs (mark_exited e a s) = cx_fs s" "cx_tasks (mark_exited e a s) = cx_tasks s" "cx_out (mark_exited e a s) = cx_out s"
    "cx_room (mark_exited e a s) = cx_room s" "db_sessions (dm_db (mark_exited e a s)) = db_sessions (dm_db s)"
    "dm_children (mark_exited e a s) = dm_children s"
  using assms by (simp_all add: mark_exited_def on_db_at_def on_db_def agent_set_status_def call_ok)

lemma launch_fails:
  assumes "db_ok (dm_db s)" "git_laws (en_host e)" "os_can_remove (en_host e) (path_key (ws_path ws))"
    and "plain_key (path_key (ws_path ws))"
    and "harness_spawn (en_json e) (en_proc e) (harness_spec e a ws token) = Inl err"
  shows "\<exists>t. launch e a ws token s = (Inl (Internal, ''harness spawn failed: '' @ harness_error_display (harness_spec e a ws token) err), t)
    \<and> \<not> path_exists (ws_path ws) (cx_fs t) \<and> agents_status (sa_group a) (sa_session a) ''exited'' t
    \<and> dm_children t = dm_children s \<and> cx_tasks t = cx_tasks s \<and> cx_out t = cx_out s \<and> cx_room t = cx_room s
    \<and> db_sessions (dm_db t) = db_sessions (dm_db s)"
proof -
  note m = mark_exited_keeps [OF assms(1)]
  have "agents_status (sa_group a) (sa_session a) ''exited'' (mark_exited e a s)"
    unfolding mark_exited_def by (rule set_status_agents [OF assms(1)])
  then have "agents_status (sa_group a) (sa_session a) ''exited'' (discard_ws e a ws (mark_exited e a s))"
    by (simp add: discard_ws_def agents_status_def)
  moreover have "\<not> path_exists (ws_path ws) (cx_fs (discard_ws e a ws (mark_exited e a s)))"
    using teardown_effect [OF assms(2-4), of "sa_base_dir a" "sa_fs_mode a" "ws_branch ws" True "cx_fs s"]
    by (auto simp: discard_ws_def m)
  ultimately show ?thesis by (simp add: launch_no_harness [OF assms(5)] discard_ws_def m)
qed

text \<open>An accepted spawn request prepares the session and launches it.\<close>

lemma dispatch_spawn:
  assumes "db_ok (dm_db s)" "holder e (sp_token r) s = Some me" "may_request me (ReqSpawn r)"
    and "token = new_agent_token (en_crates e) (take 32 (w_rand (en_world e) (dm_rands s)))"
    and "name_free e (sp_group r) (sp_session r) token s"
    and "provision (en_host e) (sp_group r) (sp_session r) (sp_base_dir r) (sp_fs_mode r) (cx_fs s) = (Inr ws, f)"
  shows "dispatch e tls (ReqSpawn r) s =
    (case launch e (spawn_args (ag_name me) r) ws token (prepared e (spawn_args (ag_name me) r) ws f token s) of
       (Inr out, t) \<Rightarrow> write_event (EvSpawned (sp_group r) (sp_session r) (so_child_token out) (so_workspace out)) t
     | (Inl (cd, msg), t) \<Rightarrow> write_event (ipc_err cd msg) t)"
proof -
  have "spawn_session e (spawn_args (ag_name me) r) s
      = launch e (spawn_args (ag_name me) r) ws token (prepared e (spawn_args (ag_name me) r) ws f token s)"
    using assms(1,4-6) by (intro spawn_session_launches) (simp_all add: spawn_args_def)
  with assms(1-3) show ?thesis by (simp add: dispatch_def ipc_spawn_def with_agent_ok)
qed

lemma prepared_keeps:
  assumes "db_ok (dm_db s)"
  shows "db_ok (dm_db (prepared e a ws f token s))" "cx_room (prepared e a ws f token s) = cx_room s"
    "cx_out (prepared e a ws f token s) = cx_out s" "cx_tasks (prepared e a ws f token s) = cx_tasks s"
    "dm_children (prepared e a ws f token s) = dm_children s" "cx_fs (prepared e a ws f token s) = f"
  using assms by (simp_all add: prepared_def db_ok_def Let_def)

section \<open>Properties\<close>

text \<open>
  A new group.  Creating a group under a name that is not taken answers with a token; asking who that
  token belongs to answers the new group's prime; creating the group again is refused and stores
  nothing.
\<close>

lemma group_new_whoami:
  assumes "db_ok (dm_db s)" and "cx_room s = None"
    and "token = new_agent_token (en_crates e) (take 32 (w_rand (en_world e) (dm_rands s)))"
    and "list_all (\<lambda>r. gr_name r \<noteq> name) (db_groups (dm_db s))"
    and "list_all (\<lambda>a. ag_group a \<noteq> name \<and> ag_token_hash a \<noteq> agent_token_hash (en_crates e) token) (db_agents (dm_db s))"
  shows "\<exists>s1. dispatch e tls (ReqGroupNew name) s = (Inr (), s1) \<and> cx_out s1 = cx_out s @ [EvGroupCreated name token]
    \<and> dispatch e tls (ReqWhoAmI token) s1
        = (Inr (), s1\<lparr>cx_out := cx_out s1 @ [EvWhoAmIInfo \<lparr>wi_group = name, wi_agent = ''prime'', wi_role = ''prime'', wi_session = None\<rparr>]\<rparr>)
    \<and> (\<exists>msg. dispatch e tls (ReqGroupNew name) s1
        = (Inr (), s1\<lparr>dm_tick := Suc (dm_tick s1), cx_out := cx_out s1 @ [ipc_err BadRequest msg]\<rparr>))"
proof -
  let ?u = "s\<lparr>dm_rands := Suc (dm_rands s), dm_tick := Suc (Suc (dm_tick s)), dm_db := group_db e name token s\<rparr>"
  let ?s1 = "reply (EvGroupCreated name token) ?u"
  have fresh: "\<forall>r\<in>set (db_groups (dm_db s)). gr_name r \<noteq> name"
    "\<forall>a\<in>set (db_agents (dm_db s)). ag_group a \<noteq> name \<and> ag_token_hash a \<noteq> agent_token_hash (en_crates e) token"
    using assms(4,5) by (simp_all add: list_all_iff)
  have ok: "db_ok (dm_db ?s1)" "cx_room ?s1 = None" "\<exists>r\<in>set (db_groups (dm_db ?s1)). gr_name r = name"
    using assms(1,2) by (simp_all add: group_db_def db_ok_def Let_def)
  have "holder e token ?s1 = holder e token ?u" by (simp add: holder_def)
  then have "holder e token ?s1 = Some (prime_row (en_crates e) name token (w_ms (en_world e) (Suc (dm_tick s))))"
    using new_prime_holds [OF assms(1), where u = "s\<lparr>dm_rands := Suc (dm_rands s), dm_tick := Suc (Suc (dm_tick s))\<rparr>"] fresh(2)
    by simp
  from whoami_reply [OF ok(1,2) this] have "dispatch e tls (ReqWhoAmI token) ?s1
      = (Inr (), ?s1\<lparr>cx_out := cx_out ?s1 @ [EvWhoAmIInfo \<lparr>wi_group = name, wi_agent = ''prime'', wi_role = ''prime'', wi_session = None\<rparr>]\<rparr>)"
    by (simp add: dispatch_def reply_def who_am_i_def prime_row_def)
  moreover have "\<exists>msg. dispatch e tls (ReqGroupNew name) ?s1
        = (Inr (), ?s1\<lparr>dm_tick := Suc (dm_tick ?s1), cx_out := cx_out ?s1 @ [ipc_err BadRequest msg]\<rparr>)"
    using group_new_taken [OF ok, of e] by (auto simp: dispatch_def reply_def)
  ultimately show ?thesis using group_new_fresh [OF assms(1,2) fresh(1) assms(3) fresh(2)]
    by (intro exI [where x = ?s1]) (simp add: dispatch_def)
qed

text \<open>
  C20 Consume on read.  A consuming read shows every message addressed to the token's holder that has not
  been read, each once, oldest first, then the end of the backlog; the next consuming read shows none of
  them.  (A message stamped zero or beyond the signed range is never shown.)
\<close>

theorem recv_consumes_once:
  assumes "db_ok (dm_db s)" and "bus_unique (db_agent_messages (dm_db s))" and "is_plan (w_bus_plan (en_world e))"
    and "cx_room s = None" and "holder e token s = Some me"
    and "length (filter (unread me session) (db_agent_messages (dm_db s))) \<le> 10000"
  shows "\<exists>rows s1 s2. dispatch e tls (ReqAgentRecv token session since False True) s = (Inr (), s1)
    \<and> cx_out s1 = cx_out s @ map backlog_event rows @ [EvAgentBacklogEnd]
    \<and> distinct rows \<and> set rows = set (filter (unread me session) (db_agent_messages (dm_db s)))
    \<and> sorted (map (\<lambda>r. (as_i64 (am_enqueued_at_ms r), am_sq r)) rows)
    \<and> dispatch e tls (ReqAgentRecv token session since' False True) s1 = (Inr (), s2)
    \<and> cx_out s2 = cx_out s1 @ [EvAgentBacklogEnd]"
proof -
  note p = unread_rows_props [OF assms(2,3), of me session]
  from consuming_recv [OF assms, of "tl_agent tls" since] obtain d n where
    r: "ipc_agent_recv e (tl_agent tls) token session since False True s
      = (Inr (), s\<lparr>cx_out := cx_out s @ map backlog_event (unread_rows e me session s) @ [EvAgentBacklogEnd], dm_tick := n, dm_db := d\<rparr>)"
    and d: "db_ok d" "bus_unique (db_agent_messages d)" "db_agents d = db_agents (dm_db s)"
      "filter (unread me session) (db_agent_messages d) = []" by blast
  define s1 where "s1 = s\<lparr>cx_out := cx_out s @ map backlog_event (unread_rows e me session s) @ [EvAgentBacklogEnd], dm_tick := n, dm_db := d\<rparr>"
  have s1: "dm_db s1 = d" "cx_room s1 = None" using assms(4) by (simp_all add: s1_def)
  have "holder e token s1 = Some me" using holder_agents [OF d(1) assms(1) d(3) s1(1), of e token] assms(5) by simp
  from consuming_recv [OF _ _ assms(3) s1(2) this, of session "tl_agent tls" since'] obtain s2 where
    s2: "ipc_agent_recv e (tl_agent tls) token session since' False True s1 = (Inr (), s2)"
    "cx_out s2 = cx_out s1 @ map backlog_event (unread_rows e me session s1) @ [EvAgentBacklogEnd]"
    by (auto simp: s1(1) d)
  have "length (unread_rows e me session s1) = 0"
    using unread_rows_props(4) [of s1 e me session] assms(3) by (simp add: s1(1) d)
  then show ?thesis using r s2 p
    by (intro exI [where x = "unread_rows e me session s"] exI [where x = s1] exI [where x = s2])
      (auto simp: dispatch_def s1_def)
qed

text \<open>
  C18 A session named \<open>../..\<close>.  The names of groups and sessions become components of a path and are not
  checked.  When a prime asks for a session of that name in a group that has no directory yet, the path is
  taken for a new one, and if the harness then fails to start, discarding the workspace empties the
  directory of the install: no file of it is left, the node's key and the database included, and no directory
  below it.
\<close>

theorem dotdot_spawn_erases:
  fixes e :: env and r :: SpawnReq and me :: AgentRow
  assumes "db_ok (dm_db s)" and "cx_room s = None"
    and "holder e (sp_token r) s = Some me" and "may_request me (ReqSpawn r)"
    and "token = new_agent_token (en_crates e) (take 32 (w_rand (en_world e) (dm_rands s)))"
    and "name_free e (sp_group r) (sp_session r) token s"
    and "plain_key (path_key (home (en_host e)))" and "plain_name (sp_group r)"
    and "sp_session r = ''../..''" and "sp_fs_mode r = New"
    and "\<And>k. os_can_create (en_host e) k" and "os_can_remove (en_host e) (path_key (home (en_host e)))"
    and "path_key (path_join (sessions_dir (en_host e)) (sp_group r)) \<notin> fs_paths (cx_fs s)"
    and "harness_spawn (en_json e) (en_proc e) (harness_spec e (spawn_args (ag_name me) r)
           \<lparr>ws_path = session_dir (en_host e) (sp_group r) ''../..'', ws_branch = None\<rparr> token) = Inl err"
  shows "\<exists>msg s1. dispatch e tls (ReqSpawn r) s = (Inr (), s1) \<and> cx_out s1 = cx_out s @ [ipc_err Internal msg]
    \<and> (\<forall>x. under (path_key (home (en_host e))) x \<longrightarrow>
         fs_files (cx_fs s1) x = None \<and> (x \<in> fs_paths (cx_fs s1) \<longrightarrow> x = path_key (home (en_host e))))"
proof -
  let ?a = "spawn_args (ag_name me) r" and ?ws = "\<lparr>ws_path = session_dir (en_host e) (sp_group r) ''../..'', ws_branch = None\<rparr>"
  obtain f where f: "provision (en_host e) (sp_group r) (sp_session r) (sp_base_dir r) (sp_fs_mode r) (cx_fs s) = (Inr ?ws, f)"
    "resolve f (path_key (ws_path ?ws)) = Some (path_key (home (en_host e)))" "path_key (home (en_host e)) \<in> fs_paths f"
    using dotdot_provision [OF assms(7,8,11,13), of "sp_base_dir r"] assms(9,10) by auto
  note u = prepared_keeps [OF assms(1), of e ?a ?ws f token]
  note m = mark_exited_keeps [OF u(1), of e ?a]
  define t where "t = discard_ws e ?a ?ws (mark_exited e ?a (prepared e ?a ?ws f token s))"
  have out: "cx_out t = cx_out s" "cx_room t = None" using m u assms(2) by (simp_all add: t_def discard_ws_def)
  have "cx_fs t = snd (teardown (en_host e) (ws_path ?ws) (Some (sp_base_dir r)) New None True f)"
    using m u assms(10) by (simp add: t_def discard_ws_def spawn_args_def)
  then have gone: "\<forall>x. under (path_key (home (en_host e))) x \<longrightarrow>
      fs_files (cx_fs t) x = None \<and> (x \<in> fs_paths (cx_fs t) \<longrightarrow> x = path_key (home (en_host e)))"
    using dotdot_teardown [OF assms(7,8,12), of f "Some (sp_base_dir r)" None] f(2,3) by auto
  show ?thesis
    using dispatch_spawn [OF assms(1,3-6) f(1), of tls] launch_no_harness [OF assms(14)] gone out
    by (auto simp: write_event_reply t_def)
qed

text \<open>
  C17 Launching a session.  When the name is free and the workspace was provisioned, the outcome depends on
  whether the harness starts.  If it does not, the client gets an internal error, the workspace is gone
  again, no child is supervised and the agent's row is marked exited, though the session's row stays
  active.  If it does, the client gets the child's token, one more child is supervised, and the token
  belongs to an agent of the session's name, a prime exactly when a coordinator was asked for.  (The path of
  the workspace has no \<open>..\<close> in it.)
\<close>

theorem spawn_outcome:
  fixes e :: env and r :: SpawnReq and me :: AgentRow
  defines "a \<equiv> spawn_args (ag_name me) r"
  assumes "db_ok (dm_db s)" and "orch_unique (dm_db s)" and "cx_room s = None" and "git_laws (en_host e)"
    and "holder e (sp_token r) s = Some me" and "may_request me (ReqSpawn r)"
    and "token = new_agent_token (en_crates e) (take 32 (w_rand (en_world e) (dm_rands s)))"
    and "name_free e (sp_group r) (sp_session r) token s"
    and "provision (en_host e) (sp_group r) (sp_session r) (sp_base_dir r) (sp_fs_mode r) (cx_fs s) = (Inr ws, f)"
    and "os_can_remove (en_host e) (path_key (ws_path ws))" and "plain_key (path_key (ws_path ws))"
  shows "case harness_spawn (en_json e) (en_proc e) (harness_spec e a ws token) of
      Inl err \<Rightarrow> \<exists>msg s1. dispatch e tls (ReqSpawn r) s = (Inr (), s1) \<and> cx_out s1 = cx_out s @ [ipc_err Internal msg]
        \<and> \<not> path_exists (ws_path ws) (cx_fs s1) \<and> dm_children s1 = dm_children s \<and> cx_tasks s1 = cx_tasks s
        \<and> agents_status (sp_group r) (sp_session r) ''exited'' s1
        \<and> (\<exists>row\<in>set (db_sessions (dm_db s1)). se_group row = sp_group r \<and> se_name row = sp_session r \<and> se_status row = ''active'')
    | Inr h \<Rightarrow> \<exists>s1 child. dispatch e tls (ReqSpawn r) s = (Inr (), s1)
        \<and> cx_out s1 = cx_out s @ [EvSpawned (sp_group r) (sp_session r) token (ws_path ws)]
        \<and> cx_tasks s1 = cx_tasks s @ [(supervised_of a, h)]
        \<and> map_of (dm_children s1) (sp_group r, sp_session r) \<noteq> None
        \<and> holder e token s1 = Some child \<and> ag_group child = sp_group r \<and> ag_name child = sp_session r
        \<and> ag_role child = (if sp_coordinator r then ''prime'' else ''child'')"
proof -
  define u where "u = prepared e a ws f token s"
  have args: "sa_group a = sp_group r" "sa_session a = sp_session r" "sa_base_dir a = sp_base_dir r" "sa_fs_mode a = sp_fs_mode r"
    "sa_coordinator a = sp_coordinator r" by (simp_all add: a_def spawn_args_def)
  have u: "db_ok (dm_db u)" "cx_room u = None" "cx_out u = cx_out s" "cx_tasks u = cx_tasks s" "dm_children u = dm_children s"
    using prepared_keeps [OF assms(2)] assms(4) by (simp_all add: u_def)
  have disp: "dispatch e tls (ReqSpawn r) s = (case launch e a ws token u of
       (Inr out, t) \<Rightarrow> write_event (EvSpawned (sp_group r) (sp_session r) (so_child_token out) (so_workspace out)) t
     | (Inl (cd, msg), t) \<Rightarrow> write_event (ipc_err cd msg) t)"
    unfolding u_def a_def by (rule dispatch_spawn [OF assms(2,6-10)])
  show ?thesis
  proof (cases "harness_spawn (en_json e) (en_proc e) (harness_spec e a ws token)")
    case (Inl err)
    have "\<exists>row\<in>set (db_sessions (dm_db u)). se_group row = sp_group r \<and> se_name row = sp_session r \<and> se_status row = ''active''"
      by (simp add: u_def prepared_def session_row_def args Let_def)
    with launch_fails [OF u(1) assms(5,11,12) Inl] disp u args Inl show ?thesis
      by (auto simp: write_event_reply agents_status_def)
  next
    case (Inr h)
    from supervisor_start_keeps [OF Inr u(1), of "en_world e" "supervised_of a"] obtain t where
      t: "supervisor_start (en_json e) (en_world e) (en_proc e) (supervised_of a) (harness_spec e a ws token) u = (Inr h, t)"
      "agent_ids (dm_db t) = agent_ids (dm_db u)" "db_ok (dm_db t)" "map_of (dm_children t) (sp_group r, sp_session r) \<noteq> None"
      "daemon.more t = daemon.more u"
      by (auto simp: supervised_of_def args)
    define v where "v = t\<lparr>cx_tasks := cx_tasks t @ [(supervised_of a, h)]\<rparr>"
    have launch: "launch e a ws token u = (Inr \<lparr>so_workspace = ws_path ws, so_child_token = token\<rparr>, v)"
      by (simp add: launch_def Let_def t(1) v_def)
    have v: "cx_room v = None" "cx_out v = cx_out s" "cx_tasks v = cx_tasks s @ [(supervised_of a, h)]"
      "db_ok (dm_db v)" "agent_ids (dm_db v) = agent_ids (dm_db u)"
      using cx_more [OF t(5)] u t by (simp_all add: v_def)
    obtain child where "holder e token v = Some child" "ag_group child = sp_group r" "ag_name child = sp_session r"
      "ag_role child = (if sp_coordinator r then ''prime'' else ''child'')"
      using holder_ids [OF v(4), of "sp_group r" "sp_session r" e token] new_child_ids [OF assms(3), of e a token ws f] assms(9) args
      by (auto simp: v(5) u_def)
    then show ?thesis using Inr disp launch v t(4)
      by (simp add: write_event_reply) (simp add: v_def holder_def)
  qed
qed

text \<open>
  C7 A connection refines the list of its requests.  Reading the length-prefixed frames off the socket,
  the connection does what serving the decoded requests one after the other does: each gets its answer in
  order, a frame that does not decode gets a \<open>BadRequest\<close> and the next is served, an error that leaves a
  handler is answered as an internal one, and a streaming request is the last.  When the client goes away
  in the middle of a frame, the requests before it have been served; the end is clean unless it falls in
  the body.
\<close>

theorem connection_refines:
  assumes "list_all ipc_fits bufs" and "ipc_fits buf" and "k < length (frame_bytes buf)"
  shows "handle_ipc_conn e tls \<lparr>rs_in = concat (map frame_bytes bufs) @ take k (frame_bytes buf), rs_end = Finished\<rparr> s
    = serve_frames e tls (if k < 4 then Inr () else Inl (ConnRead IpcReadBody)) bufs s"
proof (rule handle_conn_frames [OF assms(1)])
  fix t
  obtain r rs where "ipc_read_frame \<lparr>rs_in = take k (frame_bytes buf), rs_end = Finished\<rparr> = (r, rs)" by fastforce
  with ipc_frame_cut [OF assms(2,3)]
  show "handle_ipc_conn e tls \<lparr>rs_in = take k (frame_bytes buf), rs_end = Finished\<rparr> t
      = (if k < 4 then Inr () else Inl (ConnRead IpcReadBody), t)"
    by (subst handle_ipc_conn.simps) (simp split: if_splits)
qed

section \<open>Examples\<close>

lemma sample_env_simps [simp]:
  "en_crates sample_env = sample_crates" "en_json sample_env = sample_json_crate" "en_world sample_env = sample_world"
  "en_host sample_env = sample_host" "en_proc sample_env spec = None" "en_harness_cmd sample_env = None"
  by (simp_all add: sample_env_def)

definition sample_inbox_db :: db where
  "sample_inbox_db = sample_bus_db\<lparr>db_agents := [sample_agent ''g'' ''c'' ''t'' ''child'']\<rparr>"

lemma recv_consumes_once_witness:
  "\<exists>s1 s2. dispatch sample_env sample_tails (ReqAgentRecv ''t'' None None False True) (sample_conn sample_inbox_db) = (Inr (), s1)
     \<and> length (cx_out s1) = 3
     \<and> dispatch sample_env sample_tails (ReqAgentRecv ''t'' None None False True) s1 = (Inr (), s2)
     \<and> cx_out s2 = cx_out s1 @ [EvAgentBacklogEnd]"
proof -
  let ?me = "sample_agent ''g'' ''c'' ''t'' ''child''"
  have ok: "db_ok (dm_db (sample_conn sample_inbox_db))" "bus_unique (db_agent_messages (dm_db (sample_conn sample_inbox_db)))"
    using sample_bus_db_ok by (simp_all add: sample_inbox_db_def db_ok_def)
  have msgs: "filter (unread ?me None) (db_agent_messages sample_inbox_db) = [sample_bus_row 1, sample_bus_row 2]"
    by (simp add: sample_inbox_db_def sample_bus_db_def unread_def sample_agent_def sample_bus_row_def as_i64_def)
  have "holder sample_env ''t'' (sample_conn sample_inbox_db) = Some ?me"
    using ok(1) by (simp add: holder_def agent_by_token_def call_ok) (simp add: sample_inbox_db_def sql_query_row_def sample_agent_def)
  from recv_consumes_once [OF ok _ _ this, of None sample_tails None None] obtain rows s1 s2 where
    r: "dispatch sample_env sample_tails (ReqAgentRecv ''t'' None None False True) (sample_conn sample_inbox_db) = (Inr (), s1)"
    "cx_out s1 = map backlog_event rows @ [EvAgentBacklogEnd]" "distinct rows" "set rows = {sample_bus_row 1, sample_bus_row 2}"
    "dispatch sample_env sample_tails (ReqAgentRecv ''t'' None None False True) s1 = (Inr (), s2)"
    "cx_out s2 = cx_out s1 @ [EvAgentBacklogEnd]"
    by (auto simp: msgs)
  have "length rows = 2" using distinct_card [OF r(3)] by (simp add: r(4) sample_bus_row_def)
  with r show ?thesis by auto
qed

lemma connection_refines_witness:
  "handle_ipc_conn (sample_env\<lparr>en_req_dec := (\<lambda>b. Some ReqConnList)\<rparr>) sample_tails
      \<lparr>rs_in = concat (map frame_bytes [[1], [2]]) @ take 3 (frame_bytes [3]), rs_end = Finished\<rparr> (sample_conn sample_db)
    = (Inr (), (sample_conn sample_db)\<lparr>cx_out := [EvConnListEnd, EvConnListEnd]\<rparr>)"
proof -
  let ?e = "sample_env\<lparr>en_req_dec := (\<lambda>b. Some ReqConnList)\<rparr>"
  have serve: "serve ?e sample_tails ReqConnList s = (Inr (), s\<lparr>cx_out := cx_out s @ [EvConnListEnd]\<rparr>)"
    if "cx_room s = None" "dm_conns s = []" for s
    using that by (simp add: serve_def dispatch_def ipc_conn_list_def list_conns_def and_then_def write_event_reply reply_def)
  have "dm_conns (sample_conn sample_db) = []" by (simp add: sample_conn_def daemon.defs sample_daemon_def daemon_start_def)
  then have "serve_frames ?e sample_tails (Inr ()) [[1], [2]] (sample_conn sample_db)
      = (Inr (), (sample_conn sample_db)\<lparr>cx_out := [EvConnListEnd, EvConnListEnd]\<rparr>)"
    by (simp add: serve want_stream_def)
  moreover have "list_all ipc_fits [[1], [2]]" "ipc_fits [3]" by (simp_all add: ipc_fits_def MAX_IPC_FRAME_def)
  ultimately show ?thesis using connection_refines [of "[[1], [2]]" "[3]" 3 ?e] by (simp add: frame_bytes_def)
qed

definition sample_prime_db :: db where
  "sample_prime_db = sample_db\<lparr>db_agents := [sample_agent ''g'' ''prime'' ''t'' ''prime'']\<rparr>"

definition sample_spawn :: SpawnReq where
  "sample_spawn = \<lparr>sp_token = ''t'', sp_group = ''g'', sp_session = ''s'', sp_base_dir = ''/repo'', sp_fs_mode = New, sp_branch = None,
     sp_label = None, sp_prompt = ''go'', sp_harness_argv = None, sp_idle_timeout_secs = None, sp_permission_mode = None,
     sp_skip_permissions = False, sp_trace = False, sp_coordinator = False\<rparr>"

lemma sample_host_git: "git_laws sample_host"
  by (auto simp: git_laws_def sample_host_def sample_os_def os.defs)

lemma sample_provision:
  "\<exists>f. provision sample_host ''g'' ''s'' ''/repo'' New sample_disk = (Inr \<lparr>ws_path = ''/h/sessions/g/s'', ws_branch = None\<rparr>, f)"
proof -
  have "session_dir sample_host ''g'' ''s'' = ''/h/sessions/g/s''"
    by (simp add: session_dir_def sessions_dir_def home_def path_join_def is_absolute_def starts_with_def)
  then show ?thesis
    by (simp add: provision_def provision_at_def provision_in_def path_exists_def resolve_def sample_disk_def path_key_def is_absolute_def
        starts_with_def parent_key_def create_dir_all_def)
qed

lemma sample_prime: "db_ok sample_prime_db" "orch_unique sample_prime_db"
  by (simp_all add: sample_prime_db_def sample_db_def db_ok_def orch_unique_def unique_rows_def empty_file_def)

lemma sample_prime_holds:
  "dm_db (s :: ipc_state) = sample_prime_db \<Longrightarrow> holder sample_env ''t'' s = Some (sample_agent ''g'' ''prime'' ''t'' ''prime'')"
  using sample_prime(1) by (simp add: holder_def agent_by_token_def call_ok)
    (simp add: sample_prime_db_def sql_query_row_def sample_agent_def)

lemma sample_prime_free:
  assumes "dm_db (s :: ipc_state) = sample_prime_db" "n \<noteq> ''prime''"
  shows "name_free sample_env ''g'' n (new_agent_token sample_crates (take 32 (w_rand sample_world 0))) s"
proof -
  have "agent_token_hash sample_crates ''t'' \<noteq> agent_token_hash sample_crates (new_agent_token sample_crates (take 32 (w_rand sample_world 0)))"
    by code_simp
  then show ?thesis using assms by (auto simp: name_free_def sample_prime_db_def sample_agent_def)
qed

lemma spawn_outcome_witness:
  "\<exists>msg s1. dispatch sample_env sample_tails (ReqSpawn sample_spawn) (sample_conn sample_prime_db) = (Inr (), s1)
     \<and> cx_out s1 = [ipc_err Internal msg] \<and> \<not> path_exists ''/h/sessions/g/s'' (cx_fs s1) \<and> cx_tasks s1 = []"
proof -
  let ?s = "sample_conn sample_prime_db" and ?me = "sample_agent ''g'' ''prime'' ''t'' ''prime''"
  let ?token = "new_agent_token sample_crates (take 32 (w_rand sample_world 0))"
  let ?ws = "\<lparr>ws_path = ''/h/sessions/g/s'', ws_branch = None\<rparr>"
  have db: "db_ok (dm_db ?s)" "orch_unique (dm_db ?s)" by (simp_all add: sample_prime)
  have hold: "holder sample_env (sp_token sample_spawn) ?s = Some ?me" by (simp add: sample_prime_holds sample_spawn_def)
  have may: "may_request ?me (ReqSpawn sample_spawn)" by (simp add: sample_agent_def sample_spawn_def)
  have free: "name_free sample_env (sp_group sample_spawn) (sp_session sample_spawn) ?token ?s"
    by (simp add: sample_prime_free sample_spawn_def)
  obtain f where prov: "provision (en_host sample_env) (sp_group sample_spawn) (sp_session sample_spawn) (sp_base_dir sample_spawn)
      (sp_fs_mode sample_spawn) (cx_fs ?s) = (Inr ?ws, f)"
    using sample_provision by (auto simp: sample_spawn_def)
  have rm: "os_can_remove (en_host sample_env) (path_key (ws_path ?ws))" by simp
  have plain: "plain_key (path_key (ws_path ?ws))" by (simp add: plain_key_def path_key_def)
  have "harness_spawn (en_json sample_env) (en_proc sample_env) (harness_spec sample_env (spawn_args (ag_name ?me) sample_spawn) ?ws ?token)
      = Inl SpawnFailed"
    by (simp add: harness_spawn_def harness_spec_def claude_argv_def spawn_args_def sample_spawn_def)
  with spawn_outcome [OF db _ _ hold may _ free prov rm plain, of sample_tails] show ?thesis
    by (simp add: sample_host_git) blast
qed

lemma dotdot_spawn_erases_witness:
  "\<exists>msg s1. dispatch sample_env sample_tails (ReqSpawn (sample_spawn\<lparr>sp_session := ''../..''\<rparr>))
       ((sample_conn sample_prime_db)\<lparr>cx_fs := sample_disk\<lparr>fs_files := [path_key (secret_key_path sample_host) \<mapsto> replicate 32 1]\<rparr>\<rparr>) = (Inr (), s1)
     \<and> cx_out s1 = [ipc_err Internal msg] \<and> fs_files (cx_fs s1) (path_key (secret_key_path sample_host)) = None"
proof -
  let ?r = "sample_spawn\<lparr>sp_session := ''../..''\<rparr>" and ?me = "sample_agent ''g'' ''prime'' ''t'' ''prime''"
  let ?s = "(sample_conn sample_prime_db)\<lparr>cx_fs := sample_disk\<lparr>fs_files := [path_key (secret_key_path sample_host) \<mapsto> replicate 32 1]\<rparr>\<rparr>"
  let ?token = "new_agent_token sample_crates (take 32 (w_rand sample_world 0))"
  have db: "db_ok (dm_db ?s)" "cx_room ?s = None" by (simp_all add: sample_prime)
  have hold: "holder sample_env (sp_token ?r) ?s = Some ?me" by (simp add: sample_prime_holds sample_spawn_def)
  have may: "may_request ?me (ReqSpawn ?r)" by (simp add: sample_agent_def sample_spawn_def)
  have token: "?token = new_agent_token (en_crates sample_env) (take 32 (w_rand (en_world sample_env) (dm_rands ?s)))" by simp
  have free: "name_free sample_env (sp_group ?r) (sp_session ?r) ?token ?s" by (simp add: sample_prime_free sample_spawn_def)
  have home: "home sample_host = ''/h''" by (simp add: home_def)
  have plain: "plain_key (path_key (home (en_host sample_env)))" "plain_name (sp_group ?r)"
    by (simp_all add: home plain_key_def path_key_def plain_name_def sample_spawn_def)
  have r: "sp_session ?r = ''../..''" "sp_fs_mode ?r = New" by (simp_all add: sample_spawn_def)
  have host: "os_can_create (en_host sample_env) k" "os_can_remove (en_host sample_env) (path_key (home (en_host sample_env)))" for k by simp_all
  have fresh: "path_key (path_join (sessions_dir (en_host sample_env)) (sp_group ?r)) \<notin> fs_paths (cx_fs ?s)" by (simp add: sample_disk_def)
  have fails: "harness_spawn (en_json sample_env) (en_proc sample_env) (harness_spec sample_env (spawn_args (ag_name ?me) ?r)
      \<lparr>ws_path = session_dir (en_host sample_env) (sp_group ?r) ''../..'', ws_branch = None\<rparr> ?token) = Inl SpawnFailed"
    by (simp add: harness_spawn_def harness_spec_def claude_argv_def spawn_args_def sample_spawn_def)
  have "under (path_key (home (en_host sample_env))) (path_key (secret_key_path sample_host))" by code_simp
  moreover obtain msg s1 where s1: "dispatch sample_env sample_tails (ReqSpawn ?r) ?s = (Inr (), s1)" "cx_out s1 = cx_out ?s @ [ipc_err Internal msg]"
    "\<forall>x. under (path_key (home (en_host sample_env))) x \<longrightarrow>
       fs_files (cx_fs s1) x = None \<and> (x \<in> fs_paths (cx_fs s1) \<longrightarrow> x = path_key (home (en_host sample_env)))"
    using dotdot_spawn_erases [OF db hold may token free plain r host fresh fails, of sample_tails] by blast
  ultimately have "fs_files (cx_fs s1) (path_key (secret_key_path sample_host)) = None" "cx_out s1 = [ipc_err Internal msg]"
    by (blast, simp)
  with s1(1) show ?thesis by blast
qed

end
