(* ===== verification/Wt_Web.thy ===== *)
theory Wt_Web
  imports Wt_Supervisor
begin

text \<open>
  \<^verbatim>\<open>src/crates/wt-daemon/src/web.rs\<close>: the local HTTP gateway of the dashboard.  A request is taken
  after axum has matched its route and decoded its path, query and body; the check of its origin comes
  first.  The WebSocket loop is given what its \<open>select!\<close> finds ready.
\<close>

section \<open>Requests and responses\<close>

datatype WebBody = WebText string | WebJson json

record Response =
  rp_status :: nat
  rp_body :: WebBody

datatype WebRequest =
    GetGroups
  | GetSessions string
  | GetMessages string string u64
  | PostSend string string "string option" string
  | GetFeed string u64
  | PostBroadcast string "string option" string

definition json_ok :: "json \<Rightarrow> Response" where
  "json_ok v = \<lparr>rp_status = 200, rp_body = WebJson v\<rparr>"

definition err500 :: "(dm_error \<Rightarrow> string) \<Rightarrow> dm_error \<Rightarrow> Response" where
  "err500 display e = \<lparr>rp_status = 500, rp_body = WebJson (JObject [(''error'', JString (display e))])\<rparr>"

definition j_u64 :: "u64 \<Rightarrow> json" where
  "j_u64 n = JNumber (show_nat (unat n))"

definition j_opt :: "('a \<Rightarrow> json) \<Rightarrow> 'a option \<Rightarrow> json" where
  "j_opt f v = (case v of None \<Rightarrow> JNull | Some x \<Rightarrow> f x)"

type_synonym 'z web_op = "'z daemon_scheme \<Rightarrow> Response \<times> 'z daemon_scheme"

text \<open>\<open>match call { Ok(v) => .., Err(e) => err500(e) }\<close>.\<close>

definition or_500 ::
  "(dm_error \<Rightarrow> string) \<Rightarrow> ('z daemon_scheme \<Rightarrow> (dm_error + 'a) \<times> 'z daemon_scheme) \<Rightarrow> ('a \<Rightarrow> 'z web_op) \<Rightarrow> 'z web_op" where
  "or_500 display m f s = (case m s of (Inl e, s') \<Rightarrow> (err500 display e, s') | (Inr a, s') \<Rightarrow> f a s')"

section \<open>The origin check\<close>

text \<open>\<open>to_str\<close> is \<open>HeaderValue::to_str\<close>, nothing for a value that is not visible ASCII.\<close>

definition origin_allowed :: "string \<Rightarrow> bool" where
  "origin_allowed origin \<longleftrightarrow>
     starts_with origin ''chrome-extension://'' \<or> starts_with origin ''moz-extension://''
     \<or> starts_with origin ''http://127.0.0.1'' \<or> starts_with origin ''http://localhost''"

definition origin_guard :: "(bytes \<Rightarrow> string option) \<Rightarrow> bytes option \<Rightarrow> 'z web_op \<Rightarrow> 'z web_op" where
  "origin_guard to_str origin handler s =
     (case (case origin of None \<Rightarrow> None | Some v \<Rightarrow> to_str v) of
        None \<Rightarrow> handler s
      | Some str \<Rightarrow>
          if \<not> origin_allowed str then (\<lparr>rp_status = 403, rp_body = WebText ''forbidden origin''\<rparr>, s)
          else handler s)"

section \<open>Reading\<close>

definition web_list_groups :: "(dm_error \<Rightarrow> string) \<Rightarrow> 'z web_op" where
  "web_list_groups display =
     or_500 display (on_db group_list) (\<lambda>groups s.
       (json_ok (JArray (map (\<lambda>g. JObject [(''name'', JString (gr_name g)), (''created_at_ms'', j_u64 (gr_created_at_ms g))]) groups)), s))"

definition session_json :: "SessionRow \<Rightarrow> AgentRow option \<Rightarrow> json" where
  "session_json r agent = JObject
     [(''name'', JString (se_name r)), (''prime_agent'', JString (se_prime_agent r)), (''child_agent'', JString (se_child_agent r)),
      (''fs_mode'', JString (se_fs_mode r)), (''workspace_path'', JString (se_workspace_path r)),
      (''branch'', j_opt JString (se_branch r)), (''session_status'', JString (se_status r)),
      (''created_at_ms'', j_u64 (se_created_at_ms r)),
      (''agent_status'', j_opt (\<lambda>a. JString (ag_status a)) agent), (''agent_role'', j_opt (\<lambda>a. JString (ag_role a)) agent),
      (''pid'', j_opt (\<lambda>p. JNumber (show_int p)) (Option.bind agent ag_pid)),
      (''last_seen_ms'', j_opt j_u64 (Option.bind agent ag_last_seen_ms))]"

definition agent_or_none :: "string \<Rightarrow> string \<Rightarrow> 'z daemon_scheme \<Rightarrow> AgentRow option" where
  "agent_or_none grp name s = (case fst (on_db (agent_get grp name) s) of Inr a \<Rightarrow> a | Inl _ \<Rightarrow> None)"

definition web_list_sessions :: "(dm_error \<Rightarrow> string) \<Rightarrow> string \<Rightarrow> 'z web_op" where
  "web_list_sessions display grp =
     or_500 display (on_db (session_list grp)) (\<lambda>sessions s.
       (json_ok (JArray (map (\<lambda>r. session_json r (agent_or_none grp (se_child_agent r) s)) sessions)), s))"

definition msg_fields :: "AgentMsgRow \<Rightarrow> (string \<times> json) list" where
  "msg_fields m =
     [(''seq'', j_u64 (am_seq m)), (''from_agent'', JString (am_from m)), (''to_agent'', JString (am_to m)),
      (''kind'', JString (am_kind m)), (''text'', JString (from_utf8_lossy (am_payload m))), (''ts_ms'', j_u64 (am_enqueued_at_ms m))]"

definition web_list_messages :: "(dm_error \<Rightarrow> string) \<Rightarrow> string \<Rightarrow> string \<Rightarrow> u64 \<Rightarrow> 'z web_op" where
  "web_list_messages display grp session after_seq =
     or_500 display (on_db (agent_msg_session_log grp session after_seq)) (\<lambda>rows s.
       (json_ok (JArray (map (\<lambda>m. JObject (msg_fields m)) rows)), s))"

definition web_group_feed :: "(dm_error \<Rightarrow> string) \<Rightarrow> string \<Rightarrow> u64 \<Rightarrow> 'z web_op" where
  "web_group_feed display grp after_ms =
     or_500 display (on_db (agent_msg_group_feed grp after_ms)) (\<lambda>rows s.
       (json_ok (JArray (map (\<lambda>m. JObject ((''session'', JString (am_session m)) # msg_fields m)) rows)), s))"

section \<open>Sending\<close>

text \<open>\<open>kind_from_str(body.kind.as_deref().unwrap_or("turn_input"))\<close>.\<close>

definition body_kind :: "string option \<Rightarrow> AgentMsgKind" where
  "body_kind kind = kind_from_str (case kind of Some k \<Rightarrow> k | None \<Rightarrow> ''turn_input'')"

definition web_send_message :: "(dm_error \<Rightarrow> string) \<Rightarrow> world \<Rightarrow> string \<Rightarrow> string \<Rightarrow> string option \<Rightarrow> string \<Rightarrow> 'z web_op" where
  "web_send_message display w grp session kind text =
     or_500 display (on_db (session_get grp session)) (\<lambda>found.
       case found of
         None \<Rightarrow> (\<lambda>s. (\<lparr>rp_status = 404, rp_body = WebJson (JObject [(''error'', JString ''no such session'')])\<rparr>, s))
       | Some sess \<Rightarrow>
           or_500 display
             (bus_enqueue w grp session (se_prime_agent sess) (se_child_agent sess) (body_kind kind) (bytes_of text))
             (\<lambda>sq s. (json_ok (JObject [(''ok'', JBool True), (''seq'', j_u64 sq)]), s)))"

fun broadcast_to :: "world \<Rightarrow> string \<Rightarrow> AgentMsgKind \<Rightarrow> string \<Rightarrow> SessionRow list \<Rightarrow> u32 \<Rightarrow> 'z daemon_scheme \<Rightarrow> u32 \<times> 'z daemon_scheme" where
  "broadcast_to w grp kind text [] sent s = (sent, s)"
| "broadcast_to w grp kind text (r # rs) sent s =
     (if se_status r \<noteq> ''active'' then broadcast_to w grp kind text rs sent s
      else case bus_enqueue w grp (se_name r) ''prime'' (se_child_agent r) kind (bytes_of text) s of
             (Inr _, s') \<Rightarrow> broadcast_to w grp kind text rs (sent + 1) s'
           | (Inl _, s') \<Rightarrow> broadcast_to w grp kind text rs sent s')"

definition web_broadcast :: "(dm_error \<Rightarrow> string) \<Rightarrow> world \<Rightarrow> string \<Rightarrow> string option \<Rightarrow> string \<Rightarrow> 'z web_op" where
  "web_broadcast display w grp kind text =
     or_500 display (on_db (session_list grp)) (\<lambda>sessions s.
       case broadcast_to w grp (body_kind kind) text sessions 0 s of
         (sent, s') \<Rightarrow> (json_ok (JObject [(''ok'', JBool True), (''sent'', JNumber (show_nat (unat sent)))]), s'))"

section \<open>The gateway\<close>

definition web_route :: "(dm_error \<Rightarrow> string) \<Rightarrow> world \<Rightarrow> WebRequest \<Rightarrow> 'z web_op" where
  "web_route display w req =
     (case req of
        GetGroups \<Rightarrow> web_list_groups display
      | GetSessions g \<Rightarrow> web_list_sessions display g
      | GetMessages g sn after_seq \<Rightarrow> web_list_messages display g sn after_seq
      | PostSend g sn kind text \<Rightarrow> web_send_message display w g sn kind text
      | GetFeed g after_ms \<Rightarrow> web_group_feed display g after_ms
      | PostBroadcast g kind text \<Rightarrow> web_broadcast display w g kind text)"

definition web_serve ::
  "(dm_error \<Rightarrow> string) \<Rightarrow> world \<Rightarrow> (bytes \<Rightarrow> string option) \<Rightarrow> bytes option \<Rightarrow> WebRequest \<Rightarrow> 'z web_op" where
  "web_serve display w to_str origin req = origin_guard to_str origin (web_route display w req)"

section \<open>The live feed\<close>

datatype WsReady = WsEvent BusEvent | WsLagged | WsBusClosed | WsClientGone | WsClientFrame

definition ws_message :: "BusEvent \<Rightarrow> json" where
  "ws_message ev = JObject
     [(''type'', JString ''message''), (''session'', JString (be_session ev)), (''seq'', j_u64 (be_seq ev)),
      (''from_agent'', JString (be_from_agent ev)), (''to_agent'', JString (be_to_agent ev)),
      (''kind'', JString (kind_to_str (be_kind ev))), (''text'', JString (from_utf8_lossy (be_payload ev))),
      (''ts_ms'', j_u64 (be_ts_ms ev))]"

text \<open>\<open>room\<close> is how many more messages the socket takes; the flag says that the loop is still running.\<close>

fun ws_loop :: "string \<Rightarrow> nat option \<Rightarrow> WsReady list \<Rightarrow> bool \<times> json list" where
  "ws_loop grp room [] = (True, [])"
| "ws_loop grp room (WsEvent ev # rs) =
     (if be_group ev = grp then
        (if room = Some 0 then (False, [])
         else (case ws_loop grp (map_option (\<lambda>n. n - 1) room) rs of (alive, out) \<Rightarrow> (alive, ws_message ev # out)))
      else ws_loop grp room rs)"
| "ws_loop grp room (WsLagged # rs) = ws_loop grp room rs"
| "ws_loop grp room (WsBusClosed # rs) = (False, [])"
| "ws_loop grp room (WsClientGone # rs) = (False, [])"
| "ws_loop grp room (WsClientFrame # rs) = ws_loop grp room rs"

section \<open>Lemmas\<close>

text \<open>Sending to one session leaves the numbers of every other session alone.\<close>

lemma bus_room_other:
  assumes "(g', sn') \<noteq> (g, sn)" "bus_room g' sn' (dm_db s)"
  shows "bus_room g' sn' (dm_db (snd (bus_enqueue w g sn f t k pl s)))"
proof -
  let ?d = "snd (agent_msg_enqueue (w_ms w (dm_tick s)) g sn f t (kind_to_str k) pl (dm_db s))"
  have "filter (\<lambda>r. am_scope r = (g', sn')) (db_agent_messages ?d) = filter (\<lambda>r. am_scope r = (g', sn')) (db_agent_messages (dm_db s))"
    using assms(1) by (auto simp: agent_msg_enqueue_def call_def Let_def sql_delete_def am_scope_def filter_filter
        intro!: filter_cong split: option.splits)
  moreover have "dm_db (snd (bus_enqueue w g sn f t k pl s)) = ?d"
    by (simp add: bus_enqueue_def and_then_def on_db_at_def on_db_def split: prod.splits sum.splits)
  ultimately show ?thesis using assms(2) by (simp add: bus_room_def next_seq_def)
qed

text \<open>An event from the prime to the child of each session, in order.\<close>

definition prime_event :: "string \<Rightarrow> AgentMsgKind \<Rightarrow> string \<Rightarrow> SessionRow \<Rightarrow> BusEvent \<Rightarrow> bool" where
  "prime_event grp kind text r ev \<longleftrightarrow> be_group ev = grp \<and> be_session ev = se_name r \<and> be_from_agent ev = ''prime''
     \<and> be_to_agent ev = se_child_agent r \<and> be_kind ev = kind \<and> be_payload ev = bytes_of text"

definition active :: "SessionRow \<Rightarrow> bool" where
  "active r \<longleftrightarrow> se_status r = ''active''"

lemma broadcast_to_all:
  assumes "db_ok (dm_db s)" "distinct (map se_name rs)" "\<forall>r\<in>set rs. active r \<longrightarrow> bus_room grp (se_name r) (dm_db s)"
  shows "\<exists>s' evs. broadcast_to w grp kind text rs sent s = (sent + of_nat (length (filter active rs)), s')
    \<and> dm_agent_bcast s' = dm_agent_bcast s @ evs \<and> list_all2 (prime_event grp kind text) (filter active rs) evs"
  using assms
proof (induction rs arbitrary: s sent)
  case Nil
  then show ?case by simp
next
  case (Cons r rs)
  show ?case
  proof (cases "active r")
    case False
    with Cons show ?thesis by (simp add: active_def)
  next
    case True
    with Cons.prems obtain row d where
      enq: "bus_enqueue w grp (se_name r) ''prime'' (se_child_agent r) kind (bytes_of text) s
        = (Inr (am_seq row), s\<lparr>dm_tick := Suc (dm_tick s), dm_db := d, dm_agent_bcast := dm_agent_bcast s @ [event_of row]\<rparr>)"
      "bus_row_for grp (se_name r) ''prime'' (se_child_agent r) kind (bytes_of text) row"
      using bus_enqueue_room [of s grp "se_name r" w "''prime''" "se_child_agent r" kind "bytes_of text"] by auto
    define s1 where "s1 = s\<lparr>dm_tick := Suc (dm_tick s), dm_db := d, dm_agent_bcast := dm_agent_bcast s @ [event_of row]\<rparr>"
    have snd1: "snd (bus_enqueue w grp (se_name r) ''prime'' (se_child_agent r) kind (bytes_of text) s) = s1"
      by (simp add: enq(1) s1_def)
    have "db_ok (dm_db s1)" unfolding snd1 [symmetric] using Cons.prems(1) by simp
    moreover have "bus_room grp (se_name x) (dm_db s1)" if "x \<in> set rs" "active x" for x
      unfolding snd1 [symmetric] using that Cons.prems(2,3) by (intro bus_room_other) (auto simp: rev_image_eqI)
    ultimately obtain s' evs where IH: "broadcast_to w grp kind text rs (sent + 1) s1 = (sent + 1 + of_nat (length (filter active rs)), s')"
      "dm_agent_bcast s' = dm_agent_bcast s1 @ evs" "list_all2 (prime_event grp kind text) (filter active rs) evs"
      using Cons.IH [of s1 "sent + 1"] Cons.prems(2) by auto
    have "prime_event grp kind text r (event_of row)" using enq(2) by (simp add: prime_event_def event_of_def bus_row_for_def)
    moreover have "se_status r = ''active''" using True by (simp add: active_def)
    ultimately show ?thesis using IH True enq(1)
      by (intro exI [where x = s'] exI [where x = "event_of row # evs"]) (simp add: s1_def algebra_simps)
  qed
qed

text \<open>The sessions of a group, as the query lists them.\<close>

definition sessions_of :: "string \<Rightarrow> db \<Rightarrow> SessionRow list" where
  "sessions_of grp d = sql_order_by (\<lambda>r. as_i64 (se_created_at_ms r)) (filter (\<lambda>r. se_group r = grp) (db_sessions d))"

lemma sessions_of_props:
  assumes "orch_unique d"
  shows "distinct (map se_name (sessions_of grp d))" "set (sessions_of grp d) = {r \<in> set (db_sessions d). se_group r = grp}"
proof -
  have m: "mset (sessions_of grp d) = mset (filter (\<lambda>r. se_group r = grp) (db_sessions d))"
    by (simp add: sessions_of_def sql_order_by_def)
  have "unique_rows session_conflict rows \<Longrightarrow> distinct (map se_name (filter (\<lambda>r. se_group r = grp) rows))" for rows
    by (induction rows) (auto simp: unique_rows_def session_conflict_def)
  then have "distinct (map se_name (filter (\<lambda>r. se_group r = grp) (db_sessions d)))" using assms by (simp add: orch_unique_def)
  then show "distinct (map se_name (sessions_of grp d))"
    using mset_eq_imp_distinct_iff [of "map se_name (sessions_of grp d)" "map se_name (filter (\<lambda>r. se_group r = grp) (db_sessions d))"]
    by (simp add: m)
  show "set (sessions_of grp d) = {r \<in> set (db_sessions d). se_group r = grp}" using mset_eq_setD [OF m] by simp
qed

lemma session_list_ok: "db_ok (dm_db s) \<Longrightarrow> on_db (session_list grp) s = (Inr (sessions_of grp (dm_db s)), s)"
  by (simp add: on_db_def session_list_def call_ok sessions_of_def)

text \<open>The origin check compares prefixes only, so a foreign host whose name extends an allowed one passes.\<close>

lemma origin_prefix_accepted: "origin_allowed ''http://localhost.evil.example''" "origin_allowed ''http://127.0.0.1.evil.example''"
  by (simp_all add: origin_allowed_def starts_with_def)

text \<open>A header that is not visible ASCII is treated like a missing one.\<close>

lemma unreadable_origin_accepted: "to_str v = None \<Longrightarrow> origin_guard to_str (Some v) handler = handler"
  by (simp add: origin_guard_def fun_eq_iff)

section \<open>Properties\<close>


definition sample_session :: "string \<Rightarrow> string \<Rightarrow> SessionRow" where
  "sample_session n status = \<lparr>se_group = ''g'', se_name = n, se_prime_agent = ''prime'', se_child_agent = n, se_fs_mode = ''new'',
     se_base_dir = None, se_workspace_path = ''/w'', se_branch = None, se_status = status, se_created_at_ms = 1\<rparr>"

definition sample_web_daemon :: daemon where
  "sample_web_daemon = sample_daemon\<lparr>dm_db := sample_db\<lparr>db_sessions := [sample_session ''a'' ''active'', sample_session ''b'' ''closed'']\<rparr>\<rparr>"


end
