(* ===== verification/Wt_Local.thy ===== *)
theory Wt_Local
  imports Wt_Requests Wt_Web
begin

text \<open>
  The requests that carry no token, and the web gateway.  The locale \<open>request_effects\<close> adds to the effects of
  a connection the writes these make: to the registry of peers, to the tokens, to the outgoing messages and
  to the groups.  Whatever relation allows them, for well-typed arguments, confines every request of the
  kind and every call of the gateway.
\<close>

section \<open>Well-typed requests\<close>

text \<open>What the types of the Rust program and the libraries guarantee: keys, node ids and token ids have their
  lengths, and random values are as long as was asked for.\<close>

definition typed_env :: "env \<Rightarrow> bool" where
  "typed_env e \<longleftrightarrow> ed25519_laws (en_crates e) \<and> (\<forall>b cl. claims_dec (en_crates e) b = Some cl \<longrightarrow> wf_claims cl)
     \<and> (\<forall>i. 32 \<le> length (w_rand (en_world e) i))"

fun wf_request :: "IpcRequest \<Rightarrow> bool" where
  "wf_request (ReqPeerAdd n _ _) \<longleftrightarrow> wf_nodeid n"
| "wf_request _ \<longleftrightarrow> True"

text \<open>What is asked of the peers a request adds.\<close>

fun peer_request :: "(NodeId \<Rightarrow> bytes option \<Rightarrow> bool) \<Rightarrow> IpcRequest \<Rightarrow> bool" where
  "peer_request ok (ReqPeerAdd n _ blob) \<longleftrightarrow> ok n blob"
| "peer_request ok _ \<longleftrightarrow> True"

lemma local_wf: "typed_env e \<Longrightarrow> wf_nodeid (local_nodeid (en_crates e) s)"
  by (simp add: typed_env_def local_nodeid_def wf_secret_laws wf_secret_def [symmetric])

lemma table_reads:
  "snd (peer_get sel d) = d" "snd (peer_list d) = d" "snd (token_list c tp d) = d" "snd (inbox_backlog mp np ch since n d) = d"
  "snd (group_list d) = d" "snd (session_list g d) = d" "snd (agent_list go d) = d" "snd (session_get h n' d) = d" "snd (agent_get h n' d) = d"
  by (simp_all add: peer_get_read peer_list_def token_list_def inbox_backlog_def call_def Let_def)

section \<open>The effects of local requests\<close>

locale request_effects = connection_effects R "\<lambda>_. True"
  for R :: "ipc_state \<Rightarrow> ipc_state \<Rightarrow> bool" +
  fixes c :: crates and peer_ok :: "NodeId \<Rightarrow> bytes option \<Rightarrow> bool"
  assumes peer_new: "peer_ok n blob \<Longrightarrow> confined R (on_db_at w (\<lambda>now. peer_add now n name blob))"
    and peer_gone: "confined R (on_db (peer_remove sel))"
    and token_new: "wf_token_row trow \<Longrightarrow> confined R (on_db (token_insert c trow))"
    and token_off: "confined R (on_db (token_revoke ident))"
    and outgoing: "wf_nodeid (local_nodeid c s) \<Longrightarrow> wf_nodeid peer
      \<Longrightarrow> R s (snd (on_db_at w (\<lambda>now. outbox_enqueue c now (local_nodeid c s) peer ch payload) s))"
    and wake: "R s (notify_peer peer s)"
    and group_new: "confined R (on_db_at w (\<lambda>now. group_create now name))"
begin

lemma confined_reads: "(\<And>d. snd (f d) = d) \<Longrightarrow> confined R (on_db f)"
  by (rule confinedI) (simp add: on_db_reads bound_refl)

lemmas request_rules = confined_and_then write_event_bound write_events_bound confined_return
  draws_bound confined_reads [OF table_reads(1)] confined_reads [OF table_reads(2)] confined_reads [OF table_reads(3)]
  confined_reads [OF table_reads(4)] confined_reads [OF table_reads(5)] confined_reads [OF table_reads(6)]
  confined_reads [OF table_reads(7)] confined_reads [OF table_reads(8)] confined_reads [OF table_reads(9)]

lemma fail_bound: "confined R (fail_with err)"
  by (simp add: confined_def fail_with_def bound_refl)

lemma info_requests_bound:
  "confined R (ipc_status e)" "confined R (ipc_nodeid e)" "confined R (ipc_ticket e)"
  "confined R ipc_conn_list" "confined R ipc_conn_close"
proof -
  show "confined R (ipc_status e)" "confined R (ipc_nodeid e)"
    by (rule confinedI, simp add: ipc_status_def ipc_nodeid_def confinedD [OF write_event_bound])+
  show "confined R (ipc_ticket e)"
    by (auto simp: ipc_ticket_def intro: fail_bound write_event_bound split: sum.splits)
  show "confined R ipc_conn_list"
    unfolding ipc_conn_list_def by (rule confinedI, rule confinedD) (intro request_rules)
  show "confined R ipc_conn_close" unfolding ipc_conn_close_def by (rule write_event_bound)
qed

lemma peer_requests_bound:
  "peer_ok n blob \<Longrightarrow> confined R (ipc_peer_add e n name blob)"
  "confined R (ipc_peer_rm sel)" "confined R (ipc_peer_list f)"
proof -
  show "peer_ok n blob \<Longrightarrow> confined R (ipc_peer_add e n name blob)"
    unfolding ipc_peer_add_def by (intro request_rules peer_new)
  show "confined R (ipc_peer_rm sel)"
    unfolding ipc_peer_rm_def by (auto intro!: request_rules peer_gone)
  show "confined R (ipc_peer_list f)"
    unfolding ipc_peer_list_def Let_def
    by (rule confined_and_then, intro request_rules, rule confinedI, rule confinedD) (intro request_rules)
qed

lemma token_store_bound:
  assumes "wf_claims cl" "token_row c cl stok = Inr trow"
  shows "confined R (on_db (token_insert c trow))"
proof -
  have "wf_token_row trow" using assms by (auto simp: token_row_def wf_claims_def wf_token_row_def split: option.splits)
  then show ?thesis by (rule token_new)
qed

lemma token_table_bound:
  "confined R (ipc_token_list e)" "confined R (ipc_token_revoke ident)"
proof -
  show "confined R (ipc_token_list e)" unfolding ipc_token_list_def by (intro request_rules)
  show "confined R (ipc_token_revoke ident)" unfolding ipc_token_revoke_def by (auto intro!: request_rules token_off)
qed

lemma token_import_bound:
  assumes "typed_env e" "en_crates e = c"
  shows "confined R (ipc_token_import e raw)"
proof (cases "signed_dec c raw")
  case (Some stok)
  note [intro!] = request_rules fail_bound
  show ?thesis
  proof (cases "verify_signed_claims c stok")
    case (Inr cl)
    then have "wf_claims cl" using assms by (auto simp: verify_signed_claims_Inr typed_env_def)
    note store = token_store_bound [OF this]
    have "confined R (and_then (on_db (peer_get (PsNodeId (iss cl)))) (\<lambda>row. case row of
         None \<Rightarrow> write_event (ipc_err BadRequest ''token issuer is not a known peer'')
       | Some _ \<Rightarrow> (case token_row c cl stok of
           Inl err \<Rightarrow> fail_with (DSign err)
         | Inr trow \<Rightarrow> and_then (on_db (token_insert c trow)) (\<lambda>_. write_events [EvTokenListItem (claims_info cl), EvOk]))))"
      using store by (auto split: option.splits sum.splits)
    with Some Inr confinedD [OF this] confinedD [OF write_event_bound] show ?thesis
      by (auto simp: ipc_token_import_def Let_def assms(2) intro!: confinedI)
  qed (use Some in \<open>auto simp: ipc_token_import_def assms(2)\<close>)
qed (auto simp: ipc_token_import_def assms(2) intro: request_rules)

lemma token_grant_bound:
  assumes "typed_env e" "en_crates e = c"
  shows "confined R (ipc_token_grant e sel cs ttl)"
  unfolding ipc_token_grant_def Let_def assms(2)
proof (rule confinedI, rule bound_and_then, rule confinedD, intro request_rules, goal_cases)
  case (1 s row t)
  note [intro!] = request_rules fail_bound
  have wf: "wf_nodeid (pr_nodeid p)" if "row = Some p" for p
    using 1 that peer_get_wf [of "sel_to_bytes sel" "dm_db s"] by (auto simp: on_db_def split: prod.splits sum.splits)
  have store: "confined R (on_db (token_insert c trow))"
    if "row = Some p" "draw e 16 s' = (Inr rnd, u)" "sign_token c now rnd (dm_secret u) (pr_nodeid p) cs ttl = Inr (cl, stok)"
      "token_row c cl stok = Inr trow" for p s' rnd u now cl stok trow
  proof (rule token_store_bound [OF _ that(4)])
    have "length rnd = 16" using that(2) assms by (auto simp: draw_def typed_env_def min_def dest: spec [of _ "dm_rands s'"])
    then show "wf_claims cl"
      using sign_token_claims [OF that(3)] wf [OF that(1)] assms wf_secret_laws [of c "dm_secret u"]
      by (simp add: wf_claims_def typed_env_def wf_secret_def)
  qed
  show ?case
  proof (cases row)
    case (Some p)
    show ?thesis unfolding Some option.case
    proof (rule bound_and_then, rule confinedD [OF draws_bound(3)],
        rule bound_and_then, rule confinedD [OF draws_bound(1)], goal_cases)
      case (1 now t' rnd u)
      note store = store [OF Some 1(2)]
      show ?case by (rule confinedD) (auto intro!: store split: sum.splits option.splits)
    qed
  qed (simp add: confinedD [OF write_event_bound])
qed

section \<open>Messages and groups\<close>

lemma send_bound:
  assumes "typed_env e" "en_crates e = c"
  shows "confined R (ipc_send e sel ch payload)"
  unfolding ipc_send_def Let_def assms(2)
proof (rule confinedI, rule bound_and_then, rule confinedD, intro request_rules, goal_cases)
  case (1 s row t)
  have "R t (snd (on_db_at (en_world e) (\<lambda>now. outbox_enqueue c now (local_nodeid c t) (pr_nodeid p) ch payload) t))"
    if "row = Some p" for p
  proof -
    have "wf_nodeid (pr_nodeid p)"
      using 1 that peer_get_wf [of "sel_to_bytes sel" "dm_db s"] by (auto simp: on_db_def split: prod.splits sum.splits)
    then show ?thesis
      using local_wf [OF assms(1), of t] by (intro outgoing) (simp_all add: assms(2))
  qed
  then show ?case
    by (auto intro!: bound_and_then bound_after [OF write_event_bound] wake
        simp: confinedD [OF write_event_bound] split: option.splits)
qed

lemma recv_bound: "confined R (ipc_recv_subscribe e live sel ch since follow)"
proof -
  have "R s (snd (recv_tail wp wc evs s))" for wp wc evs and s :: ipc_state
  proof (induction evs arbitrary: s)
    case (Cons x evs)
    show ?case
    proof (cases x)
      case (RxItem ev)
      have "R s (snd (and_then (write_event ev) (\<lambda>_. recv_tail wp wc evs) s))"
        by (rule bound_and_then [OF confinedD [OF write_event_bound]]) (rule Cons.IH)
      with RxItem Cons.IH show ?thesis by simp
    qed (simp add: Cons.IH)
  qed (simp add: bound_refl)
  then have tail: "confined R (if b then (\<lambda>s2. (Inr (), s2)) else recv_tail wp wc evs)" for b wp wc evs
    by (simp add: confined_def bound_refl)
  show ?thesis
    unfolding ipc_recv_subscribe_def Let_def
    by (rule confinedI, rule bound_and_then, rule confinedD, intro request_rules, rule confinedD, intro request_rules tail)
qed

lemma items_bound: "confined R (group_items gs)" "confined R (session_items rs)"
proof -
  show "confined R (group_items gs)"
  proof (induction gs)
    case (Cons g gs)
    have "confined R (and_then (on_db (session_list (gr_name g))) (\<lambda>ss.
       and_then (write_event (EvGroupListItem \<lparr>gi_name = gr_name g, gi_created_at_ms = gr_created_at_ms g,
         gi_session_count = of_nat (length ss)\<rparr>)) (\<lambda>_. group_items gs)))"
      by (intro request_rules Cons.IH)
    then show ?case by (simp add: confined_def)
  qed (simp add: confined_def bound_refl)
  show "confined R (session_items rs)"
  proof (induction rs)
    case (Cons r rs)
    have "confined R (and_then (on_db (agent_get (se_group r) (se_child_agent r))) (\<lambda>child.
       and_then (write_event (EvSessionListItem (session_info r (map_option ag_status child)))) (\<lambda>_. session_items rs)))"
      by (intro request_rules Cons.IH)
    then show ?case by (simp add: confined_def)
  qed (simp add: confined_def bound_refl)
qed

lemma group_requests_bound:
  "confined R (ipc_group_new e name)" "confined R ipc_group_list"
  "confined R (ipc_session_list g)" "confined R (ipc_agent_list go so)"
proof -
  show "confined R (ipc_group_new e name)"
    unfolding ipc_group_new_def Let_def by (auto intro!: request_rules group_new agent_new)
  show "confined R ipc_group_list" "confined R (ipc_session_list g)"
    unfolding ipc_group_list_def ipc_session_list_def by (intro request_rules items_bound)+
  show "confined R (ipc_agent_list go so)"
    unfolding ipc_agent_list_def agent_items_def by (auto intro!: request_rules split: option.splits)
qed

lemma local_request_bound:
  assumes "req_token req = None" "typed_env e" "en_crates e = c" "peer_request peer_ok req"
  shows "R s (snd (dispatch e tls req s))"
  using assms
  by (cases req)
    (auto simp: dispatch_def intro!: confinedD [OF info_requests_bound(1)] confinedD [OF info_requests_bound(2)]
      confinedD [OF info_requests_bound(3)] confinedD [OF info_requests_bound(4)] confinedD [OF info_requests_bound(5)]
      confinedD [OF peer_requests_bound(1)] confinedD [OF peer_requests_bound(2)] confinedD [OF peer_requests_bound(3)]
      confinedD [OF token_table_bound(1)] confinedD [OF token_table_bound(2)] confinedD [OF token_import_bound]
      confinedD [OF token_grant_bound] confinedD [OF send_bound] confinedD [OF recv_bound]
      confinedD [OF group_requests_bound(1)] confinedD [OF group_requests_bound(2)] confinedD [OF group_requests_bound(3)]
      confinedD [OF group_requests_bound(4)])

lemma serve_bound:
  assumes "R s (snd (dispatch e tls req s))"
  shows "R s (snd (serve e tls req s))"
proof -
  obtain r t where d: "dispatch e tls req s = (r, t)" by fastforce
  with assms have "R s t" by simp
  then show ?thesis by (cases r) (auto simp: serve_def d intro: bound_after [OF write_event_bound])
qed

section \<open>The web gateway\<close>

lemma returns_bound: "confined R (\<lambda>s. (f s, s))"
  by (simp add: confined_def bound_refl)

lemma or_500_bound:
  assumes "confined R m" "\<And>a. confined R (f a)"
  shows "confined R (or_500 display m f)"
proof (rule confinedI)
  fix s
  obtain r t where m: "m s = (r, t)" by fastforce
  then have "R s t" using confinedD [OF assms(1), of s] by simp
  then show "R s (snd (or_500 display m f s))"
    using confinedD [OF assms(2)] m by (cases r) (auto simp: or_500_def intro: bound_trans)
qed

lemma web_bound: "confined R (web_serve display w to_str origin req)"
proof -
  have log: "snd (agent_msg_session_log g sn a d) = d" "snd (agent_msg_group_feed g a d) = d" for g sn a d by simp_all
  have cast: "R s (snd (broadcast_to w g k body rs sent s))" for g k body rs sent and s :: ipc_state
  proof (induction rs arbitrary: sent s)
    case (Cons r rs)
    obtain x t where b: "bus_enqueue w g (se_name r) ''prime'' (se_child_agent r) k (bytes_of body) s = (x, t)" by fastforce
    have "R s (snd (bus_enqueue w g (se_name r) ''prime'' (se_child_agent r) k (bytes_of body) s))"
      by (auto intro: confinedD [OF bus_enqueue_bound])
    then have "R s t" by (simp add: b)
    with Cons b show ?case by (cases x) (auto intro: bound_trans)
  qed (simp add: bound_refl)
  have "confined R (web_route display w req)"
  proof (cases req)
    case (PostBroadcast g k body)
    have "confined R (\<lambda>s. case broadcast_to w g (body_kind k) body rs 0 s of
         (sent, s') \<Rightarrow> (json_ok (JObject [(''ok'', JBool True), (''sent'', JNumber (show_nat (unat sent)))]), s'))" for rs
    proof (rule confinedI, goal_cases)
      case (1 s)
      obtain sent t where b: "broadcast_to w g (body_kind k) body rs 0 s = (sent, t)" by fastforce
      have "R s (snd (broadcast_to w g (body_kind k) body rs 0 s))" by (rule cast)
      then show ?case by (simp add: b)
    qed
    then show ?thesis
      unfolding PostBroadcast web_route_def WebRequest.case web_broadcast_def by (intro or_500_bound request_rules)
  qed (auto simp: web_route_def web_list_groups_def web_list_sessions_def web_list_messages_def web_send_message_def
      web_group_feed_def intro!: or_500_bound returns_bound request_rules confined_reads [OF log(1)] confined_reads [OF log(2)] bus_enqueue_bound
      split: option.splits)
  then show ?thesis
    by (auto simp: confined_def web_serve_def origin_guard_def bound_refl split: option.splits)
qed

end

end
