(* ===== verification/Wt_Kept.thy ===== *)
theory Wt_Kept
  imports Wt_Local
begin

text \<open>
  What every request keeps.  The relation \<open>served\<close> says what a request may do to the daemon apart from the
  groups it reaches: it goes through operations of the store whose arguments are well typed, it adds only
  this install's own rows to the message log, and it leaves streams, inbound tasks and published messages
  alone.  \<open>served\<close> interprets \<open>socket_effects\<close> for every group, which covers the requests that carry a token
  and the supervisor, and \<open>request_effects\<close>, which covers the remaining requests and the web gateway.
\<close>

section \<open>The message log\<close>

text \<open>A row without its delivery stamp, the only part of a row that is ever rewritten.\<close>

definition undelivered :: "msg_rec \<Rightarrow> msg_rec" where
  "undelivered r = r\<lparr>m_delivered_at_ms := None\<rparr>"

lemma undelivered_simps [simp]:
  "m_sender (undelivered r) = m_sender r" "m_channel_id (undelivered r) = m_channel_id r" "m_seq (undelivered r) = m_seq r"
  "m_direction (undelivered r) = m_direction r" "m_channel (undelivered r) = m_channel r" "m_peer (undelivered r) = m_peer r"
  "m_payload (undelivered r) = m_payload r" "m_enqueued_at_ms (undelivered r) = m_enqueued_at_ms r"
  "undelivered (undelivered r) = undelivered r"
  by (simp_all add: undelivered_def)

definition own_row :: "crates \<Rightarrow> NodeId \<Rightarrow> msg_rec \<Rightarrow> bool" where
  "own_row c me r \<longleftrightarrow> m_direction r = 0 \<and> m_sender r = nid me \<and> m_channel_id r = channel_id c (m_channel r)"

lemma own_row_undelivered [simp]: "own_row c me (undelivered r) = own_row c me r"
  by (simp add: own_row_def)

text \<open>The log keeps its rows, in order, and every row it gains satisfies \<open>P\<close>.\<close>

definition log_grows :: "(msg_rec \<Rightarrow> bool) \<Rightarrow> msg_rec list \<Rightarrow> msg_rec list \<Rightarrow> bool" where
  "log_grows P rows rows' \<longleftrightarrow>
     map undelivered (take (length rows) rows') = map undelivered rows \<and> list_all P (drop (length rows) rows')"

lemma log_grows_refl [simp]: "log_grows P rows rows"
  by (simp add: log_grows_def)

lemma log_grows_snoc: "P r \<Longrightarrow> log_grows P rows (rows @ [r])"
  by (simp add: log_grows_def)

lemma log_grows_split:
  assumes "log_grows P rows rows'"
  shows "\<exists>old new. rows' = old @ new \<and> map undelivered old = map undelivered rows \<and> list_all P new"
  using assms unfolding log_grows_def by (metis append_take_drop_id)

lemma log_growsI:
  "map undelivered old = map undelivered rows \<Longrightarrow> list_all P new \<Longrightarrow> log_grows P rows (old @ new)"
  using map_eq_imp_length_eq [of undelivered old undelivered rows] by (simp add: log_grows_def)

lemma log_grows_trans:
  assumes P: "\<And>r r'. undelivered r = undelivered r' \<Longrightarrow> P r = P r'"
    and "log_grows P a b" and "log_grows P b d"
  shows "log_grows P a d"
proof -
  from assms(2) obtain old new where b: "b = old @ new" "map undelivered old = map undelivered a" "list_all P new"
    by (blast dest: log_grows_split)
  from assms(3) obtain old' new' where d: "d = old' @ new'" "map undelivered old' = map undelivered b" "list_all P new'"
    by (blast dest: log_grows_split)
  from d(2) b(1) obtain x y where xy: "old' = x @ y" "map undelivered x = map undelivered old" "map undelivered y = map undelivered new"
    by (auto simp: map_eq_append_conv)
  have "list_all P y" using xy(3) b(3)
  proof (induction y arbitrary: new)
    case (Cons r y)
    then obtain r' new' where n: "new = r' # new'" by (cases new) auto
    with Cons P [of r r'] show ?case by simp
  qed simp
  then show ?thesis unfolding d(1) xy(1) append_assoc using b(2) xy(2) d(3) by (intro log_growsI) auto
qed

lemma log_grows_row:
  assumes "log_grows P rows rows'" "r' \<in> set rows'"
  shows "P r' \<or> (\<exists>r\<in>set rows. undelivered r = undelivered r')"
proof -
  from assms(1) obtain old new where s: "rows' = old @ new" "map undelivered old = map undelivered rows" "list_all P new"
    by (blast dest: log_grows_split)
  from s(2) have "undelivered ` set old = undelivered ` set rows" by (metis list.set_map)
  moreover have "r' \<in> set old \<or> P r'" using assms(2) s(1,3) by (auto simp: list_all_iff)
  ultimately show ?thesis by (metis imageE image_eqI)
qed

lemma log_grows_keeps:
  assumes "log_grows P rows rows'" "r \<in> set rows"
  shows "\<exists>r'\<in>set rows'. undelivered r' = undelivered r"
proof -
  from assms(1) obtain old new where s: "rows' = old @ new" "map undelivered old = map undelivered rows"
    by (blast dest: log_grows_split)
  from s(2) assms(2) have "undelivered r \<in> undelivered ` set old" by (metis image_eqI list.set_map)
  then obtain r' where "r' \<in> set old" "undelivered r' = undelivered r" by (metis imageE)
  with s(1) show ?thesis by (intro bexI [where x = r']) simp_all
qed

section \<open>The registry\<close>

text \<open>An address ticket kept for a peer names that peer.\<close>

definition addressed :: "crates \<Rightarrow> bytes \<Rightarrow> bytes option \<Rightarrow> bool" where
  "addressed c n blob =
     (case Option.bind blob (ticket_dec c) of None \<Rightarrow> True | Some tk \<Rightarrow> nid (tk_nodeid tk) = n)"

definition peers_addressed :: "crates \<Rightarrow> db \<Rightarrow> bool" where
  "peers_addressed c d \<longleftrightarrow> list_all (\<lambda>r. addressed c (p_nodeid r) (p_addr_blob r)) (db_peers d)"

lemma peer_add_addressed:
  "addressed c (nid n) blob \<Longrightarrow> peers_addressed c d \<Longrightarrow> peers_addressed c (snd (peer_add now n name blob d))"
  by (auto simp: peers_addressed_def peer_add_def call_def sql_update_def list_all_iff coalesce_def split: option.splits)

lemma peer_other_addressed:
  "peers_addressed c d \<Longrightarrow> peers_addressed c (snd (peer_remove sel d))"
  "peers_addressed c d \<Longrightarrow> peers_addressed c (snd (peer_touch_seen now n d))"
  by (auto simp: peers_addressed_def peer_remove_def peer_touch_seen_def call_def sql_update_def sql_delete_def list_all_iff)

section \<open>The relation\<close>

text \<open>\<open>ok\<close> says that the peers added meanwhile are addressed.\<close>

definition served :: "crates \<Rightarrow> bool \<Rightarrow> 'z daemon_scheme \<Rightarrow> 'z daemon_scheme \<Rightarrow> bool" where
  "served c ok s t \<longleftrightarrow>
     dm_secret t = dm_secret s \<and> dm_wires t = dm_wires s \<and> dm_inbound_tasks t = dm_inbound_tasks s
     \<and> dm_recv_bcast t = dm_recv_bcast s \<and> store_reachable c (dm_db s) (dm_db t)
     \<and> log_grows (own_row c (local_nodeid c s)) (db_messages (dm_db s)) (db_messages (dm_db t))
     \<and> (ok \<longrightarrow> peers_addressed c (dm_db s) \<longrightarrow> peers_addressed c (dm_db t))"

lemma store_reachable_trans: "store_reachable c b d \<Longrightarrow> store_reachable c a b \<Longrightarrow> store_reachable c a d"
  by (induction rule: store_reachable.induct) (auto intro: sr_step)

lemma store_reachable_one: "store_step c a b \<Longrightarrow> store_reachable c a b"
  by (rule sr_step [OF sr_refl])

lemma served_refl: "served c ok s s"
  by (simp add: served_def sr_refl)

lemma served_trans: "served c ok s t \<Longrightarrow> served c ok t u \<Longrightarrow> served c ok s u"
proof -
  have P: "undelivered r = undelivered r' \<Longrightarrow> own_row c me r = own_row c me r'" for me r r'
    by (metis own_row_undelivered)
  assume st: "served c ok s t" and tu: "served c ok t u"
  have "local_nodeid c t = local_nodeid c s" using st by (simp add: served_def local_nodeid_def)
  with st tu have "log_grows (own_row c (local_nodeid c s)) (db_messages (dm_db s)) (db_messages (dm_db t))"
    "log_grows (own_row c (local_nodeid c s)) (db_messages (dm_db t)) (db_messages (dm_db u))" by (simp_all add: served_def)
  from log_grows_trans [OF P this]
  have "log_grows (own_row c (local_nodeid c s)) (db_messages (dm_db s)) (db_messages (dm_db u))" .
  moreover have "store_reachable c (dm_db s) (dm_db u)"
    using st tu by (auto simp: served_def intro: store_reachable_trans)
  ultimately show ?thesis using st tu by (simp add: served_def)
qed

lemma served_weaken: "served c ok s t \<Longrightarrow> served c False s t"
  by (simp add: served_def)

text \<open>A store call that writes neither the message log nor the registry.\<close>

lemma served_step:
  assumes "store_step c (dm_db s) (dm_db t)" "db_messages (dm_db t) = db_messages (dm_db s)" "db_peers (dm_db t) = db_peers (dm_db s)"
    and "dm_secret t = dm_secret s" "dm_wires t = dm_wires s" "dm_inbound_tasks t = dm_inbound_tasks s" "dm_recv_bcast t = dm_recv_bcast s"
  shows "served c ok s t"
  using assms store_reachable_one by (simp add: served_def peers_addressed_def)

lemma served_on_db:
  assumes "\<And>d. store_step c d (snd (f d))" "\<And>d. db_messages (snd (f d)) = db_messages d" "\<And>d. db_peers (snd (f d)) = db_peers d"
  shows "confined (served c ok) (on_db f)"
  by (rule confinedI, rule served_step) (simp_all add: assms)

lemma served_on_db_at:
  assumes "\<And>now d. store_step c d (snd (f now d))" "\<And>now d. db_messages (snd (f now d)) = db_messages d"
    "\<And>now d. db_peers (snd (f now d)) = db_peers d"
  shows "confined (served c ok) (on_db_at w f)"
  by (rule confinedI, rule served_step) (simp_all add: assms)

lemma served_plain:
  "served c ok s (s\<lparr>dm_agent_bcast := evs\<rparr>)" "served c ok s (s\<lparr>dm_tick := i\<rparr>)" "served c ok s (s\<lparr>dm_rands := i\<rparr>)"
  "served c ok s (snd (kill_child g n s))" "served c ok s (register_child g n task s)" "served c ok s (forget_child g n s)"
  "served c ok s (notify_peer peer s)"
  "served c ok x (x\<lparr>cx_out := out, cx_room := room\<rparr>)" "served c ok x (x\<lparr>cx_fs := fs\<rparr>)" "served c ok x (x\<lparr>cx_tasks := ts\<rparr>)"
  by (auto simp: served_def sr_refl kill_child_def register_child_def forget_child_def notify_peer_def Let_def split: option.splits)

interpretation kept: socket_effects "served c ok" "\<lambda>_. True"
  by unfold_locales
    (auto intro: served_refl served_trans served_plain served_on_db served_on_db_at store_intros)

lemma outbox_enqueue_grows:
  "log_grows (own_row c me) (db_messages d) (db_messages (snd (outbox_enqueue c now me p ch payload d)))"
  by (auto simp: outbox_enqueue_def call_def Let_def own_row_def intro!: log_grows_snoc split: option.splits)

text \<open>A peer is added with a ticket of its own, as the command line does.\<close>

fun addressed_request :: "crates \<Rightarrow> IpcRequest \<Rightarrow> bool" where
  "addressed_request c (ReqPeerAdd n _ blob) \<longleftrightarrow> addressed c (nid n) blob"
| "addressed_request c _ \<longleftrightarrow> True"

interpretation kept_local: request_effects "served c ok" c "\<lambda>n blob. wf_nodeid n \<and> (ok \<longrightarrow> addressed c (nid n) blob)"
proof unfold_locales
  fix s :: ipc_state and n peer :: NodeId and blob name sel w trow ident ch payload
  show "confined (served c ok) (on_db_at w (\<lambda>now. peer_add now n name blob))"
    if "wf_nodeid n \<and> (ok \<longrightarrow> addressed c (nid n) blob)" for n name blob w
    using that by (intro confinedI) (simp add: served_def store_reachable_one st_peer_add peer_add_addressed)
  show "confined (served c ok) (on_db (peer_remove sel))" for sel
    by (rule confinedI) (simp add: served_def store_reachable_one st_peer_remove peer_other_addressed)
  show "served c ok s (snd (on_db_at w (\<lambda>now. outbox_enqueue c now (local_nodeid c s) peer ch payload) s))"
    if "wf_nodeid (local_nodeid c s)" "wf_nodeid peer" for s :: ipc_state and peer w ch payload
    using that by (simp add: served_def store_reachable_one st_outbox_enqueue outbox_enqueue_grows peers_addressed_def)
qed (auto intro: served_plain served_on_db served_on_db_at st_token_insert st_token_revoke st_group_create)

section \<open>Every request\<close>

lemma dispatch_kept:
  assumes "typed_env e" "wf_request req"
  shows "served (en_crates e) (addressed_request (en_crates e) req) s (snd (dispatch e tls req s))"
proof (cases "req_token req")
  case (Some token)
  then show ?thesis by (rule kept.token_request_bound) simp
next
  case None
  have "peer_request (\<lambda>n blob. wf_nodeid n \<and> (addressed_request (en_crates e) req \<longrightarrow> addressed (en_crates e) (nid n) blob)) req"
    using assms(2) by (cases req) auto
  from kept_local.local_request_bound [OF None assms(1) refl this] show ?thesis .
qed

lemma serve_kept:
  assumes "typed_env e" "wf_request req"
  shows "served (en_crates e) (addressed_request (en_crates e) req) s (snd (serve e tls req s))"
  by (rule kept_local.serve_bound [OF dispatch_kept [OF assms]])

text \<open>A whole connection, whatever it sends.\<close>

lemma connection_kept:
  assumes "typed_env e" "\<And>b req. en_req_dec e b = Some req \<Longrightarrow> wf_request req"
  shows "served (en_crates e) False s (snd (handle_ipc_conn e tls rs s))"
proof (rule connection_bound)
  show "effect_bound (served (en_crates e) False :: ipc_state \<Rightarrow> ipc_state \<Rightarrow> bool)" ..
  show "served (en_crates e) False s (snd (write_event ev s))" for ev s by (rule confinedD [OF kept.write_event_bound])
  show "served (en_crates e) False s (snd (serve e tls req s))" if "en_req_dec e b = Some req" for b req s
    using served_weaken [OF serve_kept [OF assms(1) assms(2) [OF that]]] .
qed

lemma web_kept: "confined (served c ok :: ipc_state \<Rightarrow> ipc_state \<Rightarrow> bool) (web_serve display w to_str origin req)"
  by (rule kept_local.web_bound)

section \<open>Properties\<close>

text \<open>
  C8 Well-typed requests keep a well-formed store.  A connection to the local socket, whatever bytes it
  sends and wherever it breaks off, leaves a store in which every row has its declared shape, every key is
  unique and every bus log is a window; no message row is lost or rewritten apart from its delivery stamp,
  every new one is an outgoing row of this install under the channel's own id, and the install's key, its
  streams and what it has published to subscribers stay as they were.
\<close>

theorem connection_well_typed:
  assumes "blake3_laws (en_crates e)" and "typed_env e" and "\<forall>b req. en_req_dec e b = Some req \<longrightarrow> wf_request req"
    and "db_inv (dm_db s)"
  shows "db_inv (dm_db (snd (handle_ipc_conn e tls rs s)))
    \<and> log_grows (own_row (en_crates e) (local_nodeid (en_crates e) s)) (db_messages (dm_db s))
        (db_messages (dm_db (snd (handle_ipc_conn e tls rs s))))
    \<and> dm_secret (snd (handle_ipc_conn e tls rs s)) = dm_secret s \<and> dm_wires (snd (handle_ipc_conn e tls rs s)) = dm_wires s
    \<and> dm_recv_bcast (snd (handle_ipc_conn e tls rs s)) = dm_recv_bcast s"
proof -
  have "served (en_crates e) False s (snd (handle_ipc_conn e tls rs s))"
    by (rule connection_kept [OF assms(2)]) (use assms(3) in blast)
  then show ?thesis using store_reachable_inv [OF _ assms(1,4)] by (simp add: served_def)
qed

text \<open>Node ids of the sample libraries have their length; a world with enough random bytes and a socket on
  which every frame asks to add a peer.\<close>

definition sample_typed :: env where
  "sample_typed =
     \<lparr>en_crates = sample_crates, en_json = sample_json_crate, en_world = sample_world\<lparr>w_rand := (\<lambda>i. replicate 32 5)\<rparr>, en_host = sample_host,
      en_proc = (\<lambda>spec. None), en_harness_cmd = None,
      en_ticket = \<lparr>tk_nodeid = sample_node 1, relay_url = None, direct_addrs = []\<rparr>,
      en_show = (\<lambda>err. ''error''), en_show_chain = (\<lambda>err. ''error''), en_show_cbor = (\<lambda>b. ''cbor''),
      en_req_dec = (\<lambda>b. Some (ReqPeerAdd (sample_node 2) ''bob'' None))\<rparr>"

lemma sample_typed_env: "typed_env sample_typed"
  using sample_ed25519 by (simp add: typed_env_def sample_typed_def)
    (auto simp: sample_crates_def s_claims_dec_def wf_claims_def wf_nodeid_def split: if_splits)

definition sample_open_conn :: ipc_state where
  "sample_open_conn =
     daemon.extend sample_daemon \<lparr>cx_out = [], cx_room = None, cx_fs = sample_disk, cx_lan = None, cx_tasks = []\<rparr>"

lemma connection_well_typed_witness:
  "db_inv (dm_db (snd (handle_ipc_conn sample_typed \<lparr>tl_recv = [], tl_agent = []\<rparr> \<lparr>rs_in = [0, 0, 0, 1, 7], rs_end = Finished\<rparr> sample_open_conn)))"
proof -
  have "db_inv (dm_db sample_open_conn)"
    by (simp add: sample_open_conn_def daemon.defs sample_daemon_def)
  moreover have "\<forall>b req. en_req_dec sample_typed b = Some req \<longrightarrow> wf_request req" by (simp add: sample_typed_def)
  moreover have "blake3_laws (en_crates sample_typed)" using sample_blake3 by (simp add: sample_typed_def)
  ultimately show ?thesis using connection_well_typed [OF _ sample_typed_env] by blast
qed

end
