(* ===== verification/Wt_Wires.thy ===== *)
theory Wt_Wires
  imports Wt_Kept
begin

text \<open>
  What an install's outgoing streams carry: an opening frame for the channel and frames of its own rows
  addressed to the peer, cut off anywhere when the connection is lost.  The lemmas follow one row through
  \<open>deliver_row\<close>, and the bytes of a stream, or any leading part of them, through the receive loop at the
  other end.
\<close>

section \<open>Frames of the outbox\<close>

text \<open>The frame was made of an outgoing row for this peer and channel.\<close>

definition sent_frame :: "msg_rec list \<Rightarrow> NodeId \<Rightarrow> string \<Rightarrow> MessageFrame \<Rightarrow> bool" where
  "sent_frame rows peer ch mf \<longleftrightarrow>
     list_ex (\<lambda>r. m_direction r = 0 \<and> m_peer r = nid peer \<and> m_channel r = ch \<and> mf = frame_of (as_message r)) rows"

lemma frame_of_undelivered:
  assumes "undelivered r = undelivered r'"
  shows "frame_of (as_message r) = frame_of (as_message r')"
proof -
  have "frame_of (as_message x) = frame_of (as_message (undelivered x))" for x
    by (simp add: frame_of_def as_message_def)
  then show ?thesis using assms by metis
qed

lemma undelivered_same:
  assumes "undelivered r' = undelivered r"
  shows "m_sender r' = m_sender r" "m_channel_id r' = m_channel_id r" "m_seq r' = m_seq r" "m_direction r' = m_direction r"
    "m_channel r' = m_channel r" "m_peer r' = m_peer r" "m_payload r' = m_payload r" "m_enqueued_at_ms r' = m_enqueued_at_ms r"
  using undelivered_simps assms by metis+

lemma sent_frame_grows:
  assumes "log_grows P rows rows'" "sent_frame rows peer ch mf"
  shows "sent_frame rows' peer ch mf"
proof -
  from assms(2) obtain r where r: "r \<in> set rows" "m_direction r = 0" "m_peer r = nid peer" "m_channel r = ch" "mf = frame_of (as_message r)"
    by (auto simp: sent_frame_def list_ex_iff)
  from log_grows_keeps [OF assms(1) r(1)] obtain r' where r': "r' \<in> set rows'" "undelivered r' = undelivered r" by blast
  show ?thesis
    unfolding sent_frame_def list_ex_iff
    using r r'(1) undelivered_same [OF r'(2)] frame_of_undelivered [OF r'(2)] by (intro bexI [where x = r']) simp_all
qed

section \<open>Streams\<close>

text \<open>A stream that lost its connection may stop inside a frame; one a task still owns ends with a whole frame.\<close>

definition genuine :: "crates \<Rightarrow> msg_rec list \<Rightarrow> Wire \<Rightarrow> bool" where
  "genuine c rows wr \<longleftrightarrow> wr_dialled wr = wr_target wr \<and>
     (\<exists>tok ob fs n. open_enc c (StreamMsg tok (wr_channel wr)) = Some ob \<and> fits ob \<and> list_all (encodable c) fs
        \<and> list_all (sent_frame rows (wr_target wr) (wr_channel wr)) fs
        \<and> ss_out (wr_stream wr) = take n (frame_bytes ob @ concat (map (mf_wire c) fs)))"

definition intact :: "crates \<Rightarrow> msg_rec list \<Rightarrow> Wire \<Rightarrow> bool" where
  "intact c rows wr \<longleftrightarrow> wr_dialled wr = wr_target wr \<and>
     (\<exists>fs. wire_holds c wr fs [] \<and> list_all (sent_frame rows (wr_target wr) (wr_channel wr)) fs)"

lemma intact_genuine:
  assumes "intact c rows wr"
  shows "genuine c rows wr"
proof -
  from assms obtain fs tok ob where w: "list_all (encodable c) fs" "open_enc c (StreamMsg tok (wr_channel wr)) = Some ob" "fits ob"
    "ss_out (wr_stream wr) = frame_bytes ob @ concat (map (mf_wire c) fs)"
    "list_all (sent_frame rows (wr_target wr) (wr_channel wr)) fs" "wr_dialled wr = wr_target wr"
    by (auto simp: intact_def wire_holds_def)
  then have "ss_out (wr_stream wr) = take (length (ss_out (wr_stream wr))) (frame_bytes ob @ concat (map (mf_wire c) fs))" by simp
  with w show ?thesis unfolding genuine_def by blast
qed

lemma sent_frames_grow:
  "log_grows P rows rows' \<Longrightarrow> list_all (sent_frame rows peer ch) fs \<Longrightarrow> list_all (sent_frame rows' peer ch) fs"
  by (auto simp: list_all_iff intro: sent_frame_grows)

lemma genuine_grows: "log_grows P rows rows' \<Longrightarrow> genuine c rows wr \<Longrightarrow> genuine c rows' wr"
  unfolding genuine_def using sent_frames_grow by blast

lemma intact_grows: "log_grows P rows rows' \<Longrightarrow> intact c rows wr \<Longrightarrow> intact c rows' wr"
  unfolding intact_def using sent_frames_grow by blast

text \<open>The streams a delivery task owns.\<close>

definition owned :: "crates \<Rightarrow> msg_rec list \<Rightarrow> NodeId \<Rightarrow> streams \<Rightarrow> Wire list \<Rightarrow> bool" where
  "owned c rows peer st wires \<longleftrightarrow> (\<forall>ch i. map_of st ch = Some i \<longrightarrow> i < length wires \<and> wr_target (wires ! i) = peer
     \<and> wr_channel (wires ! i) = ch \<and> intact c rows (wires ! i))"

lemma owned_empty [simp]: "owned c rows peer [] wires"
  by (simp add: owned_def)

lemma owned_grows: "log_grows P rows rows' \<Longrightarrow> owned c rows peer st wires \<Longrightarrow> owned c rows' peer st wires"
  unfolding owned_def using intact_grows by blast

text \<open>Streams to other peers are not touched.\<close>

definition others_kept :: "NodeId \<Rightarrow> Wire list \<Rightarrow> Wire list \<Rightarrow> bool" where
  "others_kept peer ws ws' \<longleftrightarrow> length ws \<le> length ws' \<and> (\<forall>i<length ws. wr_target (ws ! i) \<noteq> peer \<longrightarrow> ws' ! i = ws ! i)"

lemma owned_others: "others_kept peer ws ws' \<Longrightarrow> owned c rows peer' st ws \<Longrightarrow> peer' \<noteq> peer \<Longrightarrow> owned c rows peer' st ws'"
  by (fastforce simp: owned_def others_kept_def)

lemma others_kept_update:
  assumes "others_kept peer ws ws'" "wr_target (ws' ! i) = peer"
  shows "others_kept peer ws (ws'[i := wr])"
  unfolding others_kept_def
proof (intro conjI allI impI)
  fix j
  assume j: "j < length ws" "wr_target (ws ! j) \<noteq> peer"
  then have "ws' ! j = ws ! j" using assms(1) by (simp add: others_kept_def)
  moreover from this j assms(2) have "j \<noteq> i" by auto
  ultimately show "ws'[i := wr] ! j = ws ! j" by simp
qed (use assms(1) in \<open>simp add: others_kept_def\<close>)

lemma owned_open:
  assumes "owned c rows peer st ws" "intact c rows wr" "wr_target wr = peer" "wr_channel wr = ch"
  shows "owned c rows peer (AList.update ch (length ws) st) (ws @ [wr])"
  unfolding owned_def
proof (intro allI impI)
  fix ch' i
  assume m: "map_of (AList.update ch (length ws) st) ch' = Some i"
  show "i < length (ws @ [wr]) \<and> wr_target ((ws @ [wr]) ! i) = peer \<and> wr_channel ((ws @ [wr]) ! i) = ch' \<and> intact c rows ((ws @ [wr]) ! i)"
  proof (cases "ch' = ch")
    case True
    with m assms(2-4) show ?thesis by (auto simp: update_conv' nth_append)
  next
    case False
    with m have "map_of st ch' = Some i" by (simp add: update_conv')
    with assms(1) have "i < length ws \<and> wr_target (ws ! i) = peer \<and> wr_channel (ws ! i) = ch' \<and> intact c rows (ws ! i)"
      unfolding owned_def by blast
    then show ?thesis by (simp add: nth_append)
  qed
qed

section \<open>Writing\<close>

lemma write_all_take: "write_all s bs = (ok, s') \<Longrightarrow> \<exists>n. ss_out s' = ss_out s @ take n bs \<and> (ok \<longrightarrow> length bs \<le> n)"
  by (auto simp: write_all_def intro: exI [where x = "length bs"] split: option.splits if_splits)

lemma write_cbor_frame_take:
  assumes "write_cbor_frame s body = (r, s')"
  shows "(fits body \<longrightarrow> (\<exists>n. ss_out s' = ss_out s @ take n (frame_bytes body))) \<and> (\<not> fits body \<longrightarrow> ss_out s' = ss_out s)"
proof (cases "fits body")
  case True
  let ?len = "to_be_bytes (of_nat (length body))"
  obtain ok s1 where w: "write_all s ?len = (ok, s1)" by fastforce
  from write_all_take [OF w] obtain n where n: "ss_out s1 = ss_out s @ take n ?len" "ok \<longrightarrow> 4 \<le> n" by auto
  show ?thesis
  proof (cases ok)
    case False
    then have "s' = s1" using assms True w by (auto simp: write_cbor_frame_def fits_def Let_def split: if_splits)
    moreover have "take n ?len = take (min n 4) (frame_bytes body)" by (simp add: frame_bytes_def min_def)
    ultimately show ?thesis using n(1) True by auto
  next
    case ok: True
    obtain ok' s2 where w2: "write_all s1 body = (ok', s2)" by fastforce
    from write_all_take [OF w2] obtain k where k: "ss_out s2 = ss_out s1 @ take k body" by auto
    have "s' = s2" using assms True w w2 ok by (auto simp: write_cbor_frame_def fits_def Let_def split: if_splits bool.splits)
    moreover have "take n ?len @ take k body = take (4 + k) (frame_bytes body)" using n(2) ok by (simp add: frame_bytes_def)
    ultimately show ?thesis using n(1) k True by auto
  qed
qed (use assms in \<open>auto simp: write_cbor_frame_def fits_def\<close>)

lemma write_keeps_genuine:
  assumes "intact c rows wr" "frame_enc c mf = Some buf" "sent_frame rows (wr_target wr) (wr_channel wr) mf"
    and "write_cbor_frame (wr_stream wr) buf = (r, send)"
  shows "genuine c rows (wr\<lparr>wr_stream := send\<rparr>)" and "r = Inr () \<Longrightarrow> intact c rows (wr\<lparr>wr_stream := send\<rparr>)"
proof -
  from assms(1) obtain fs where fs: "wire_holds c wr fs []" "list_all (sent_frame rows (wr_target wr) (wr_channel wr)) fs"
    "wr_dialled wr = wr_target wr" by (auto simp: intact_def)
  from fs(1) obtain tok ob where ob: "list_all (encodable c) fs" "open_enc c (StreamMsg tok (wr_channel wr)) = Some ob" "fits ob"
    "ss_out (wr_stream wr) = frame_bytes ob @ concat (map (mf_wire c) fs)" by (auto simp: wire_holds_def)
  show "intact c rows (wr\<lparr>wr_stream := send\<rparr>)" if "r = Inr ()"
    using frame_written [OF assms(2) _ fs(1)] assms(3,4) fs(2,3) that unfolding intact_def
    by (intro conjI exI [where x = "fs @ [mf]"]) simp_all
  show "genuine c rows (wr\<lparr>wr_stream := send\<rparr>)"
  proof (cases "fits buf")
    case True
    with write_cbor_frame_take [OF assms(4)] obtain n where "ss_out send = ss_out (wr_stream wr) @ take n (frame_bytes buf)" by auto
    moreover have "mf_wire c mf = frame_bytes buf" by (simp add: mf_wire_def assms(2))
    ultimately have "ss_out send = take (length (ss_out (wr_stream wr)) + n) (frame_bytes ob @ concat (map (mf_wire c) (fs @ [mf])))"
      by (simp add: ob(4))
    moreover have "list_all (encodable c) (fs @ [mf])" using ob(1) True assms(2) by (simp add: encodable_def)
    ultimately show ?thesis
      using ob(2,3) fs(2,3) assms(3) unfolding genuine_def
      by (intro conjI exI [where x = tok] exI [where x = ob] exI [where x = "fs @ [mf]"]
          exI [where x = "length (ss_out (wr_stream wr)) + n"]) simp_all
  next
    case False
    then have "ss_out send = ss_out (wr_stream wr)" using write_cbor_frame_take [OF assms(4)] by simp
    then show ?thesis using intact_genuine [OF assms(1)] by (simp add: genuine_def)
  qed
qed

section \<open>Opening\<close>

text \<open>Apart from streams, connections and the clock nothing changes.\<close>

definition only_wires :: "'z daemon_scheme \<Rightarrow> 'z daemon_scheme \<Rightarrow> bool" where
  "only_wires s t \<longleftrightarrow> dm_db t = dm_db s \<and> dm_secret t = dm_secret s \<and> dm_inbound_tasks t = dm_inbound_tasks s
     \<and> dm_recv_bcast t = dm_recv_bcast s"

definition opened :: "crates \<Rightarrow> NodeId \<Rightarrow> string \<Rightarrow> dm_error + nat \<Rightarrow> 'z daemon_scheme \<Rightarrow> 'z daemon_scheme \<Rightarrow> bool" where
  "opened c target ch res s t \<longleftrightarrow> only_wires s t \<and>
     (case res of
        Inl _ \<Rightarrow> dm_wires t = dm_wires s
      | Inr i \<Rightarrow> i = length (dm_wires s) \<and> (\<exists>wr. dm_wires t = dm_wires s @ [wr] \<and> wr_target wr = target \<and> wr_dialled wr = target
                  \<and> wr_channel wr = ch \<and> wire_holds c wr [] []))"

lemma dial_opened:
  assumes "dial_stream c w target ch p tok tk s = (res, s')" "fresh_dials w" "(case tk of Some t \<Rightarrow> tk_nodeid t | None \<Rightarrow> target) = target"
  shows "opened c target ch res s s'"
proof -
  have "only_wires s s'" "\<forall>e. res = Inl e \<longrightarrow> dm_wires s' = dm_wires s"
    using assms(1) by (auto simp: dial_stream_def only_wires_def Let_def split: option.splits prod.splits sum.splits)
  moreover have "wr_dialled (dm_wires s' ! i) = target" if "res = Inr i" for i
    using assms(1,3) that by (auto simp: dial_stream_def Let_def split: option.splits prod.splits sum.splits)
  moreover note dial_stream_effect [OF assms(1,2)]
  ultimately show ?thesis
    by (cases res) (auto simp: opened_def)
qed

lemma open_opened:
  assumes "open_outbound_stream c w target ch s = (res, s')" "fresh_dials w" "peers_addressed c (dm_db s)"
  shows "opened c target ch res s s'"
proof -
  have addr: "tk_nodeid tk = target" if "fst (peer_get (PsNodeId target) (dm_db s)) = Inr (Some p)" "pr_addr_blob p = Some blob"
    "ticket_dec c blob = Some tk" for p blob tk
  proof -
    from that(1) obtain r where r: "r \<in> set (db_peers (dm_db s))" "p_nodeid r = nid target" "pr_addr_blob p = p_addr_blob r"
      by (auto simp: peer_get_def call_def row_to_peer_def peer_matches_def dest!: sql_query_row_Some split: if_splits option.splits sum.splits)
    with assms(3) that(2,3) have "nid (tk_nodeid tk) = nid target"
      by (auto simp: peers_addressed_def list_all_iff addressed_def dest!: bspec)
    then show ?thesis by (cases "tk_nodeid tk"; cases target) simp
  qed
  have err: "opened c target ch (Inl e) u u" "opened c target ch (Inl e) u (u\<lparr>dm_tick := n\<rparr>)" for e n and u :: "'a daemon_scheme"
    by (simp_all add: opened_def only_wires_def)
  have dial: "opened c target ch x s t"
    if "dial_stream c w target ch p tok tk (s\<lparr>dm_tick := n\<rparr>) = (x, t)" "\<And>t. tk = Some t \<Longrightarrow> tk_nodeid t = target" for x t p tok tk n
  proof -
    have "(case tk of Some t \<Rightarrow> tk_nodeid t | None \<Rightarrow> target) = target" using that(2) by (cases tk) simp_all
    from dial_opened [OF that(1) assms(2) this] show ?thesis by (cases x) (simp_all add: opened_def only_wires_def)
  qed
  show ?thesis
    using assms(1)
    by (auto simp: open_outbound_stream_def and_then_def on_db_read peer_get_read find_token_read
        intro: err addr dial [where tk = None, simplified] dial [where tk = "Some tk" for tk, simplified]
        split: sum.splits option.splits)
qed

section \<open>One row\<close>

text \<open>The streams after a step of a peer's task: all genuine, the others' untouched, and the task owns its own.\<close>

definition wires_ok :: "crates \<Rightarrow> msg_rec list \<Rightarrow> Wire list \<Rightarrow> bool" where
  "wires_ok c rows ws \<longleftrightarrow> (\<forall>wr\<in>set ws. genuine c rows wr)"

lemma get_stream_wires:
  assumes "get_stream c w peer ch (st, s) = (res, (st', s'))" "fresh_dials w" "peers_addressed c (dm_db s)"
    and "wires_ok c rows (dm_wires s)" "owned c rows peer st (dm_wires s)"
  shows "only_wires s s' \<and> wires_ok c rows (dm_wires s') \<and> others_kept peer (dm_wires s) (dm_wires s')
    \<and> (\<forall>i. res = Inr i \<longrightarrow> owned c rows peer st' (dm_wires s') \<and> map_of st' ch = Some i)"
proof (cases "map_of st ch")
  case (Some i)
  with assms show ?thesis by (auto simp: get_stream_def only_wires_def others_kept_def)
next
  case None
  obtain x s1 where x: "open_outbound_stream c w peer ch s = (x, s1)" by fastforce
  note o = open_opened [OF x assms(2,3)]
  show ?thesis
  proof (cases x)
    case (Inl err)
    with assms(1,4) None x o show ?thesis by (auto simp: get_stream_def opened_def others_kept_def)
  next
    case (Inr i)
    with o obtain wr where wr: "only_wires s s1" "i = length (dm_wires s)" "dm_wires s1 = dm_wires s @ [wr]" "wr_target wr = peer"
      "wr_dialled wr = peer" "wr_channel wr = ch" "wire_holds c wr [] []" by (auto simp: opened_def)
    have r: "res = Inr i" "st' = AList.update ch i st" "s' = s1" using assms(1) None x Inr by (simp_all add: get_stream_def)
    have "intact c rows wr" unfolding intact_def using wr(4,5,7) by (intro conjI exI [where x = "[]"]) simp_all
    from owned_open [OF assms(5) this wr(4,6)] intact_genuine [OF this] wr(1-3) assms(4) r show ?thesis
      by (simp add: wires_ok_def others_kept_def nth_append update_conv')
  qed
qed

text \<open>Marking a row delivered leaves the log as it was, apart from the stamp.\<close>

lemma mark_delivered_log: "log_grows P (db_messages d) (db_messages (snd (outbox_mark_delivered now n cid sq d)))"
proof -
  have "map undelivered (db_messages (snd (outbox_mark_delivered now n cid sq d))) = map undelivered (db_messages d)"
    by (simp add: outbox_mark_delivered_def call_def sql_update_def undelivered_def)
  then show ?thesis using log_growsI [of "db_messages (snd (outbox_mark_delivered now n cid sq d))" "db_messages d" P "[]"] by simp
qed

definition delivery_kept :: "crates \<Rightarrow> 'z daemon_scheme \<Rightarrow> 'z daemon_scheme \<Rightarrow> bool" where
  "delivery_kept c s t \<longleftrightarrow> dm_secret t = dm_secret s \<and> dm_inbound_tasks t = dm_inbound_tasks s \<and> dm_recv_bcast t = dm_recv_bcast s
     \<and> db_peers (dm_db t) = db_peers (dm_db s) \<and> store_reachable c (dm_db s) (dm_db t)
     \<and> log_grows (\<lambda>_. False) (db_messages (dm_db s)) (db_messages (dm_db t))"

lemma deliver_row_wires:
  assumes run: "deliver_row c w peer row (st, s) = (res, (st', s'))" and w: "fresh_dials w" "peers_addressed c (dm_db s)"
    and ws: "wires_ok c (db_messages (dm_db s)) (dm_wires s)" "owned c (db_messages (dm_db s)) peer st (dm_wires s)"
    and row: "sent_frame (db_messages (dm_db s)) peer (mr_channel row) (frame_of row)"
  shows "delivery_kept c s s' \<and> wires_ok c (db_messages (dm_db s)) (dm_wires s') \<and> others_kept peer (dm_wires s) (dm_wires s')
    \<and> (res = Inr () \<longrightarrow> owned c (db_messages (dm_db s)) peer st' (dm_wires s'))"
proof -
  let ?rows = "db_messages (dm_db s)" and ?ch = "mr_channel row"
  obtain x st1 s1 where x: "get_stream c w peer ?ch (st, s) = (x, (st1, s1))" by (metis surj_pair)
  note g = get_stream_wires [OF x w ws]
  have same: "delivery_kept c s u" if "only_wires s u" for u
    using that by (simp add: delivery_kept_def only_wires_def sr_refl)
  show ?thesis
  proof (cases "\<exists>i buf. x = Inr i \<and> frame_enc c (frame_of row) = Some buf")
    case False
    then have "s' = s1 \<and> (\<exists>e. res = Inl e)"
      using run x by (cases x) (auto simp: deliver_row_def and_then_def split: option.splits)
    with g same show ?thesis by auto
  next
    case True
    then obtain i buf where i: "x = Inr i" "frame_enc c (frame_of row) = Some buf" by blast
    with g have own: "owned c ?rows peer st1 (dm_wires s1)" "map_of st1 ?ch = Some i" by auto
    then have wi: "i < length (dm_wires s1)" "wr_target (dm_wires s1 ! i) = peer" "wr_channel (dm_wires s1 ! i) = ?ch"
      "intact c ?rows (dm_wires s1 ! i)" by (auto simp: owned_def)
    obtain r send where wr: "write_cbor_frame (wr_stream (dm_wires s1 ! i)) buf = (r, send)" by fastforce
    let ?wr = "(dm_wires s1 ! i)\<lparr>wr_stream := send\<rparr>" and ?ws = "(dm_wires s1)[i := (dm_wires s1 ! i)\<lparr>wr_stream := send\<rparr>]"
    have gen: "genuine c ?rows ?wr" "r = Inr () \<Longrightarrow> intact c ?rows ?wr"
      using write_keeps_genuine [OF wi(4) i(2) _ wr] row wi(2,3) by simp_all
    have "set ?ws \<subseteq> insert ?wr (set (dm_wires s1))" by (rule set_update_subset_insert)
    then have ws': "wires_ok c ?rows ?ws" "others_kept peer (dm_wires s) ?ws"
      using g gen(1) wi(2) by (auto simp: wires_ok_def intro: others_kept_update)
    have own': "owned c ?rows peer st1 ?ws" if "r = Inr ()"
      using own(1) gen(2) [OF that] wi by (auto simp: owned_def nth_list_update)
    show ?thesis
    proof (cases r)
      case (Inl e)
      then have "s' = forget_outbound_stream peer ?ch (set_stream i send s1)" "\<exists>e. res = Inl e"
        using run x i wr by (auto simp: deliver_row_def and_then_def)
      then show ?thesis
        using ws' g by (auto intro!: same simp: forget_outbound_stream_def set_stream_def only_wires_def)
    next
      case (Inr u)
      let ?m = "on_db_at w (\<lambda>now. outbox_mark_delivered now (mr_sender row) (mr_channel_id row) (mr_seq row)) (set_stream i send s1)"
      have s': "s' = snd ?m" "st' = st1" using run x i wr Inr
        by (auto simp: deliver_row_def and_then_def split: prod.splits sum.splits)
      have "delivery_kept c s s'"
        using g unfolding s' delivery_kept_def only_wires_def
        by (simp add: set_stream_def mark_delivered_log store_reachable_one st_mark_delivered)
      moreover have "dm_wires s' = ?ws" by (simp add: s' set_stream_def)
      ultimately show ?thesis using ws' own' Inr s'(2) by simp
    qed
  qed
qed

section \<open>The other end\<close>

text \<open>Whatever part of a genuine stream has arrived, the receiver finds its channel, and takes off it only
  frames of the sender's rows for that peer and channel.\<close>

lemma genuine_received:
  assumes "cbor_laws c" "genuine c rows wr" "prefix bs (ss_out (wr_stream wr))"
    and "read_stream_open c \<lparr>rs_in = bs, rs_end = e\<rparr> = (Inr so, recv)"
  shows "so_channel so = wr_channel wr" and "list_all (sent_frame rows (wr_target wr) (wr_channel wr)) (fst (run_recv_loop c None recv))"
proof -
  from assms(2) obtain tok ob fs n where g: "open_enc c (StreamMsg tok (wr_channel wr)) = Some ob" "fits ob" "list_all (encodable c) fs"
    "list_all (sent_frame rows (wr_target wr) (wr_channel wr)) fs"
    "ss_out (wr_stream wr) = take n (frame_bytes ob @ concat (map (mf_wire c) fs))" by (auto simp: genuine_def)
  define k where "k = length bs"
  have "prefix bs (frame_bytes ob @ concat (map (mf_wire c) fs))"
    using assms(3) g(5) take_is_prefix prefix_order.trans by metis
  then have bs: "bs = take k (frame_bytes ob @ concat (map (mf_wire c) fs))"
    unfolding prefix_def k_def by (metis append_eq_conv_conj)
  have len: "length (frame_bytes ob) \<le> k"
  proof (rule ccontr)
    assume n: "\<not> length (frame_bytes ob) \<le> k"
    then have "bs = take k (frame_bytes ob)" using bs by simp
    then show False using read_cbor_frame_cut [OF g(2), of k e] n assms(4)
      by (auto simp: read_stream_open_def split: prod.splits sum.splits option.splits)
  qed
  then have "bs = frame_bytes ob @ take (k - length (frame_bytes ob)) (concat (map (mf_wire c) fs))" using bs by simp
  then have so: "so = StreamMsg tok (wr_channel wr)"
    and recv: "recv = \<lparr>rs_in = take (k - length (frame_bytes ob)) (concat (map (mf_wire c) fs)), rs_end = e\<rparr>"
    using assms(4) by (auto simp: read_stream_open_def read_cbor_frame_frame [OF g(2)] cbor_open [OF assms(1) g(1)])
  show "so_channel so = wr_channel wr" by (simp add: so)
  from run_recv_loop_prefix [OF assms(1) g(3), of "k - length (frame_bytes ob)" e] obtain j r where
    "run_recv_loop c None recv = (take j fs, r)" by (auto simp: recv)
  then show "list_all (sent_frame rows (wr_target wr) (wr_channel wr)) (fst (run_recv_loop c None recv))"
    using g(4) by (auto simp: list_all_iff dest: in_set_takeD)
qed

end
