(* ===== verification/Wt_Process.thy ===== *)
theory Wt_Process
  imports Wt_Wires
begin

text \<open>
  One install while it runs, task by task.  The state is the daemon's with the file system and launched
  children; beside it, what each delivery task holds (its streams, and the rows of the batch it has fetched
  and not yet sent), the connections being served, how many frames of each incoming stream have been
  handled, and the streams of earlier runs.  A step is one request, one turn of a task's loop, or a restart
  from the files on disk; requests are whole, every other task yields between its rows, streams and frames.
  A step that looks at another connection's socket (\<open>ps_attend\<close>) changes nothing else.
  What comes from the network is named by the step, so that a network can say what may arrive.
\<close>

section \<open>The state\<close>

record Delivery =
  dl_streams :: streams
  dl_batch :: "MessageRow list"

definition no_delivery :: Delivery where
  "no_delivery = \<lparr>dl_streams = [], dl_batch = []\<rparr>"

record process =
  ps_state :: ipc_state
  ps_past :: "Wire list"
  ps_tasks :: "NodeId \<Rightarrow> Delivery"
  ps_conns :: "NodeId list"
  ps_read :: "nat \<Rightarrow> nat"

text \<open>What a step takes from outside: nothing, a stream a peer opens, or what has arrived so far on the
  \<open>j\<close>-th incoming stream.\<close>

datatype Input = Own | Stream NodeId RecvStream | More nat RecvStream

text \<open>The surroundings of a step: any clock, network, file system and child processes, with the given libraries.\<close>

definition surroundings :: "crates \<Rightarrow> env \<Rightarrow> bool" where
  "surroundings c e \<longleftrightarrow> en_crates e = c \<and> typed_env e \<and> fresh_dials (en_world e) \<and> is_plan (w_msg_plan (en_world e))"

section \<open>Turns of the tasks\<close>

text \<open>The process after a turn of one delivery task.\<close>

definition with_task :: "NodeId \<Rightarrow> Delivery \<Rightarrow> ipc_state \<Rightarrow> process \<Rightarrow> process" where
  "with_task peer d s p = p\<lparr>ps_state := s, ps_tasks := (ps_tasks p)(peer := d)\<rparr>"

text \<open>A delivery task fetches a batch, or gives its streams up when the query fails.\<close>

definition fetch_batch :: "env \<Rightarrow> NodeId \<Rightarrow> process \<Rightarrow> process" where
  "fetch_batch e peer p =
     (case on_db (outbox_pending_for_peer (w_msg_plan (en_world e)) peer DELIVERY_BATCH) (ps_state p) of
        (Inr rows, s) \<Rightarrow> with_task peer ((ps_tasks p peer)\<lparr>dl_batch := rows\<rparr>) s p
      | (Inl _, s) \<Rightarrow> with_task peer no_delivery s p)"

text \<open>It sends the first row of its batch; an error ends the pass and drops the streams.\<close>

definition deliver_next :: "env \<Rightarrow> NodeId \<Rightarrow> MessageRow \<Rightarrow> MessageRow list \<Rightarrow> process \<Rightarrow> process" where
  "deliver_next e peer row rest p =
     (case deliver_row (en_crates e) (en_world e) peer row (dl_streams (ps_tasks p peer), ps_state p) of
        (Inr _, (st, s)) \<Rightarrow> with_task peer \<lparr>dl_streams = st, dl_batch = rest\<rparr> s p
      | (Inl _, (st, s)) \<Rightarrow> with_task peer no_delivery s p)"

definition end_delivery :: "NodeId \<Rightarrow> process \<Rightarrow> process" where
  "end_delivery peer p =
     with_task peer no_delivery ((ps_state p)\<lparr>dm_wakers := AList.delete peer (dm_wakers (ps_state p))\<rparr>) p"

text \<open>The accept loop of a connection takes one more stream; an unreadable opening ends the connection.\<close>

definition take_stream :: "env \<Rightarrow> NodeId \<Rightarrow> RecvStream \<Rightarrow> process \<Rightarrow> process" where
  "take_stream e remote recv p =
     (case accept_streams (en_crates e) (en_world e) remote [recv] (ps_state p) of
        (Inr _, s) \<Rightarrow> p\<lparr>ps_state := s\<rparr>
      | (Inl _, s) \<Rightarrow> p\<lparr>ps_state := s, ps_conns := remove1 remote (ps_conns p)\<rparr>)"

definition close_conn :: "NodeId \<Rightarrow> process \<Rightarrow> process" where
  "close_conn remote p = p\<lparr>ps_state := (ps_state p)\<lparr>dm_conns := AList.delete remote (dm_conns (ps_state p))\<rparr>,
     ps_conns := remove1 remote (ps_conns p)\<rparr>"

text \<open>The frames that have arrived whole on an incoming stream, and the turn that handles the next one.\<close>

definition frames_of :: "crates \<Rightarrow> InboundTask \<Rightarrow> MessageFrame list" where
  "frames_of c t = fst (run_recv_loop c None (it_recv t))"

definition handle_frame :: "env \<Rightarrow> nat \<Rightarrow> process \<Rightarrow> process" where
  "handle_frame e j p =
     (let t = dm_inbound_tasks (ps_state p) ! j; k = ps_read p j in
      p\<lparr>ps_state := inbound_frame (en_crates e) (en_world e) (it_remote t) (it_from_name t) (it_channel t)
                       (frames_of (en_crates e) t ! k) (ps_state p),
        ps_read := (ps_read p)(j := Suc k)\<rparr>)"

definition end_inbound :: "nat \<Rightarrow> process \<Rightarrow> process" where
  "end_inbound j p =
     (let t = dm_inbound_tasks (ps_state p) ! j; s = ps_state p in
      p\<lparr>ps_state := s\<lparr>dm_conns := conns_drop_label (it_remote t) (stream_label (it_channel t)) (dm_conns s)\<rparr>\<rparr>)"

definition set_arrived :: "nat \<Rightarrow> RecvStream \<Rightarrow> process \<Rightarrow> process" where
  "set_arrived j recv p =
     (let s = ps_state p in
      p\<lparr>ps_state := s\<lparr>dm_inbound_tasks := (dm_inbound_tasks s)[j := (dm_inbound_tasks s ! j)\<lparr>it_recv := recv\<rparr>]\<rparr>\<rparr>)"

text \<open>The daemon comes up on a secret key, a database file and a disk; it stops, in whatever state, and is
  started again on the same files.\<close>

definition boot :: "bytes \<Rightarrow> db \<Rightarrow> fsys \<Rightarrow> process" where
  "boot secret file disk =
     \<lparr>ps_state = daemon.extend (daemon_start secret file)
        \<lparr>cx_out = [], cx_room = None, cx_fs = disk, cx_lan = None, cx_tasks = []\<rparr>,
      ps_past = [], ps_tasks = (\<lambda>_. no_delivery), ps_conns = [], ps_read = (\<lambda>_. 0)\<rparr>"

definition restart :: "process \<Rightarrow> process" where
  "restart p = (boot (dm_secret (ps_state p)) (dm_db (ps_state p)) (cx_fs (ps_state p)))
     \<lparr>ps_past := ps_past p @ dm_wires (ps_state p)\<rparr>"

section \<open>Steps\<close>

inductive process_step :: "crates \<Rightarrow> Input \<Rightarrow> process \<Rightarrow> process \<Rightarrow> bool" for c where
  ps_request: "surroundings c e \<Longrightarrow> wf_request req \<Longrightarrow> addressed_request c req \<Longrightarrow>
     process_step c Own p (p\<lparr>ps_state := snd (serve e tls req (ps_state p))\<rparr>)"
| ps_attend: "process_step c Own p (p\<lparr>ps_state := (ps_state p)\<lparr>cx_out := out, cx_room := room\<rparr>\<rparr>)"
| ps_web: "surroundings c e \<Longrightarrow>
     process_step c Own p (p\<lparr>ps_state := snd (web_serve display (en_world e) to_str origin wreq (ps_state p))\<rparr>)"
| ps_supervise: "surroundings c e \<Longrightarrow> (sv, h0) \<in> set (cx_tasks (ps_state p)) \<Longrightarrow>
     process_step c Own p (p\<lparr>ps_state := snd (snd (snd (sup_step (en_json e) (en_world e) sv ready (l, h, ps_state p))))\<rparr>)"
| ps_discover: "process_step c Own p (p\<lparr>ps_state := (ps_state p)\<lparr>cx_lan := lan\<rparr>\<rparr>)"
| ps_resume: "surroundings c e \<Longrightarrow> process_step c Own p (p\<lparr>ps_state := resume_delivery (en_world e) (ps_state p)\<rparr>)"
| ps_fetch: "surroundings c e \<Longrightarrow> dl_batch (ps_tasks p peer) = [] \<Longrightarrow> process_step c Own p (fetch_batch e peer p)"
| ps_deliver: "surroundings c e \<Longrightarrow> dl_batch (ps_tasks p peer) = row # rest \<Longrightarrow>
     process_step c Own p (deliver_next e peer row rest p)"
| ps_end_delivery: "process_step c Own p (end_delivery peer p)"
| ps_connect: "wf_nodeid remote \<Longrightarrow> require_peer_known remote (dm_db (ps_state p)) = Inr () \<Longrightarrow>
     process_step c Own p (p\<lparr>ps_conns := remote # ps_conns p\<rparr>)"
| ps_stream: "surroundings c e \<Longrightarrow> remote \<in> set (ps_conns p) \<Longrightarrow> process_step c (Stream remote recv) p (take_stream e remote recv p)"
| ps_close: "process_step c Own p (close_conn remote p)"
| ps_more: "j < length (dm_inbound_tasks (ps_state p)) \<Longrightarrow>
     prefix (rs_in (it_recv (dm_inbound_tasks (ps_state p) ! j))) (rs_in recv) \<Longrightarrow>
     process_step c (More j recv) p (set_arrived j recv p)"
| ps_frame: "surroundings c e \<Longrightarrow> j < length (dm_inbound_tasks (ps_state p)) \<Longrightarrow>
     ps_read p j < length (frames_of c (dm_inbound_tasks (ps_state p) ! j)) \<Longrightarrow> process_step c Own p (handle_frame e j p)"
| ps_end_inbound: "j < length (dm_inbound_tasks (ps_state p)) \<Longrightarrow> process_step c Own p (end_inbound j p)"
| ps_restart: "process_step c Own p (restart p)"

inductive process_run :: "crates \<Rightarrow> process \<Rightarrow> process \<Rightarrow> bool" for c where
  pr_refl: "process_run c p p"
| pr_step: "process_run c p q \<Longrightarrow> process_step c inp q q' \<Longrightarrow> process_run c p q'"

section \<open>The invariant\<close>

text \<open>The outgoing rows are this install's own.\<close>

definition ours :: "crates \<Rightarrow> NodeId \<Rightarrow> msg_rec list \<Rightarrow> bool" where
  "ours c me rows \<longleftrightarrow> list_all (\<lambda>r. m_direction r = 0 \<longrightarrow> own_row c me r) rows"

definition batch_ok :: "msg_rec list \<Rightarrow> NodeId \<Rightarrow> MessageRow list \<Rightarrow> bool" where
  "batch_ok rows peer rs \<longleftrightarrow> list_all (\<lambda>row. sent_frame rows peer (mr_channel row) (frame_of row)) rs"

definition tasks_ok :: "crates \<Rightarrow> msg_rec list \<Rightarrow> Wire list \<Rightarrow> (NodeId \<Rightarrow> Delivery) \<Rightarrow> bool" where
  "tasks_ok c rows ws tasks \<longleftrightarrow> (\<forall>peer. owned c rows peer (dl_streams (tasks peer)) ws \<and> batch_ok rows peer (dl_batch (tasks peer)))"

definition process_ok :: "crates \<Rightarrow> NodeId \<Rightarrow> process \<Rightarrow> bool" where
  "process_ok c me p \<longleftrightarrow>
     local_nodeid c (ps_state p) = me \<and> db_inv (dm_db (ps_state p)) \<and> ours c me (db_messages (dm_db (ps_state p)))
     \<and> peers_addressed c (dm_db (ps_state p))
     \<and> wires_ok c (db_messages (dm_db (ps_state p))) (ps_past p @ dm_wires (ps_state p))
     \<and> tasks_ok c (db_messages (dm_db (ps_state p))) (dm_wires (ps_state p)) (ps_tasks p)
     \<and> (\<forall>n\<in>set (ps_conns p) \<union> it_remote ` set (dm_inbound_tasks (ps_state p)). wf_nodeid n)"

section \<open>What a step brings in\<close>

text \<open>A row, and an event, made of a frame that has arrived on an incoming stream.\<close>

definition inbound_row :: "crates \<Rightarrow> process \<Rightarrow> msg_rec \<Rightarrow> bool" where
  "inbound_row c p r \<longleftrightarrow> m_direction r = 1 \<and> (\<exists>t\<in>set (dm_inbound_tasks (ps_state p)). \<exists>mf\<in>set (frames_of c t).
     m_sender r = nid (it_remote t) \<and> m_channel r = it_channel t \<and> m_seq r = as_i64 (mf_seq mf)
     \<and> m_payload r = mf_payload mf \<and> m_enqueued_at_ms r = as_i64 (mf_ts_ms mf))"

definition inbound_event :: "crates \<Rightarrow> process \<Rightarrow> IpcEvent \<Rightarrow> bool" where
  "inbound_event c p ev \<longleftrightarrow> (\<exists>t\<in>set (dm_inbound_tasks (ps_state p)). \<exists>mf\<in>set (frames_of c t).
     ev = EvRecvMsg (it_remote t) (it_from_name t) (it_channel t) (mf_payload mf) (mf_ts_ms mf))"

definition new_task :: "crates \<Rightarrow> Input \<Rightarrow> process \<Rightarrow> InboundTask \<Rightarrow> bool" where
  "new_task c inp p t =
     (case inp of
        Own \<Rightarrow> False
      | Stream remote recv \<Rightarrow> it_remote t = remote \<and> (\<exists>tok. read_stream_open c recv = (Inr (StreamMsg tok (it_channel t)), it_recv t))
      | More j recv \<Rightarrow> j < length (dm_inbound_tasks (ps_state p)) \<and> t = (dm_inbound_tasks (ps_state p) ! j)\<lparr>it_recv := recv\<rparr>)"

text \<open>The log gains own rows and rows of arrived frames, subscribers see events of arrived frames, and
  receiving tasks come from the input.\<close>

definition step_frame :: "crates \<Rightarrow> NodeId \<Rightarrow> Input \<Rightarrow> process \<Rightarrow> process \<Rightarrow> bool" where
  "step_frame c me inp p q \<longleftrightarrow>
     log_grows (\<lambda>r. own_row c me r \<or> inbound_row c p r) (db_messages (dm_db (ps_state p))) (db_messages (dm_db (ps_state q)))
     \<and> (\<forall>ev\<in>set (dm_recv_bcast (ps_state q)). ev \<in> set (dm_recv_bcast (ps_state p)) \<or> inbound_event c p ev)
     \<and> (\<forall>t\<in>set (dm_inbound_tasks (ps_state q)). t \<in> set (dm_inbound_tasks (ps_state p)) \<or> new_task c inp p t)"

definition sound_step :: "crates \<Rightarrow> NodeId \<Rightarrow> Input \<Rightarrow> process \<Rightarrow> process \<Rightarrow> bool" where
  "sound_step c me inp p q \<longleftrightarrow> process_ok c me q \<and> step_frame c me inp p q"

lemma log_grows_mono: "log_grows P rows rows' \<Longrightarrow> (\<And>r. P r \<Longrightarrow> Q r) \<Longrightarrow> log_grows Q rows rows'"
  by (auto simp: log_grows_def list_all_iff)

lemma ours_grows:
  assumes "ours c me rows" "log_grows P rows rows'" "\<And>r. P r \<Longrightarrow> m_direction r = 0 \<Longrightarrow> own_row c me r"
  shows "ours c me rows'"
  unfolding ours_def list_all_iff
proof (intro ballI impI)
  fix r
  assume r: "r \<in> set rows'" "m_direction r = 0"
  from log_grows_row [OF assms(2) r(1)] show "own_row c me r"
  proof
    assume "\<exists>q\<in>set rows. undelivered q = undelivered r"
    then obtain q where q: "q \<in> set rows" "undelivered q = undelivered r" by blast
    with assms(1) r(2) undelivered_same(4) [OF q(2)] have "own_row c me q" by (simp add: ours_def list_all_iff)
    then show ?thesis using q(2) by (metis own_row_undelivered)
  qed (use assms(3) r(2) in blast)
qed

lemma wires_ok_grows: "log_grows P rows rows' \<Longrightarrow> wires_ok c rows ws \<Longrightarrow> wires_ok c rows' ws"
  using genuine_grows by (auto simp: wires_ok_def)

lemma tasks_ok_grows: "log_grows P rows rows' \<Longrightarrow> tasks_ok c rows ws tasks \<Longrightarrow> tasks_ok c rows' ws tasks"
  unfolding tasks_ok_def batch_ok_def list_all_iff using owned_grows sent_frame_grows by blast

text \<open>A step that writes no stream.\<close>

lemma same_wires_ok:
  assumes ok: "process_ok c me p" and "dm_secret s = dm_secret (ps_state p)" "dm_wires s = dm_wires (ps_state p)"
    and "db_inv (dm_db s)" "peers_addressed c (dm_db s)"
    and grow: "log_grows P (db_messages (dm_db (ps_state p))) (db_messages (dm_db s))" "\<And>r. P r \<Longrightarrow> m_direction r = 0 \<Longrightarrow> own_row c me r"
    and "\<forall>n\<in>set conns \<union> it_remote ` set (dm_inbound_tasks s). wf_nodeid n"
  shows "process_ok c me (p\<lparr>ps_state := s, ps_conns := conns, ps_read := rd\<rparr>)"
proof -
  let ?rows = "db_messages (dm_db (ps_state p))" and ?rows' = "db_messages (dm_db s)"
  have old: "local_nodeid c (ps_state p) = me" "ours c me ?rows" "wires_ok c ?rows (ps_past p @ dm_wires (ps_state p))"
    "tasks_ok c ?rows (dm_wires (ps_state p)) (ps_tasks p)" using ok by (simp_all add: process_ok_def)
  have "ours c me ?rows'" "wires_ok c ?rows' (ps_past p @ dm_wires (ps_state p))" "tasks_ok c ?rows' (dm_wires (ps_state p)) (ps_tasks p)"
    by (rule ours_grows [OF old(2) grow], assumption+, rule wires_ok_grows [OF grow(1) old(3)], rule tasks_ok_grows [OF grow(1) old(4)])
  moreover have "local_nodeid c s = me" using old(1) assms(2) by (simp add: local_nodeid_def)
  ultimately show ?thesis using assms(3-5,8) by (simp add: process_ok_def)
qed

lemma served_sound:
  assumes ok: "process_ok c me p" and "blake3_laws c" and s: "served c True (ps_state p) s" and "set conns \<subseteq> set (ps_conns p)"
  shows "sound_step c me Own p (p\<lparr>ps_state := s, ps_conns := conns\<rparr>)"
proof -
  have me: "local_nodeid c (ps_state p) = me" and inv: "db_inv (dm_db (ps_state p))" and wf: "peers_addressed c (dm_db (ps_state p))"
    using ok by (simp_all add: process_ok_def)
  note s' = s [unfolded served_def me]
  have grow: "log_grows (own_row c me) (db_messages (dm_db (ps_state p))) (db_messages (dm_db s))" using s' by blast
  have "process_ok c me (p\<lparr>ps_state := s, ps_conns := conns, ps_read := ps_read p\<rparr>)"
    using s' store_reachable_inv [OF _ assms(2) inv] wf ok assms(4)
    by (intro same_wires_ok [OF ok _ _ _ _ grow]) (auto simp: process_ok_def)
  moreover have "step_frame c me Own p (p\<lparr>ps_state := s, ps_conns := conns\<rparr>)"
    using s' log_grows_mono [OF grow] by (simp add: step_frame_def)
  ultimately show ?thesis by (simp add: sound_step_def)
qed

section \<open>Delivery\<close>

lemma task_update_ok:
  "tasks_ok c rows ws tasks \<Longrightarrow> owned c rows peer (dl_streams d) ws \<Longrightarrow> batch_ok rows peer (dl_batch d)
    \<Longrightarrow> tasks_ok c rows ws (tasks(peer := d))"
  by (simp add: tasks_ok_def)

lemma idle_ok [simp]: "owned c rows peer (dl_streams no_delivery) ws" "batch_ok rows peer (dl_batch no_delivery)"
  by (simp_all add: no_delivery_def batch_ok_def)

lemma step_frame_same:
  "db_messages (dm_db (ps_state q)) = db_messages (dm_db (ps_state p)) \<Longrightarrow> dm_recv_bcast (ps_state q) = dm_recv_bcast (ps_state p)
    \<Longrightarrow> dm_inbound_tasks (ps_state q) = dm_inbound_tasks (ps_state p) \<Longrightarrow> step_frame c me inp p q"
  by (simp add: step_frame_def)

lemma fetch_sound:
  assumes ok: "process_ok c me p" and "surroundings c e"
  shows "sound_step c me Own p (fetch_batch e peer p)"
proof -
  let ?s = "ps_state p" and ?w = "en_world e"
  let ?rows = "db_messages (dm_db ?s)"
  have plan: "is_plan (w_msg_plan ?w)" and inv: "db_inv (dm_db ?s)" using assms by (simp_all add: surroundings_def process_ok_def)
  have f: "fetch_batch e peer p = p\<lparr>ps_tasks := (ps_tasks p)(peer := (ps_tasks p peer)\<lparr>dl_batch := map as_message (batch ?w peer ?s)\<rparr>)\<rparr>"
    by (simp add: fetch_batch_def drain_query [OF plan inv] with_task_def)
  have "set (batch ?w peer ?s) \<subseteq> set (pending_of peer ?s)"
    using pending_rows_props(1) [OF plan inv, of peer] by (auto simp: batch_def dest: in_set_takeD)
  then have "batch_ok ?rows peer (map as_message (batch ?w peer ?s))"
    by (fastforce simp: batch_ok_def list_all_iff sent_frame_def list_ex_iff pending_of_def msg_pending_def as_message_def)
  moreover have "tasks_ok c ?rows (dm_wires ?s) (ps_tasks p)" using ok by (simp add: process_ok_def)
  ultimately have "tasks_ok c ?rows (dm_wires ?s) ((ps_tasks p)(peer := (ps_tasks p peer)\<lparr>dl_batch := map as_message (batch ?w peer ?s)\<rparr>))"
    by (intro task_update_ok) (simp_all add: tasks_ok_def)
  with ok show ?thesis unfolding sound_step_def f by (auto simp: process_ok_def intro: step_frame_same)
qed

lemma deliver_sound:
  assumes ok: "process_ok c me p" and "blake3_laws c" and e: "surroundings c e" and b: "dl_batch (ps_tasks p peer) = row # rest"
  shows "sound_step c me Own p (deliver_next e peer row rest p)"
proof -
  let ?s = "ps_state p" and ?w = "en_world e" and ?st = "dl_streams (ps_tasks p peer)"
  let ?rows = "db_messages (dm_db ?s)"
  have c: "en_crates e = c" "fresh_dials ?w" using e by (simp_all add: surroundings_def)
  have old: "local_nodeid c ?s = me" "db_inv (dm_db ?s)" "ours c me ?rows" "peers_addressed c (dm_db ?s)" "wires_ok c ?rows (ps_past p)"
    "wires_ok c ?rows (dm_wires ?s)" "tasks_ok c ?rows (dm_wires ?s) (ps_tasks p)"
    using ok by (auto simp: process_ok_def wires_ok_def)
  then have task: "owned c ?rows peer ?st (dm_wires ?s)" "sent_frame ?rows peer (mr_channel row) (frame_of row)" "batch_ok ?rows peer rest"
    using b by (auto simp: tasks_ok_def batch_ok_def dest: spec [of _ peer])
  obtain r st s where run: "deliver_row c ?w peer row (?st, ?s) = (r, (st, s))" by (metis surj_pair)
  note d = deliver_row_wires [OF run c(2) old(4,6) task(1,2)]
  then have kept: "delivery_kept c ?s s" and ws: "wires_ok c ?rows (dm_wires s)" and oth: "others_kept peer (dm_wires ?s) (dm_wires s)" by simp_all
  have grow: "log_grows (\<lambda>_. False) ?rows (db_messages (dm_db s))" using kept by (simp add: delivery_kept_def)
  define x where "x = (case r of Inr _ \<Rightarrow> \<lparr>dl_streams = st, dl_batch = rest\<rparr> | Inl _ \<Rightarrow> no_delivery)"
  have next_p: "deliver_next e peer row rest p = p\<lparr>ps_state := s, ps_tasks := (ps_tasks p)(peer := x)\<rparr>"
    using run by (cases r) (simp_all add: deliver_next_def c(1) x_def with_task_def)
  have "owned c ?rows peer (dl_streams x) (dm_wires s)" "batch_ok ?rows peer (dl_batch x)"
    using d task(3) by (cases r; simp add: x_def)+
  then have "tasks_ok c ?rows (dm_wires s) ((ps_tasks p)(peer := x))"
    using old(7) owned_others [OF oth] by (simp add: tasks_ok_def)
  from tasks_ok_grows [OF grow this] have t: "tasks_ok c (db_messages (dm_db s)) (dm_wires s) ((ps_tasks p)(peer := x))" .
  have "ours c me (db_messages (dm_db s))" by (rule ours_grows [OF old(3) grow]) simp
  moreover have "wires_ok c (db_messages (dm_db s)) (ps_past p @ dm_wires s)"
    using wires_ok_grows [OF grow] old(5) ws by (auto simp: wires_ok_def)
  moreover have "db_inv (dm_db s)" "peers_addressed c (dm_db s)" "local_nodeid c s = me"
    using kept old store_reachable_inv [OF _ assms(2)] by (auto simp: delivery_kept_def peers_addressed_def local_nodeid_def)
  ultimately have "process_ok c me (p\<lparr>ps_state := s, ps_tasks := (ps_tasks p)(peer := x)\<rparr>)"
    using t ok kept by (simp add: process_ok_def delivery_kept_def)
  then show ?thesis
    unfolding sound_step_def next_p using kept log_grows_mono [OF grow] by (simp add: step_frame_def delivery_kept_def)
qed

lemma end_delivery_sound:
  assumes "process_ok c me p"
  shows "sound_step c me Own p (end_delivery peer p)"
  using assms unfolding sound_step_def
  by (auto simp: end_delivery_def with_task_def process_ok_def local_nodeid_def intro: step_frame_same task_update_ok)

section \<open>Incoming streams\<close>

lemma accept_one:
  assumes "accept_streams c w remote [recv] s = (r, t)"
  shows "dm_secret t = dm_secret s" "dm_wires t = dm_wires s" "dm_recv_bcast t = dm_recv_bcast s" "store_reachable c (dm_db s) (dm_db t)"
    "db_messages (dm_db t) = db_messages (dm_db s)" "peers_addressed c (dm_db s) \<Longrightarrow> peers_addressed c (dm_db t)"
    "\<exists>new. dm_inbound_tasks t = dm_inbound_tasks s @ new \<and> (\<forall>x\<in>set new. it_remote x = remote
       \<and> (\<exists>tok. read_stream_open c recv = (Inr (StreamMsg tok (it_channel x)), it_recv x)))"
proof -
  show "dm_secret t = dm_secret s" "dm_wires t = dm_wires s"
    using assms by (auto simp: Let_def spawn_inbound_msg_def send_inline_err_def split: prod.splits sum.splits)
  show "store_reachable c (dm_db s) (dm_db t)" "peers_addressed c (dm_db s) \<Longrightarrow> peers_addressed c (dm_db t)"
    using assms by (auto simp: Let_def spawn_inbound_msg_def send_inline_err_def sr_refl store_reachable_one st_peer_touch peer_other_addressed
        split: prod.splits sum.splits)
  show "dm_recv_bcast t = dm_recv_bcast s" "db_messages (dm_db t) = db_messages (dm_db s)"
    using accept_streams_authorised [OF assms] by simp_all
  show "\<exists>new. dm_inbound_tasks t = dm_inbound_tasks s @ new \<and> (\<forall>x\<in>set new. it_remote x = remote
       \<and> (\<exists>tok. read_stream_open c recv = (Inr (StreamMsg tok (it_channel x)), it_recv x)))"
    using accept_streams_authorised [OF assms] by simp blast
qed

lemma stream_sound:
  assumes ok: "process_ok c me p" and "blake3_laws c" and e: "surroundings c e" and "remote \<in> set (ps_conns p)"
  shows "sound_step c me (Stream remote recv) p (take_stream e remote recv p)"
proof -
  obtain r s where a: "accept_streams c (en_world e) remote [recv] (ps_state p) = (r, s)" by fastforce
  note f = accept_one [OF a]
  define conns where "conns = (case r of Inr _ \<Rightarrow> ps_conns p | Inl _ \<Rightarrow> remove1 remote (ps_conns p))"
  have q: "take_stream e remote recv p = p\<lparr>ps_state := s, ps_conns := conns, ps_read := ps_read p\<rparr>"
    using a e by (cases r) (simp_all add: take_stream_def surroundings_def conns_def)
  have sub: "set conns \<subseteq> set (ps_conns p)" by (cases r) (simp_all add: conns_def set_remove1_subset)
  from f(7) obtain new where new: "dm_inbound_tasks s = dm_inbound_tasks (ps_state p) @ new"
    "\<forall>x\<in>set new. it_remote x = remote \<and> (\<exists>tok. read_stream_open c recv = (Inr (StreamMsg tok (it_channel x)), it_recv x))" by blast
  have old: "db_inv (dm_db (ps_state p))" "peers_addressed c (dm_db (ps_state p))"
    "\<forall>n\<in>set (ps_conns p) \<union> it_remote ` set (dm_inbound_tasks (ps_state p)). wf_nodeid n" using ok by (simp_all add: process_ok_def)
  have "process_ok c me (p\<lparr>ps_state := s, ps_conns := conns, ps_read := ps_read p\<rparr>)"
  proof (rule same_wires_ok [OF ok f(1,2) store_reachable_inv [OF f(4) assms(2) old(1)] f(6) [OF old(2)], of "\<lambda>_. False"])
    show "\<forall>n\<in>set conns \<union> it_remote ` set (dm_inbound_tasks s). wf_nodeid n"
      using old(3) sub new assms(4) by (auto simp: new(1))
  qed (simp_all add: f(5))
  moreover have "step_frame c me (Stream remote recv) p (take_stream e remote recv p)"
    using new f(3,5) by (auto simp: q step_frame_def new_task_def)
  ultimately show ?thesis by (simp add: sound_step_def q)
qed

lemma more_sound:
  assumes ok: "process_ok c me p" and j: "j < length (dm_inbound_tasks (ps_state p))"
  shows "sound_step c me (More j recv) p (set_arrived j recv p)"
proof -
  let ?ts = "dm_inbound_tasks (ps_state p)" and ?t = "(dm_inbound_tasks (ps_state p) ! j)\<lparr>it_recv := recv\<rparr>"
  have sub: "set (?ts[j := ?t]) \<subseteq> insert ?t (set ?ts)" by (rule set_update_subset_insert)
  have "map it_remote (?ts[j := ?t]) = map it_remote ?ts" using j by (simp add: map_update list_update_same_conv)
  then have "it_remote ` set (?ts[j := ?t]) = it_remote ` set ?ts" by (metis list.set_map)
  then have "\<forall>n\<in>set (ps_conns p) \<union> it_remote ` set (?ts[j := ?t]). wf_nodeid n" using ok by (auto simp: process_ok_def)
  with ok have "process_ok c me (set_arrived j recv p)" by (simp add: process_ok_def set_arrived_def Let_def local_nodeid_def)
  moreover have "step_frame c me (More j recv) p (set_arrived j recv p)"
    using sub j by (auto simp: step_frame_def set_arrived_def Let_def new_task_def)
  ultimately show ?thesis by (simp add: sound_step_def)
qed

lemma inbound_frame_effect:
  assumes "inbound_frame c w remote nm ch mf s = t" "wf_nodeid remote"
  shows "dm_secret t = dm_secret s" "dm_wires t = dm_wires s" "dm_inbound_tasks t = dm_inbound_tasks s"
    "store_reachable c (dm_db s) (dm_db t)" "db_peers (dm_db t) = db_peers (dm_db s)"
    "\<exists>now. log_grows (\<lambda>r. r = inbox_rec c now remote ch (mf_seq mf) (mf_payload mf) (mf_ts_ms mf)) (db_messages (dm_db s)) (db_messages (dm_db t))"
    "set (dm_recv_bcast t) \<subseteq> insert (EvRecvMsg remote nm ch (mf_payload mf) (mf_ts_ms mf)) (set (dm_recv_bcast s))"
proof -
  let ?now = "w_ms w (dm_tick s)"
  let ?u = "snd (on_db_at w (\<lambda>now. inbox_record c now remote ch (mf_seq mf) (mf_payload mf) (mf_ts_ms mf)) s)"
  have t: "t = ?u \<or> t = ?u\<lparr>dm_recv_bcast := dm_recv_bcast ?u @ [EvRecvMsg remote nm ch (mf_payload mf) (mf_ts_ms mf)]\<rparr>"
  proof -
    obtain r u where ru: "on_db_at w (\<lambda>now. inbox_record c now remote ch (mf_seq mf) (mf_payload mf) (mf_ts_ms mf)) s = (r, u)" by fastforce
    have "t = u \<or> t = u\<lparr>dm_recv_bcast := dm_recv_bcast u @ [EvRecvMsg remote nm ch (mf_payload mf) (mf_ts_ms mf)]\<rparr>"
      using assms(1) unfolding inbound_frame_def ru prod.case by (simp split: if_splits)
    then show ?thesis unfolding ru snd_conv .
  qed
  then have d: "dm_db t = snd (inbox_record c ?now remote ch (mf_seq mf) (mf_payload mf) (mf_ts_ms mf) (dm_db s))" by auto
  show "dm_secret t = dm_secret s" "dm_wires t = dm_wires s" "dm_inbound_tasks t = dm_inbound_tasks s" using t by auto
  show "set (dm_recv_bcast t) \<subseteq> insert (EvRecvMsg remote nm ch (mf_payload mf) (mf_ts_ms mf)) (set (dm_recv_bcast s))" using t by auto
  show "store_reachable c (dm_db s) (dm_db t)" unfolding d by (rule store_reachable_one [OF st_inbox_record [OF assms(2)]])
  show "db_peers (dm_db t) = db_peers (dm_db s)" unfolding d by simp
  show "\<exists>now. log_grows (\<lambda>r. r = inbox_rec c now remote ch (mf_seq mf) (mf_payload mf) (mf_ts_ms mf)) (db_messages (dm_db s)) (db_messages (dm_db t))"
    unfolding d
    by (rule exI [where x = ?now]) (auto simp: inbox_record_def call_def sql_insert_or_ignore_def intro: log_grows_snoc)
qed

lemma frame_sound:
  assumes ok: "process_ok c me p" and "blake3_laws c" and e: "surroundings c e" and j: "j < length (dm_inbound_tasks (ps_state p))"
    and k: "ps_read p j < length (frames_of c (dm_inbound_tasks (ps_state p) ! j))"
  shows "sound_step c me Own p (handle_frame e j p)"
proof -
  let ?t = "dm_inbound_tasks (ps_state p) ! j"
  define mf where "mf = frames_of c ?t ! ps_read p j"
  define s where "s = inbound_frame c (en_world e) (it_remote ?t) (it_from_name ?t) (it_channel ?t) mf (ps_state p)"
  have mf: "mf \<in> set (frames_of c ?t)" "?t \<in> set (dm_inbound_tasks (ps_state p))" using j k by (simp_all add: mf_def)
  have old: "db_inv (dm_db (ps_state p))" "peers_addressed c (dm_db (ps_state p))"
    "\<forall>n\<in>set (ps_conns p) \<union> it_remote ` set (dm_inbound_tasks (ps_state p)). wf_nodeid n" using ok by (simp_all add: process_ok_def)
  have "wf_nodeid (it_remote ?t)" using old(3) mf(2) by blast
  note f = inbound_frame_effect [OF s_def [symmetric] this]
  from f(6) obtain now where grow: "log_grows (\<lambda>r. r = inbox_rec c now (it_remote ?t) (it_channel ?t) (mf_seq mf) (mf_payload mf) (mf_ts_ms mf))
      (db_messages (dm_db (ps_state p))) (db_messages (dm_db s))" ..
  have row: "inbound_row c p (inbox_rec c now (it_remote ?t) (it_channel ?t) (mf_seq mf) (mf_payload mf) (mf_ts_ms mf))"
    unfolding inbound_row_def using mf by (intro conjI bexI [where x = ?t] bexI [where x = mf]) (simp_all add: inbox_rec_def)
  have q: "handle_frame e j p = p\<lparr>ps_state := s, ps_conns := ps_conns p, ps_read := (ps_read p)(j := Suc (ps_read p j))\<rparr>"
    using e by (simp add: handle_frame_def Let_def s_def mf_def surroundings_def)
  have "process_ok c me (handle_frame e j p)" unfolding q
    by (rule same_wires_ok [OF ok f(1,2) store_reachable_inv [OF f(4) assms(2) old(1)] _ grow])
      (use f(3,5) old(2,3) in \<open>simp_all add: peers_addressed_def inbox_rec_def\<close>)
  moreover have "step_frame c me Own p (handle_frame e j p)"
    using f(3,7) log_grows_mono [OF grow] row mf unfolding step_frame_def q inbound_event_def by (auto 0 3)
  ultimately show ?thesis by (simp add: sound_step_def)
qed

section \<open>Restarts\<close>

lemma reopen_inv: "db_inv d \<Longrightarrow> db_inv (open_at d)"
proof -
  assume inv: "db_inv d"
  have "set (db_tables d) \<subseteq> set (db_tables (run_migrations d))"
    by (auto simp: run_migrations_def Let_def set_create_table set_create_tables)
  with inv show ?thesis by (auto simp: db_inv_def db_ok_def open_at_def orch_unique_def)
qed

lemma restart_sound:
  assumes ok: "process_ok c me p" and "blake3_laws c"
  shows "sound_step c me Own p (restart p)"
proof -
  let ?s = "ps_state p"
  have f: "dm_secret (ps_state (restart p)) = dm_secret ?s" "dm_wires (ps_state (restart p)) = []"
    "dm_db (ps_state (restart p)) = snd (reconcile_stale_agents (open_at (dm_db ?s)))" "dm_inbound_tasks (ps_state (restart p)) = []"
    "dm_recv_bcast (ps_state (restart p)) = []"
    by (simp_all add: restart_def boot_def daemon_start_def daemon.defs)
  have g: "ps_past (restart p) = ps_past p @ dm_wires ?s" "ps_tasks (restart p) = (\<lambda>_. no_delivery)" "ps_conns (restart p) = []"
    by (simp_all add: restart_def boot_def)
  have inv: "db_inv (dm_db ?s)" using ok by (simp add: process_ok_def)
  have "db_inv (dm_db (ps_state (restart p)))"
    unfolding f(3) by (rule store_step_inv [OF st_reconcile assms(2) reopen_inv [OF inv]])
  moreover have d: "db_messages (dm_db (ps_state (restart p))) = db_messages (dm_db ?s)" "db_peers (dm_db (ps_state (restart p))) = db_peers (dm_db ?s)"
    unfolding f(3) by (simp_all add: open_at_def)
  ultimately have "process_ok c me (restart p)"
    using ok by (simp add: process_ok_def f(1,2,4) g local_nodeid_def peers_addressed_def tasks_ok_def)
  then show ?thesis by (simp add: sound_step_def step_frame_def d f(4,5))
qed

section \<open>Every step\<close>

lemma own_state_sound:
  "process_ok c me p \<Longrightarrow> blake3_laws c \<Longrightarrow> served c True (ps_state p) s \<Longrightarrow> sound_step c me Own p (p\<lparr>ps_state := s\<rparr>)"
  using served_sound [where conns = "ps_conns p" and p = p] by simp

lemma resume_served: "served c ok s (resume_delivery w s)"
proof -
  have read: "snd (on_db (outbox_pending_peers (w_msg_plan w)) s) = s"
    by (rule on_db_reads) (simp add: outbox_pending_peers_def call_def split: sum.splits)
  have "served c ok s (fold notify_peer ps s)" for ps and s :: "'a daemon_scheme"
    by (induction ps arbitrary: s) (auto intro: served_refl served_trans [OF served_plain(7)])
  with read show ?thesis by (auto simp: resume_delivery_def served_refl split: prod.splits sum.splits)
qed

lemma step_sound:
  assumes "process_step c inp p q" "process_ok c me p" "blake3_laws c"
  shows "sound_step c me inp p q"
  using assms(1)
proof cases
  case (ps_request e req tls)
  have "served c True (ps_state p) (snd (serve e tls req (ps_state p)))"
    using serve_kept [of e req "ps_state p" tls] ps_request by (simp add: surroundings_def)
  then show ?thesis unfolding ps_request by (rule own_state_sound [OF assms(2,3)])
next
  case (ps_attend out room)
  show ?thesis unfolding ps_attend by (rule own_state_sound [OF assms(2,3) served_plain(8)])
next
  case (ps_supervise e sv h0 ready l h)
  show ?thesis unfolding ps_supervise by (rule own_state_sound [OF assms(2,3)], rule kept.sup_step_bound) simp
next
  case (ps_connect remote)
  then show ?thesis using assms(2) by (auto simp: sound_step_def process_ok_def intro: step_frame_same)
next
  case (ps_close remote)
  have "served c True (ps_state p) ((ps_state p)\<lparr>dm_conns := AList.delete remote (dm_conns (ps_state p))\<rparr>)" by (simp add: served_def sr_refl)
  from served_sound [OF assms(2,3) this set_remove1_subset] show ?thesis using ps_close by (simp add: close_conn_def)
next
  case (ps_end_inbound j)
  then show ?thesis unfolding ps_end_inbound end_inbound_def Let_def
    by (intro own_state_sound [OF assms(2,3)]) (simp add: served_def sr_refl)
next
  case (ps_discover lan)
  then show ?thesis by (auto intro!: own_state_sound [OF assms(2,3)] simp: served_def sr_refl)
qed (use assms in \<open>auto intro!: own_state_sound intro: confinedD [OF web_kept] resume_served fetch_sound deliver_sound end_delivery_sound
    stream_sound more_sound frame_sound restart_sound\<close>)

lemma run_ok:
  assumes "process_run c p q" "process_ok c me p" "blake3_laws c"
  shows "process_ok c me q"
  using assms(1,2)
proof (induction rule: process_run.induct)
  case (pr_step p q inp q')
  then show ?case using step_sound [OF _ _ assms(3)] by (auto simp: sound_step_def)
qed simp

lemma run_trans: "process_run c q r \<Longrightarrow> process_run c p q \<Longrightarrow> process_run c p r"
  by (induction rule: process_run.induct) (auto intro: pr_step)

lemma run_first: "process_step c inp p q \<Longrightarrow> process_run c q r \<Longrightarrow> process_run c p r"
  by (rule run_trans) (auto intro: pr_step pr_refl)

lemma boot_ok:
  assumes "blake3_laws c"
  shows "process_ok c (identity_nodeid c secret) (boot secret empty_file disk)"
proof -
  let ?s = "ps_state (boot secret empty_file disk)"
  have f: "dm_secret ?s = secret" "dm_wires ?s = []" "dm_inbound_tasks ?s = []" "dm_db ?s = snd (reconcile_stale_agents (open_at empty_file))"
    by (simp_all add: boot_def daemon_start_def daemon.defs)
  have g: "ps_past (boot secret empty_file disk) = []" "ps_tasks (boot secret empty_file disk) = (\<lambda>_. no_delivery)"
    "ps_conns (boot secret empty_file disk) = []" by (simp_all add: boot_def)
  have "db_messages (dm_db ?s) = []" "db_peers (dm_db ?s) = []" unfolding f(4) by (simp_all add: open_at_def) (simp_all add: empty_file_def)
  moreover have "db_inv (dm_db ?s)" unfolding f(4) by (rule store_step_inv [OF st_reconcile assms open_empty_inv])
  ultimately show ?thesis
    by (simp add: process_ok_def f(1-3) g local_nodeid_def ours_def peers_addressed_def wires_ok_def tasks_ok_def)
qed

section \<open>Properties\<close>

text \<open>
  C4 The state of a running install.  From a first start on an empty file, whatever requests, web calls,
  children, peers and restarts interleave, the store keeps its invariant, every outgoing row is the
  install's own and filed under its channel's id, every peer's ticket names that peer, and every stream
  ever opened was dialled to the peer it is for and carries nothing but an opening for its channel and
  frames of outgoing rows for that peer and channel, whole unless the connection was lost; the streams a
  delivery task still owns carry whole frames only.  (Requests to add a peer carry, if any, a ticket that
  names that peer, as those of \<^verbatim>\<open>wt peer add\<close> do; the daemon itself does not compare the two.)
\<close>

theorem daemon_invariant:
  assumes "blake3_laws c" and "process_run c (boot secret empty_file disk) q"
  shows "process_ok c (identity_nodeid c secret) q"
  using run_ok [OF assms(2) boot_ok [OF assms(1)] assms(1)] .

lemma sample_surroundings: "surroundings sample_crates sample_typed"
  by (simp add: surroundings_def sample_typed_env) (simp add: sample_typed_def sample_world_def fresh_dials_def is_plan_def)

lemma daemon_invariant_witness:
  "process_ok sample_crates (sample_node 1) (restart (boot (replicate 32 1) empty_file sample_disk
     \<lparr>ps_state := snd (serve sample_typed \<lparr>tl_recv = [], tl_agent = []\<rparr> (ReqPeerAdd (sample_node 2) ''bob'' None)
        (ps_state (boot (replicate 32 1) empty_file sample_disk)))\<rparr>))"
proof -
  have "process_step sample_crates Own (boot (replicate 32 1) empty_file sample_disk) (boot (replicate 32 1) empty_file sample_disk
     \<lparr>ps_state := snd (serve sample_typed \<lparr>tl_recv = [], tl_agent = []\<rparr> (ReqPeerAdd (sample_node 2) ''bob'' None)
        (ps_state (boot (replicate 32 1) empty_file sample_disk)))\<rparr>)"
    by (rule ps_request [OF sample_surroundings]) (simp_all add: addressed_def)
  from daemon_invariant [OF sample_blake3 pr_step [OF pr_step [OF pr_refl this] ps_restart]] show ?thesis
    by (simp add: sample_identity)
qed

end
