(* ===== verification/Wt_Relay.thy ===== *)
theory Wt_Relay
  imports Wt_Sessions Wt_Process
begin

text \<open>
  From one install's socket to another's subscribers: what the request to send stores, the channel's
  stream after a drain, and the first reception of a message.
\<close>

section \<open>The sender\<close>

text \<open>Every outgoing row was written by this install.\<close>

definition outbox_ours :: "crates \<Rightarrow> NodeId \<Rightarrow> db \<Rightarrow> bool" where
  "outbox_ours c me d \<longleftrightarrow> ours c me (db_messages d)"

text \<open>In every state a running install reaches, its outbox and its store are as the relay below needs them.\<close>

lemma reachable_outbox:
  assumes "blake3_laws c" "process_run c (boot secret empty_file disk) q"
  shows "outbox_ours c (local_nodeid c (ps_state q)) (dm_db (ps_state q))" "db_inv (dm_db (ps_state q))"
  using run_ok [OF assms(2) boot_ok [OF assms(1)] assms(1)] by (auto simp: process_ok_def outbox_ours_def)

definition sent_row :: "crates \<Rightarrow> u64 \<Rightarrow> NodeId \<Rightarrow> NodeId \<Rightarrow> string \<Rightarrow> bytes \<Rightarrow> int \<Rightarrow> msg_rec" where
  "sent_row c now me peer ch payload sq =
     \<lparr>m_sender = nid me, m_channel_id = channel_id c ch, m_seq = sq, m_direction = 0, m_channel = ch, m_peer = nid peer,
      m_payload = payload, m_enqueued_at_ms = as_i64 now, m_delivered_at_ms = None\<rparr>"

lemma notify_peer_frame [simp]:
  "dm_db (notify_peer n s) = dm_db s" "dm_secret (notify_peer n s) = dm_secret s" "cx_room (notify_peer n u) = cx_room u" "cx_out (notify_peer n u) = cx_out u"
  by (auto simp: notify_peer_def Let_def split: option.splits)

lemma send_stores:
  assumes "db_ok (dm_db s)" "cx_room s = None" "fst (peer_get (sel_to_bytes sel) (dm_db s)) = Inr (Some p)"
    and "next_seq (\<lambda>r. msg_scope r = (nid (local_nodeid (en_crates e) s), channel_id (en_crates e) ch)) m_seq (db_messages (dm_db s)) = Some sq"
  shows "\<exists>s1 now. dispatch e tls (ReqSend sel ch payload) s = (Inr (), s1) \<and> cx_out s1 = cx_out s @ [EvOk] \<and> dm_secret s1 = dm_secret s
    \<and> dm_db s1 = snd (outbox_enqueue (en_crates e) now (local_nodeid (en_crates e) s) (pr_nodeid p) ch payload (dm_db s))
    \<and> db_messages (dm_db s1) = db_messages (dm_db s) @ [sent_row (en_crates e) now (local_nodeid (en_crates e) s) (pr_nodeid p) ch payload sq]"
proof -
  let ?c = "en_crates e" and ?now = "w_ms (en_world e) (dm_tick s)"
  have q: "peer_get (sel_to_bytes sel) (dm_db s) = (Inr (Some p), dm_db s)"
    using assms(3) peer_get_read [of "sel_to_bytes sel" "dm_db s"] by (cases "peer_get (sel_to_bytes sel) (dm_db s)") simp
  obtain row d where enq: "outbox_enqueue ?c ?now (local_nodeid ?c s) (pr_nodeid p) ch payload (dm_db s) = (Inr row, d)"
    and d: "db_messages d = db_messages (dm_db s) @ [sent_row ?c ?now (local_nodeid ?c s) (pr_nodeid p) ch payload sq]"
    by (rule outbox_enqueue_cases [OF assms(1), of "local_nodeid ?c s" ?c ch ?now "pr_nodeid p" payload])
      (use assms(4) in \<open>simp_all add: sent_row_def\<close>)
  let ?s = "s\<lparr>dm_tick := Suc (dm_tick s), dm_db := d\<rparr>"
  have "dispatch e tls (ReqSend sel ch payload) s = (Inr (), reply EvOk (notify_peer (pr_nodeid p) ?s))"
    using assms(2) enq by (simp add: dispatch_def ipc_send_def Let_def and_then_def q on_db_at_def on_db_def write_event_reply)
  then show ?thesis using enq d by (intro exI [where x = "reply EvOk (notify_peer (pr_nodeid p) ?s)"] exI [where x = ?now])
    (simp add: reply_def)
qed

section \<open>The stream of a channel\<close>

lemma drained_channel:
  assumes "cbor_laws c" "fresh_dials w" "is_plan (w_msg_plan w)" "db_inv (dm_db s)" "can_deliver c w peer s"
    and "r \<in> set (pending_of peer s)"
  shows "\<exists>st' s' wr rs. drain_peer c w peer ([], s) = Some (Inr (), (st', s')) \<and> wr \<in> set (dm_wires s')
    \<and> wr_target wr = peer \<and> wr_channel wr = m_channel r
    \<and> received c wr = map (\<lambda>r. frame_of (as_message r)) rs \<and> set rs = {x \<in> set (pending_of peer s). m_channel x = m_channel r}"
proof -
  have "streams_unbounded [] (dm_wires s)" by (simp add: streams_unbounded_def)
  from drain_succeeds [OF assms(2,3,5) this assms(4) streams_hold_empty] obtain st' s' where
    d: "drain_peer c w peer ([], s) = Some (Inr (), (st', s'))" by blast
  with drain_effect [OF assms(2,3) streams_hold_empty assms(4), of c peer] obtain L where
    L: "delivered c peer L s s'" "pending_of peer s' = []" "streams_hold c peer (add_frames (\<lambda>_. []) L) st' (dm_wires s')" by auto
  have set_L: "set L = set (pending_of peer s)"
    using L(1,2) delivered_pending [OF L(1)] by (auto simp: delivered_def filter_empty_conv)
  let ?rs = "filter (\<lambda>x. m_channel x = m_channel r) L"
  have "add_frames (\<lambda>_. []) L (m_channel r) \<noteq> []" using assms(6) set_L by (auto simp: add_frames_def filter_empty_conv)
  with L(3) obtain i where i: "map_of st' (m_channel r) = Some i"
    by (cases "map_of st' (m_channel r)") (auto simp: streams_hold_def dest!: spec [of _ "m_channel r"])
  note h = streams_holdD [OF L(3) i]
  have "received c (dm_wires s' ! i) = map (\<lambda>r. frame_of (as_message r)) ?rs"
    using received_clean [OF assms(1) h(4)] by (simp add: add_frames_def)
  moreover have "set ?rs = {x \<in> set (pending_of peer s). m_channel x = m_channel r}" using set_L by auto
  moreover have "dm_wires s' ! i \<in> set (dm_wires s')" using h(1) by simp
  ultimately show ?thesis using d h(2,3) by blast
qed

text \<open>On one channel the install's own rows are told apart by their numbers.\<close>

lemma ours_distinct:
  assumes "messages_unique (db_messages d)" "list_all msg_rec_ok (db_messages d)" "outbox_ours c me d"
    and "x \<in> set (db_messages d)" "y \<in> set (db_messages d)" "m_direction x = 0" "m_direction y = 0" "m_channel x = m_channel y"
    and "mf_seq (frame_of (as_message x)) = mf_seq (frame_of (as_message y))"
  shows "x = y"
proof -
  have ok: "msg_rec_ok x" "msg_rec_ok y" using assms(2,4,5) by (simp_all add: list_all_iff)
  have "as_u64 (m_seq x) = as_u64 (m_seq y)" using assms(9) by (simp add: frame_of_def as_message_def)
  then have "m_seq x = m_seq y" using ok by (metis as_i64_as_u64 msg_rec_ok_def)
  moreover have "msg_scope x = msg_scope y" using assms(3-8) by (auto simp: outbox_ours_def ours_def own_row_def list_all_iff msg_scope_def)
  ultimately have "msg_conflict x y" by (simp add: msg_conflict_def msg_scope_def)
  then show ?thesis by (rule messages_t.unique_same [OF assms(1) [unfolded messages_unique_def] assms(4,5)])
qed

section \<open>The receiver\<close>

lemma first_new_member:
  assumes "x \<in> set xs" "in_key c x \<notin> known" "\<And>y. y \<in> set xs \<Longrightarrow> in_key c y = in_key c x \<Longrightarrow> y = x"
  shows "x \<in> set (first_new c known xs)"
proof -
  note k = first_new_keys [of c known xs]
  have "in_key c x \<in> in_key c ` set (first_new c known xs)" using k assms(1,2) by auto
  then obtain y where y: "y \<in> set (first_new c known xs)" "in_key c y = in_key c x" by auto
  have "set (first_new c known xs) \<subseteq> set xs" using k by (auto elim: list_emb_set)
  with y assms(3) show ?thesis by blast
qed

text \<open>The frames a peer's inbound task takes off a stream of channel \<open>ch\<close> opened by \<open>me\<close>.\<close>

definition arrivals :: "crates \<Rightarrow> NodeId \<Rightarrow> string option \<Rightarrow> string \<Rightarrow> Wire \<Rightarrow> Inbound list" where
  "arrivals c me nm ch wr =
     map (\<lambda>mf. \<lparr>in_remote = me, in_name = nm, in_channel = ch, in_frame = mf\<rparr>) (received c wr)"

lemma arrival_new:
  assumes "db_inv d" "outbox_ours c me d" "received c wr = map (\<lambda>r. frame_of (as_message r)) rs"
    and "set rs \<subseteq> {x \<in> set (db_messages d). m_direction x = 0 \<and> m_channel x = ch}" "r \<in> set rs"
    and "((nid me, channel_id c ch), m_seq r) \<notin> known"
  shows "\<lparr>in_remote = me, in_name = nm, in_channel = ch, in_frame = frame_of (as_message r)\<rparr>
    \<in> set (first_new c known (arrivals c me nm ch wr @ arrivals c me nm ch wr))"
proof (rule first_new_member)
  have ok: "msg_rec_ok r" using assms(1,4,5) by (auto simp: db_inv_def list_all_iff)
  show "in_key c \<lparr>in_remote = me, in_name = nm, in_channel = ch, in_frame = frame_of (as_message r)\<rparr> \<notin> known"
    using assms(6) ok by (simp add: in_key_def frame_key_def frame_of_def as_message_def msg_rec_ok_def as_i64_as_u64)
next
  fix y assume y: "y \<in> set (arrivals c me nm ch wr @ arrivals c me nm ch wr)"
    and key: "in_key c y = in_key c \<lparr>in_remote = me, in_name = nm, in_channel = ch, in_frame = frame_of (as_message r)\<rparr>"
  then obtain x where x: "x \<in> set rs" "y = \<lparr>in_remote = me, in_name = nm, in_channel = ch, in_frame = frame_of (as_message x)\<rparr>"
    by (auto simp: arrivals_def assms(3))
  have "mf_seq (frame_of (as_message x)) = mf_seq (frame_of (as_message r))"
    using key x(2) by (auto simp: in_key_def frame_key_def)
  with x assms(1,2,4,5) have "x = r" by (intro ours_distinct [of d c me]) (auto simp: db_inv_def)
  with x show "y = \<lparr>in_remote = me, in_name = nm, in_channel = ch, in_frame = frame_of (as_message r)\<rparr>" by simp
qed (use assms(3,5) in \<open>auto simp: arrivals_def\<close>)


section \<open>Sample data\<close>

text \<open>An install that knows one peer and holds its token, on a working network.\<close>

definition sample_relay :: env where
  "sample_relay = sample_env\<lparr>en_world := sample_net\<rparr>"

definition sample_request :: IpcRequest where
  "sample_request = ReqSend (SelName ''bob'') ''a'' [104, 105]"

definition sample_bob :: PeerRow where
  "sample_bob = \<lparr>pr_nodeid = sample_node 2, pr_name = ''bob'', pr_added_at_ms = 1, pr_last_seen_ms = None, pr_addr_blob = None\<rparr>"

lemma sample_relay_parts: "sample_crates = en_crates sample_relay" "sample_net = en_world sample_relay"
  by (simp_all add: sample_relay_def sample_env_def)

lemma sample_relay_secret: "dm_secret (sample_conn d) = replicate 32 1"
  by (simp add: sample_conn_def daemon.defs sample_daemon_def daemon_start_def)

lemma sample_relay_me: "sample_node 1 = local_nodeid sample_crates (sample_conn d)"
  using sample_identity by (simp add: local_nodeid_def sample_relay_secret)

lemma sample_no_messages [simp]: "db_messages sample_directory = []"
  by (simp add: sample_directory_def sample_db_def empty_file_def)

lemma sample_bob_found: "fst (peer_get (sel_to_bytes (SelName ''bob'')) (dm_db (sample_conn sample_directory))) = Inr (Some sample_bob)"
  using db_invD(1) [OF sample_directory_inv] by (simp add: peer_get_def call_ok sel_to_bytes_def)
    (simp add: sample_directory_def sample_node_def sql_query_row_def peer_matches_def row_to_peer_def fixed_32_def as_u64_def
      sample_bob_def)

lemma sample_seq: "next_seq P m_seq (db_messages (dm_db (sample_conn sample_directory))) = Some 1"
  by (simp add: next_seq_def sql_max_def max_i64_def)

lemma sample_sent_deliver:
  "can_deliver sample_crates sample_net (pr_nodeid sample_bob)
     (snd (dispatch sample_relay sample_tails sample_request (sample_conn sample_directory)))"
proof -
  let ?s = "sample_conn sample_directory" and ?r = "\<lambda>now. sent_row sample_crates now (sample_node 1) (sample_node 2) ''a'' [104, 105] 1"
  have bob: "pr_nodeid sample_bob = sample_node 2" by (simp add: sample_bob_def)
  obtain s1 now where s1: "dispatch sample_relay sample_tails sample_request ?s = (Inr (), s1)" "dm_secret s1 = dm_secret ?s"
      "dm_db s1 = snd (outbox_enqueue sample_crates now (sample_node 1) (sample_node 2) ''a'' [104, 105] sample_directory)"
      "db_messages (dm_db s1) = [?r now]"
    using send_stores [OF _ _ sample_bob_found sample_seq, of sample_relay sample_tails "''a''" "[104, 105]"]
      db_invD(1) [OF sample_directory_inv]
    unfolding sample_relay_parts(1) [symmetric] sample_relay_me [symmetric] sample_request_def by (auto simp: bob)
  have "can_deliver sample_crates sample_net (sample_node 2) s1"
  proof (rule sample_directory_deliver)
    show "db_inv (dm_db s1)" unfolding s1(3)
      by (rule store_step_inv [OF st_outbox_enqueue sample_blake3 sample_directory_inv]) (simp_all add: wf_sample_node)
    have "set (pending_of (sample_node 2) s1) \<subseteq> {?r now}" by (auto simp: pending_of_def s1(4))
    then show "\<forall>r\<in>set (pending_of (sample_node 2) s1). m_channel r = ''a''"
      "\<forall>r\<in>set (pending_of (sample_node 2) s1). encodable sample_crates (frame_of (as_message r))"
      by (auto simp: sent_row_def encodable_def sample_crates_def s_frame_enc_def fits_def MAX_FRAME_BYTES_def
          frame_of_def as_message_def)
    show "db_peers (dm_db s1) = db_peers sample_directory" "db_tokens (dm_db s1) = db_tokens sample_directory"
      unfolding s1(3) by (subst message_ops_frame(1), simp)+
  qed (simp add: s1(2) sample_relay_secret)
  then show ?thesis by (simp add: s1(1) bob)
qed

end
