(* ===== verification/Wt_Network.thy ===== *)
theory Wt_Network
  imports Wt_Process
begin

text \<open>
  Several installs and the network between them.  The installs of the set \<open>H\<close> run this program, each under
  its own key; everyone else may send whatever it likes.  The transport authenticates the node id of the
  other end, so what arrives from an install of \<open>H\<close> is a leading part of a stream which that install opened
  by dialling the receiver, or the beginning of an opening that broke off.
\<close>

section \<open>The network\<close>

type_synonym network = "NodeId \<Rightarrow> process"

definition log_of :: "process \<Rightarrow> msg_rec list" where
  "log_of p = db_messages (dm_db (ps_state p))"

definition arrives :: "network \<Rightarrow> NodeId \<Rightarrow> NodeId \<Rightarrow> bytes \<Rightarrow> bool" where
  "arrives N m n bs \<longleftrightarrow>
     (\<exists>wr\<in>set (ps_past (N m) @ dm_wires (ps_state (N m))). wr_dialled wr = n \<and> prefix bs (ss_out (wr_stream wr)))
     \<or> (\<exists>ob k. fits ob \<and> k < length (frame_bytes ob) \<and> bs = take k (frame_bytes ob))"

fun may_arrive :: "crates \<Rightarrow> NodeId set \<Rightarrow> network \<Rightarrow> NodeId \<Rightarrow> Input \<Rightarrow> bool" where
  "may_arrive c H N n Own \<longleftrightarrow> True"
| "may_arrive c H N n (Stream m recv) \<longleftrightarrow> (m \<in> H \<longrightarrow> arrives N m n (rs_in recv))"
| "may_arrive c H N n (More j recv) \<longleftrightarrow>
     (it_remote (dm_inbound_tasks (ps_state (N n)) ! j) \<in> H \<longrightarrow>
        (\<exists>bs e tok. arrives N (it_remote (dm_inbound_tasks (ps_state (N n)) ! j)) n bs
           \<and> read_stream_open c \<lparr>rs_in = bs, rs_end = e\<rparr>
               = (Inr (StreamMsg tok (it_channel (dm_inbound_tasks (ps_state (N n)) ! j))), recv)))"

inductive net_step :: "crates \<Rightarrow> NodeId set \<Rightarrow> network \<Rightarrow> network \<Rightarrow> bool" for c H where
  net_turn: "n \<in> H \<Longrightarrow> process_step c inp (N n) q \<Longrightarrow> may_arrive c H N n inp \<Longrightarrow> net_step c H N (N(n := q))"

inductive net_run :: "crates \<Rightarrow> NodeId set \<Rightarrow> network \<Rightarrow> network \<Rightarrow> bool" for c H where
  nr_refl: "net_run c H N N"
| nr_step: "net_run c H N M \<Longrightarrow> net_step c H M M' \<Longrightarrow> net_run c H N M'"

section \<open>The invariant\<close>

text \<open>An outgoing row with these contents, addressed to \<open>n\<close>.\<close>

definition sent_to :: "msg_rec list \<Rightarrow> NodeId \<Rightarrow> string \<Rightarrow> int \<Rightarrow> bytes \<Rightarrow> int \<Rightarrow> bool" where
  "sent_to rows n ch sq payload ts \<longleftrightarrow>
     list_ex (\<lambda>q. m_direction q = 0 \<and> m_peer q = nid n \<and> m_channel q = ch \<and> m_seq q = sq \<and> m_payload q = payload
                  \<and> m_enqueued_at_ms q = ts) rows"

definition frames_sent :: "crates \<Rightarrow> NodeId set \<Rightarrow> network \<Rightarrow> NodeId \<Rightarrow> InboundTask \<Rightarrow> bool" where
  "frames_sent c H N n t \<longleftrightarrow>
     (it_remote t \<in> H \<longrightarrow> list_all (sent_frame (log_of (N (it_remote t))) n (it_channel t)) (frames_of c t))"

definition inbox_sent :: "NodeId set \<Rightarrow> network \<Rightarrow> NodeId \<Rightarrow> msg_rec \<Rightarrow> bool" where
  "inbox_sent H N n r \<longleftrightarrow> m_direction r = 1 \<longrightarrow>
     (\<forall>m\<in>H. m_sender r = nid m \<longrightarrow> sent_to (log_of (N m)) n (m_channel r) (m_seq r) (m_payload r) (m_enqueued_at_ms r))"

definition event_sent :: "NodeId set \<Rightarrow> network \<Rightarrow> NodeId \<Rightarrow> IpcEvent \<Rightarrow> bool" where
  "event_sent H N n ev \<longleftrightarrow> (\<forall>m nm ch payload ts. ev = EvRecvMsg m nm ch payload ts \<longrightarrow> m \<in> H \<longrightarrow>
     (\<exists>sq. sent_to (log_of (N m)) n ch sq payload (as_i64 ts)))"

definition net_ok :: "crates \<Rightarrow> NodeId set \<Rightarrow> network \<Rightarrow> bool" where
  "net_ok c H N \<longleftrightarrow> (\<forall>n\<in>H. process_ok c n (N n)
     \<and> (\<forall>t\<in>set (dm_inbound_tasks (ps_state (N n))). frames_sent c H N n t)
     \<and> (\<forall>r\<in>set (log_of (N n)). inbox_sent H N n r)
     \<and> (\<forall>ev\<in>set (dm_recv_bcast (ps_state (N n))). event_sent H N n ev))"

text \<open>Every log only grows.\<close>

definition logs_grow :: "network \<Rightarrow> network \<Rightarrow> bool" where
  "logs_grow N N' \<longleftrightarrow> (\<forall>m. \<exists>P. log_grows P (log_of (N m)) (log_of (N' m)))"

lemma sent_to_grows:
  assumes "log_grows P rows rows'" "sent_to rows n ch sq payload ts"
  shows "sent_to rows' n ch sq payload ts"
proof -
  from assms(2) obtain q where q: "q \<in> set rows" "m_direction q = 0" "m_peer q = nid n" "m_channel q = ch" "m_seq q = sq"
    "m_payload q = payload" "m_enqueued_at_ms q = ts" by (auto simp: sent_to_def list_ex_iff)
  from log_grows_keeps [OF assms(1) q(1)] obtain q' where "q' \<in> set rows'" "undelivered q' = undelivered q" by blast
  with q undelivered_same [of q' q] show ?thesis
    unfolding sent_to_def list_ex_iff by (intro bexI [where x = q']) simp_all
qed

lemma sent_mono:
  assumes "logs_grow N N'"
  shows "sent_to (log_of (N m)) n ch sq payload ts \<Longrightarrow> sent_to (log_of (N' m)) n ch sq payload ts"
    "list_all (sent_frame (log_of (N m)) n ch) fs \<Longrightarrow> list_all (sent_frame (log_of (N' m)) n ch) fs"
  using assms sent_to_grows sent_frames_grow unfolding logs_grow_def by blast+

lemma net_mono:
  assumes "logs_grow N N'"
  shows "frames_sent c H N n t \<Longrightarrow> frames_sent c H N' n t" "inbox_sent H N n r \<Longrightarrow> inbox_sent H N' n r"
    "event_sent H N n ev \<Longrightarrow> event_sent H N' n ev"
proof -
  show "frames_sent c H N n t \<Longrightarrow> frames_sent c H N' n t" by (simp add: frames_sent_def sent_mono(2) [OF assms])
  show "inbox_sent H N n r \<Longrightarrow> inbox_sent H N' n r" by (simp add: inbox_sent_def sent_mono(1) [OF assms])
  show "event_sent H N n ev \<Longrightarrow> event_sent H N' n ev"
    by (cases ev) (auto simp: event_sent_def intro: sent_mono(1) [OF assms])
qed

section \<open>What arrives\<close>

lemma arrives_frames:
  assumes "cbor_laws c" "process_ok c m (N m)" "arrives N m n bs"
    and open_ok: "read_stream_open c \<lparr>rs_in = bs, rs_end = e\<rparr> = (Inr (StreamMsg tok ch), recv)"
  shows "list_all (sent_frame (log_of (N m)) n ch) (fst (run_recv_loop c None recv))"
  using assms(3) unfolding arrives_def
proof (elim disjE bexE exE conjE)
  fix wr
  assume wr: "wr \<in> set (ps_past (N m) @ dm_wires (ps_state (N m)))" "wr_dialled wr = n" "prefix bs (ss_out (wr_stream wr))"
  then have g: "genuine c (log_of (N m)) wr" using assms(2) unfolding process_ok_def wires_ok_def log_of_def by blast
  then have "wr_target wr = n" using wr(2) by (simp add: genuine_def)
  with genuine_received [OF assms(1) g wr(3) open_ok] show ?thesis by simp
next
  fix ob k
  assume "fits ob" "k < length (frame_bytes ob)" "bs = take k (frame_bytes ob)"
  with read_cbor_frame_cut [of ob k e] open_ok show ?thesis
    by (auto simp: read_stream_open_def split: prod.splits sum.splits option.splits)
qed

lemma new_task_sent:
  assumes "cbor_laws c" "net_ok c H N" "may_arrive c H N n inp" "new_task c inp (N n) t"
  shows "frames_sent c H N n t"
  unfolding frames_sent_def frames_of_def
proof
  assume m: "it_remote t \<in> H"
  then have ok: "process_ok c (it_remote t) (N (it_remote t))" using assms(2) by (simp add: net_ok_def)
  show "list_all (sent_frame (log_of (N (it_remote t))) n (it_channel t)) (fst (run_recv_loop c None (it_recv t)))"
  proof (cases inp)
    case (Stream remote recv)
    obtain tok where "read_stream_open c \<lparr>rs_in = rs_in recv, rs_end = rs_end recv\<rparr> = (Inr (StreamMsg tok (it_channel t)), it_recv t)"
      using assms(4) by (cases recv) (auto simp: Stream new_task_def)
    moreover have "arrives N (it_remote t) n (rs_in recv)" using assms(3,4) m by (auto simp: Stream new_task_def)
    ultimately show ?thesis using arrives_frames [where N = N, OF assms(1) ok] by blast
  next
    case (More j recv)
    let ?t = "dm_inbound_tasks (ps_state (N n)) ! j"
    have t: "it_remote t = it_remote ?t" "it_channel t = it_channel ?t" "it_recv t = recv"
      using assms(4) by (simp_all add: More new_task_def)
    with assms(3) m obtain bs e tok where "arrives N (it_remote t) n bs"
      "read_stream_open c \<lparr>rs_in = bs, rs_end = e\<rparr> = (Inr (StreamMsg tok (it_channel t)), it_recv t)" by (auto simp: More)
    then show ?thesis by (rule arrives_frames [where N = N, OF assms(1) ok])
  qed (use assms(4) in \<open>simp add: new_task_def\<close>)
qed

text \<open>A frame of an arrived stream stands for an outgoing row of the sender.\<close>

lemma frame_sent_to:
  assumes "db_inv d" "sent_frame (db_messages d) n ch mf"
  shows "sent_to (db_messages d) n ch (as_i64 (mf_seq mf)) (mf_payload mf) (as_i64 (mf_ts_ms mf))"
proof -
  from assms(2) obtain q where q: "q \<in> set (db_messages d)" "m_direction q = 0" "m_peer q = nid n" "m_channel q = ch"
    "mf = frame_of (as_message q)" by (auto simp: sent_frame_def list_ex_iff)
  have "msg_rec_ok q" using db_invD(7) [OF assms(1)] q(1) by (simp add: list_all_iff)
  then have "as_i64 (mf_seq mf) = m_seq q" "as_i64 (mf_ts_ms mf) = m_enqueued_at_ms q"
    by (simp_all add: q(5) frame_of_def as_message_def msg_rec_ok_def as_i64_as_u64)
  moreover have "mf_payload mf = m_payload q" by (simp add: q(5) frame_of_def as_message_def)
  ultimately show ?thesis unfolding sent_to_def list_ex_iff using q by (intro bexI [where x = q]) simp_all
qed

lemma nid_eq: "nid a = nid b \<longleftrightarrow> a = b"
  by (cases a; cases b) simp

lemma inbound_sent:
  assumes ok: "net_ok c H N" "n \<in> H"
  shows "inbound_row c (N n) r \<Longrightarrow> inbox_sent H N n r" "inbound_event c (N n) ev \<Longrightarrow> event_sent H N n ev"
proof -
  have fr: "sent_to (log_of (N (it_remote t))) n (it_channel t) (as_i64 (mf_seq mf)) (mf_payload mf) (as_i64 (mf_ts_ms mf))"
    if "t \<in> set (dm_inbound_tasks (ps_state (N n)))" "mf \<in> set (frames_of c t)" "it_remote t \<in> H" for t mf
  proof -
    have "sent_frame (log_of (N (it_remote t))) n (it_channel t) mf"
      using ok that by (auto simp: net_ok_def frames_sent_def list_all_iff)
    moreover have "db_inv (dm_db (ps_state (N (it_remote t))))" using ok(1) that(3) by (simp add: net_ok_def process_ok_def)
    ultimately show ?thesis unfolding log_of_def by (rule frame_sent_to [rotated])
  qed
  show "inbox_sent H N n r" if "inbound_row c (N n) r" using that fr by (auto simp: inbound_row_def inbox_sent_def nid_eq)
  show "event_sent H N n ev" if "inbound_event c (N n) ev" using that fr by (auto simp: inbound_event_def event_sent_def)
qed

section \<open>Preservation\<close>

lemma net_step_ok:
  assumes "net_step c H N N'" "net_ok c H N" "blake3_laws c" "cbor_laws c"
  shows "net_ok c H N'"
  using assms(1)
proof cases
  case (net_turn n inp q)
  then have okn: "process_ok c n (N n)" using assms(2) by (simp add: net_ok_def)
  from step_sound [OF net_turn(3) this assms(3)] have q: "process_ok c n q" "step_frame c n inp (N n) q"
    by (simp_all add: sound_step_def)
  have mono: "logs_grow N N'"
    unfolding logs_grow_def using q(2) by (auto simp: net_turn(1) step_frame_def log_of_def intro: exI [where x = "\<lambda>_. True"])
  note m = net_mono [OF mono]
  have "frames_sent c H N' n t" if "t \<in> set (dm_inbound_tasks (ps_state q))" for t
    using q(2) that assms(2) net_turn(2) m(1) new_task_sent [OF assms(4,2) net_turn(4)] by (auto simp: step_frame_def net_ok_def)
  moreover have "event_sent H N' n ev" if "ev \<in> set (dm_recv_bcast (ps_state q))" for ev
    using q(2) that assms(2) net_turn(2) m(3) inbound_sent(2) [OF assms(2) net_turn(2)] by (auto simp: step_frame_def net_ok_def)
  moreover have "inbox_sent H N' n r" if "r \<in> set (log_of q)" for r
  proof -
    have "log_grows (\<lambda>r. own_row c n r \<or> inbound_row c (N n) r) (log_of (N n)) (log_of q)" using q(2) by (simp add: step_frame_def log_of_def)
    from log_grows_row [OF this that] consider "own_row c n r" | "inbound_row c (N n) r" | x where "x \<in> set (log_of (N n))" "undelivered x = undelivered r" by blast
    then show ?thesis
    proof cases
      case 2
      then show ?thesis by (rule m(2) [OF inbound_sent(1) [OF assms(2) net_turn(2)]])
    next
      case (3 x)
      then have "inbox_sent H N' n x" using assms(2) net_turn(2) m(2) by (simp add: net_ok_def)
      with undelivered_same [OF 3(2)] show ?thesis by (simp add: inbox_sent_def)
    qed (simp add: inbox_sent_def own_row_def)
  qed
  ultimately show ?thesis
    using assms(2) q(1) m unfolding net_ok_def net_turn(1) by (auto simp: fun_upd_apply)
qed

lemma net_run_ok:
  assumes "net_run c H N N'" "net_ok c H N" "blake3_laws c" "cbor_laws c"
  shows "net_ok c H N'"
  using assms(1,2)
proof (induction rule: net_run.induct)
  case (nr_step N M M')
  then show ?case using net_step_ok [OF _ _ assms(3,4)] by blast
qed

definition first_start :: "(NodeId \<Rightarrow> bytes) \<Rightarrow> (NodeId \<Rightarrow> fsys) \<Rightarrow> network" where
  "first_start secret disk = (\<lambda>n. boot (secret n) empty_file (disk n))"

lemma first_start_ok:
  assumes "blake3_laws c" "\<forall>n\<in>H. identity_nodeid c (secret n) = n"
  shows "net_ok c H (first_start secret disk)"
proof -
  have "dm_inbound_tasks (ps_state (boot k empty_file d)) = []" "dm_recv_bcast (ps_state (boot k empty_file d)) = []"
    "log_of (boot k empty_file d) = []" for k d
    by (simp_all add: boot_def daemon_start_def daemon.defs log_of_def open_at_def) (simp_all add: empty_file_def)
  then show ?thesis using boot_ok [OF assms(1)] assms(2) by (auto simp: net_ok_def first_start_def) metis
qed

section \<open>Properties\<close>

text \<open>
  C3 Messages are authentic.  Among installs that run this program under their own keys, on a network that
  may lose connections at any byte and where strangers send anything, whatever an install has stored as
  received from another, and whatever it has shown its subscribers as coming from it, is a message the
  other has in its outbox, addressed to this install: same channel, payload and time, and, for what is
  stored, the same number.  It stays so through restarts on both sides.  (Each install adds its peers with
  tickets that name them.)
\<close>

theorem network_authentic:
  assumes "blake3_laws c" and "cbor_laws c" and "\<forall>n\<in>H. identity_nodeid c (secret n) = n"
    and "net_run c H (first_start secret disk) N" and "n \<in> H" and "m \<in> H"
  shows "(\<forall>r\<in>set (log_of (N n)). m_direction r = 1 \<longrightarrow> m_sender r = nid m \<longrightarrow>
       sent_to (log_of (N m)) n (m_channel r) (m_seq r) (m_payload r) (m_enqueued_at_ms r))
    \<and> (\<forall>nm ch payload ts. EvRecvMsg m nm ch payload ts \<in> set (dm_recv_bcast (ps_state (N n))) \<longrightarrow>
       (\<exists>sq. sent_to (log_of (N m)) n ch sq payload (as_i64 ts)))"
proof -
  have "net_ok c H N" by (rule net_run_ok [OF assms(4) first_start_ok [OF assms(1,3)] assms(1,2)])
  with assms(5,6) show ?thesis unfolding net_ok_def inbox_sent_def event_sent_def by blast
qed

section \<open>An exchange\<close>

text \<open>Two installs and every step of one message between them: the receiver adds the sender as a peer and grants
  it a token; the sender adds the receiver, imports the token and sends; its delivery task fetches and writes
  the message; the receiver takes the connection, the stream and the frame.\<close>

definition sample_linked :: env where
  "sample_linked = sample_typed\<lparr>en_world := (en_world sample_typed)\<lparr>w_dial := (\<lambda>i n t. Some \<lparr>ss_out = [], ss_budget = None\<rparr>)\<rparr>\<rparr>"

definition sample_ask :: "IpcRequest \<Rightarrow> process \<Rightarrow> process" where
  "sample_ask req p = p\<lparr>ps_state := snd (serve sample_linked \<lparr>tl_recv = [], tl_agent = []\<rparr> req (ps_state p))\<rparr>"

definition sample_known :: process where
  "sample_known = sample_ask (ReqPeerAdd (sample_node 1) ''a'' None) (boot (nid (sample_node 2)) empty_file sample_disk)"

definition sample_granted :: process where
  "sample_granted = sample_ask (ReqTokenGrant (SelName ''a'') [Msg] None) sample_known"

definition sample_signed_grant :: bytes where
  "sample_signed_grant = (case last (cx_out (ps_state sample_granted)) of EvTokenIssued tok _ \<Rightarrow> tok | _ \<Rightarrow> [])"

definition sample_holds :: process where
  "sample_holds = sample_ask (ReqTokenImport sample_signed_grant)
     (sample_ask (ReqPeerAdd (sample_node 2) ''b'' None) (boot (nid (sample_node 1)) empty_file sample_disk))"

definition sample_queued :: process where
  "sample_queued = sample_ask (ReqSend (SelName ''b'') ''c'' [7, 8]) sample_holds"

definition sample_fetched :: process where
  "sample_fetched = fetch_batch sample_linked (sample_node 2) sample_queued"

definition sample_written :: process where
  "sample_written =
     (let p = sample_fetched in
      case dl_batch (ps_tasks p (sample_node 2)) of [] \<Rightarrow> p | row # rest \<Rightarrow> deliver_next sample_linked (sample_node 2) row rest p)"

definition sample_stream :: RecvStream where
  "sample_stream = \<lparr>rs_in = ss_out (wr_stream (hd (dm_wires (ps_state sample_written)))), rs_end = Finished\<rparr>"

definition sample_opened :: process where
  "sample_opened = take_stream sample_linked (sample_node 1) sample_stream (sample_granted\<lparr>ps_conns := [sample_node 1]\<rparr>)"

definition sample_received :: process where
  "sample_received = handle_frame sample_linked 0 sample_opened"

lemma sample_linked_surroundings: "surroundings sample_crates sample_linked"
proof -
  have "typed_env sample_linked" using sample_typed_env by (simp add: typed_env_def sample_linked_def)
  with sample_surroundings show ?thesis by (simp add: surroundings_def sample_linked_def fresh_dials_def)
qed

lemma sample_ask_step: "wf_request req \<Longrightarrow> addressed_request sample_crates req \<Longrightarrow> process_step sample_crates Own p (sample_ask req p)"
  unfolding sample_ask_def by (rule ps_request [OF sample_linked_surroundings])

definition sample_two :: "process \<Rightarrow> process \<Rightarrow> network" where
  "sample_two a b = (first_start nid (\<lambda>_. sample_disk))(sample_node 1 := a, sample_node 2 := b)"

lemma sample_two_turns:
  assumes "net_run c {sample_node 1, sample_node 2} N (sample_two a b)"
  shows "process_step c Own a a' \<Longrightarrow> net_run c {sample_node 1, sample_node 2} N (sample_two a' b)"
    "process_step c inp b b' \<Longrightarrow> may_arrive c {sample_node 1, sample_node 2} (sample_two a b) (sample_node 2) inp
       \<Longrightarrow> net_run c {sample_node 1, sample_node 2} N (sample_two a b')"
proof -
  have ne: "sample_node 1 \<noteq> sample_node 2" by (simp add: sample_node_def)
  have upd: "(sample_two a b)(sample_node 1 := a') = sample_two a' b" "(sample_two a b)(sample_node 2 := b') = sample_two a b'"
    using ne by (auto simp: sample_two_def fun_upd_twist)
  show "net_run c {sample_node 1, sample_node 2} N (sample_two a' b)" if "process_step c Own a a'"
    using nr_step [OF assms net_turn [of "sample_node 1" _ c Own _ a']] that ne by (simp add: upd) (simp add: sample_two_def)
  show "net_run c {sample_node 1, sample_node 2} N (sample_two a b')"
    if "process_step c inp b b'" "may_arrive c {sample_node 1, sample_node 2} (sample_two a b) (sample_node 2) inp"
    using nr_step [OF assms net_turn [of "sample_node 2" _ c inp _ b']] that by (simp add: upd) (simp add: sample_two_def)
qed

text \<open>The grant and the stream as bytes; with these the rest of the exchange evaluates.\<close>

lemma sample_signed_grant_bytes [code]:
  "sample_signed_grant = [0, 0, 0, 0, 0, 0, 0, 89] @ replicate 32 2 @ replicate 32 1 @ replicate 16 5
     @ [0, 0, 0, 0, 244, 134, 87, 0, 0] @ replicate 64 2"
  by code_simp

lemma sample_stream_bytes [code]:
  "sample_stream = \<lparr>rs_in = [0, 0, 0, 170, 0, 0, 0, 0, 0, 0, 0, 161] @ sample_signed_grant
       @ [99, 0, 0, 0, 18, 0, 0, 0, 0, 0, 0, 0, 1, 0, 0, 0, 0, 0, 0, 0, 1, 7, 8], rs_end = Finished\<rparr>"
  by code_simp

lemma sample_sender_facts:
  "dl_batch (ps_tasks sample_queued (sample_node 2)) = []" "dl_batch (ps_tasks sample_fetched (sample_node 2)) \<noteq> []"
  "map wr_dialled (dm_wires (ps_state sample_written)) = [sample_node 2]"
  by code_simp+

lemma sample_receiver_facts:
  "require_peer_known (sample_node 1) (dm_db (ps_state sample_granted)) = Inr ()" "ps_conns sample_granted = []"
  "map (frames_of sample_crates) (dm_inbound_tasks (ps_state sample_opened)) = [[\<lparr>mf_seq = 1, mf_ts_ms = 1, mf_payload = [7, 8]\<rparr>]]"
  "ps_read sample_opened 0 = 0"
  by code_simp+

lemma sample_received_log:
  "map (\<lambda>r. (m_direction r, m_sender r, m_channel r, m_payload r)) (log_of sample_received) = [(1, nid (sample_node 1), ''c'', [7, 8])]"
  by code_simp

lemma sample_sender_run:
  "net_run sample_crates {sample_node 1, sample_node 2} (first_start nid (\<lambda>_. sample_disk)) (sample_two sample_written sample_granted)"
proof -
  note e = sample_linked_surroundings and turn = sample_two_turns
  have "first_start nid (\<lambda>_. sample_disk) = sample_two (boot (nid (sample_node 1)) empty_file sample_disk)
      (boot (nid (sample_node 2)) empty_file sample_disk)" by (auto simp: sample_two_def first_start_def fun_eq_iff)
  then have start: "net_run sample_crates {sample_node 1, sample_node 2} (first_start nid (\<lambda>_. sample_disk))
      (sample_two (boot (nid (sample_node 1)) empty_file sample_disk) (boot (nid (sample_node 2)) empty_file sample_disk))"
    by (metis nr_refl)
  have b: "process_step sample_crates Own (boot (nid (sample_node 2)) empty_file sample_disk) sample_known"
    "process_step sample_crates Own sample_known sample_granted"
    unfolding sample_known_def sample_granted_def by (rule sample_ask_step; simp add: addressed_def)+
  have a: "process_step sample_crates Own p (sample_ask (ReqPeerAdd (sample_node 2) ''b'' None) p)"
    "process_step sample_crates Own p (sample_ask (ReqTokenImport sample_signed_grant) p)"
    "process_step sample_crates Own sample_holds sample_queued" for p
    unfolding sample_queued_def by (rule sample_ask_step; simp add: addressed_def)+
  have f: "process_step sample_crates Own sample_queued sample_fetched"
    unfolding sample_fetched_def by (rule ps_fetch [OF e sample_sender_facts(1)])
  obtain row rest where "dl_batch (ps_tasks sample_fetched (sample_node 2)) = row # rest" using sample_sender_facts(2) by (meson list.exhaust)
  with ps_deliver [OF e this] have d: "process_step sample_crates Own sample_fetched sample_written" by (simp add: sample_written_def)
  from turn(2) [OF turn(2) [OF start b(1)] b(2)] have "net_run sample_crates {sample_node 1, sample_node 2} (first_start nid (\<lambda>_. sample_disk))
      (sample_two (boot (nid (sample_node 1)) empty_file sample_disk) sample_granted)" by simp
  from turn(1) [OF turn(1) [OF this a(1)] a(2)] have "net_run sample_crates {sample_node 1, sample_node 2} (first_start nid (\<lambda>_. sample_disk))
      (sample_two sample_holds sample_granted)" by (simp add: sample_holds_def)
  from turn(1) [OF turn(1) [OF turn(1) [OF this a(3)] f] d] show ?thesis .
qed

lemma sample_exchange:
  "net_run sample_crates {sample_node 1, sample_node 2} (first_start nid (\<lambda>_. sample_disk)) (sample_two sample_written sample_received)"
proof -
  note e = sample_linked_surroundings
  have "process_step sample_crates Own sample_granted (sample_granted\<lparr>ps_conns := [sample_node 1]\<rparr>)"
    using ps_connect [OF _ sample_receiver_facts(1)] sample_receiver_facts(2) by (metis wf_sample_node)
  from sample_two_turns(2) [OF sample_sender_run this] have c: "net_run sample_crates {sample_node 1, sample_node 2}
      (first_start nid (\<lambda>_. sample_disk)) (sample_two sample_written (sample_granted\<lparr>ps_conns := [sample_node 1]\<rparr>))" by simp
  obtain wr where "dm_wires (ps_state sample_written) = [wr]" "wr_dialled wr = sample_node 2" using sample_sender_facts(3) by auto
  then have m: "may_arrive sample_crates {sample_node 1, sample_node 2} (sample_two sample_written b) (sample_node 2) (Stream (sample_node 1) sample_stream)" for b
    by (auto simp: arrives_def sample_two_def sample_stream_def sample_node_def)
  have "process_step sample_crates (Stream (sample_node 1) sample_stream) (sample_granted\<lparr>ps_conns := [sample_node 1]\<rparr>) sample_opened"
    unfolding sample_opened_def by (rule ps_stream [OF e]) simp
  note t = sample_two_turns(2) [OF c this m]
  obtain x where x: "dm_inbound_tasks (ps_state sample_opened) = [x]" "frames_of sample_crates x \<noteq> []"
    using sample_receiver_facts(3) by auto
  then have "process_step sample_crates Own sample_opened sample_received"
    unfolding sample_received_def by (intro ps_frame [OF e]) (simp_all add: sample_receiver_facts(4))
  from sample_two_turns(2) [OF t this] show ?thesis by simp
qed

lemma network_authentic_witness:
  "list_ex (\<lambda>r. m_payload r = [7, 8] \<and> m_sender r = nid (sample_node 1)
     \<and> sent_to (log_of sample_written) (sample_node 2) ''c'' (m_seq r) [7, 8] (m_enqueued_at_ms r)) (log_of sample_received)"
proof -
  have key: "\<forall>n\<in>{sample_node 1, sample_node 2}. identity_nodeid sample_crates (nid n) = n"
    by (simp add: identity_nodeid_def sample_crates_def s_pad_def sample_node_def)
  obtain r where r: "log_of sample_received = [r]" "m_direction r = 1" "m_sender r = nid (sample_node 1)" "m_channel r = ''c''" "m_payload r = [7, 8]"
    using sample_received_log by auto
  have N: "sample_two sample_written sample_received (sample_node 1) = sample_written"
    "sample_two sample_written sample_received (sample_node 2) = sample_received" by (simp_all add: sample_two_def sample_node_def)
  from network_authentic [OF sample_blake3 sample_cbor key sample_exchange, of "sample_node 2" "sample_node 1", unfolded N] r
  show ?thesis by simp
qed

end
