(* ===== verification/Wt_Cli.thy ===== *)
theory Wt_Cli
  imports Wt_Sessions
begin

text \<open>
  \<^verbatim>\<open>src/crates/wt-cli/src/main.rs\<close>: the commands of \<open>wt\<close>, run against the daemon's side of the socket
  as \<^verbatim>\<open>Wt_Ipc\<close> models it.  A command yields the lines it prints on standard output and how it ends;
  what it prints on standard error is left out.
\<close>

section \<open>Arguments\<close>

datatype PeerCmd = PeerAdd string string | PeerRm string | PeerList

datatype GroupCmd = GroupNew string | GroupLs

datatype AgentCmd = AgentLs "string option" "string option" | AgentKill string "string option"

datatype SessionCmd = SessionClose string bool "string option"

datatype TokenCmd = TokenGrant string "string list" "string option" | TokenImport string | TokenList | TokenRevoke string

record LsOpts =
  ls_remote :: bool
  ls_local :: bool
  ls_connected :: bool
  ls_group :: "string option"

record SendOpts =
  sd_peer :: "string option"
  sd_message :: "string option"
  sd_channel :: "string option"
  sd_session :: "string option"
  sd_token :: "string option"
  sd_group :: "string option"
  sd_kind :: string

record RecvOpts =
  rc_from :: "string option"
  rc_channel :: "string option"
  rc_follow :: bool
  rc_since :: "string option"
  rc_session :: "string option"
  rc_token :: "string option"
  rc_group :: "string option"
  rc_all :: bool

record SpawnOpts =
  so_session :: string
  so_dir :: string
  so_group :: "string option"
  so_tok :: "string option"
  so_worktree :: bool
  so_new :: bool
  so_prompt :: "string option"
  so_idle_timeout :: "string option"
  so_permission_mode :: "string option"
  so_plan :: bool
  so_skip_permissions :: bool
  so_trace :: bool
  so_coordinator :: bool

datatype Cmd =
    CmdNodeid
  | CmdTicket
  | CmdStatus
  | CmdPeer PeerCmd
  | CmdLs LsOpts
  | CmdConn
  | CmdToken TokenCmd
  | CmdSend SendOpts
  | CmdRecv RecvOpts
  | CmdChat string string
  | CmdExec
  | CmdShell
  | CmdGroup GroupCmd
  | CmdAgent AgentCmd
  | CmdWhoami "string option"
  | CmdSpawn SpawnOpts
  | CmdSession SessionCmd

section \<open>Errors and exit codes\<close>

datatype cli_error =
    CliIpc IpcError
  | CliNoSocket
  | CliConnect
  | CliReadEvent
  | CliUnexpected IpcEvent
  | CliText string
  | CliTicket TicketError
  | CliNodeId NodeIdParseError
  | CliToken TokenDecodeError
  | CliCbor
  | CliJson
  | CliStdin
  | CliIdentity id_error
  | CliStore
  | CliDaemon boot_error
  | CliNotImplemented
  | CliPanic

definition exit_code_for :: "IpcErrorCode \<Rightarrow> int" where
  "exit_code_for cd =
     (case cd of
        Unauthorized \<Rightarrow> 3 | Expired \<Rightarrow> 3 | Revoked \<Rightarrow> 3 | PeerNotKnown \<Rightarrow> 3
      | NotFound \<Rightarrow> 4 | BadRequest \<Rightarrow> 2 | Unimplemented \<Rightarrow> 5 | Internal \<Rightarrow> 1)"

text \<open>The status \<open>main\<close> exits with; the two stubs exit by themselves, and a panic is the runtime's 101.\<close>

definition exit_status :: "cli_error + unit \<Rightarrow> int" where
  "exit_status r =
     (case r of
        Inr _ \<Rightarrow> 0
      | Inl (CliIpc e) \<Rightarrow> exit_code_for (code e)
      | Inl CliNotImplemented \<Rightarrow> 2
      | Inl CliPanic \<Rightarrow> 101
      | Inl _ \<Rightarrow> 1)"

section \<open>What a command finds around it\<close>

record cli_env =
  ce_daemon :: env
  ce_tails :: tails
  ce_connect :: "cli_error option"
  ce_var :: "string \<Rightarrow> string option"
  ce_git :: "string \<Rightarrow> bool"
  ce_cwd :: "string option"
  ce_stdin :: "bytes option"
  ce_lines :: "string list"
  ce_now :: u64

type_synonym cli_end = "string list \<times> (cli_error + unit)"
type_synonym cli_run = "ipc_state \<Rightarrow> cli_end \<times> ipc_state"

section \<open>Helpers\<close>

definition env_or :: "cli_env \<Rightarrow> string option \<Rightarrow> string \<Rightarrow> string option" where
  "env_or c opt var =
     (case opt of
        Some v \<Rightarrow> Some v
      | None \<Rightarrow> (case ce_var c var of Some v \<Rightarrow> if v = [] then None else Some v | None \<Rightarrow> None))"

definition require_token :: "cli_env \<Rightarrow> string option \<Rightarrow> cli_error + string" where
  "require_token c opt =
     (case env_or c opt ''WT_TOKEN'' of
        Some t \<Rightarrow> Inr t
      | None \<Rightarrow> Inl (CliText (''no wt token '' @ dash @ '' pass --token or set WT_TOKEN'')))"

definition peer_selector :: "crates \<Rightarrow> string \<Rightarrow> PeerSelector" where
  "peer_selector c s = (case nodeid_from_str c s of Inr n \<Rightarrow> SelNodeId n | Inl _ \<Rightarrow> SelName s)"

definition parse_agent_kind :: "string \<Rightarrow> cli_error + AgentMsgKind" where
  "parse_agent_kind s =
     (if s = ''user'' then Inr User
      else if s = ''turn_input'' then Inr TurnInput
      else if s = ''turn_output'' then Inr TurnOutput
      else if s = ''control'' then Inr Control
      else if s = ''trace'' then Inr Trace
      else Inl (CliText (''unknown message kind '' @ apo @ s @ apo @ '' (user|turn_input|turn_output|control|trace)'')))"

definition agent_kind_str :: "AgentMsgKind \<Rightarrow> string" where
  "agent_kind_str k =
     (case k of TurnOutput \<Rightarrow> ''turn_output'' | TurnInput \<Rightarrow> ''turn_input'' | User \<Rightarrow> ''user'' | Control \<Rightarrow> ''control''
      | Trace \<Rightarrow> ''trace'')"

text \<open>\<open>split_at\<close> panics inside a character.\<close>

definition parse_duration :: "string \<Rightarrow> cli_error + u64" where
  "parse_duration str =
     (let s = trim str in
      if s = [] then Inl (CliText ''empty duration'')
      else if \<not> is_char_boundary s (length s - 1) then Inl CliPanic
      else
        (let num = take (length s - 1) s; u = drop (length s - 1) s in
         case parse_u64 num of
           None \<Rightarrow> Inl (CliText ''bad duration number'')
         | Some n \<Rightarrow>
             (let secs = (if u = ''s'' then Some (Some n)
                          else if u = ''m'' then Some (checked_mul n 60)
                          else if u = ''h'' then Some (checked_mul n 3600)
                          else if u = ''d'' then Some (checked_mul n 86400)
                          else None)
              in case secs of
                   None \<Rightarrow> Inl (CliText (''unknown duration unit: '' @ u))
                 | Some None \<Rightarrow> Inl (CliText ''duration is too large'')
                 | Some (Some v) \<Rightarrow> Inr v)))"

definition since_to_ms :: "u64 \<Rightarrow> string option \<Rightarrow> cli_error + u64 option" where
  "since_to_ms now since =
     (case since of
        None \<Rightarrow> Inr None
      | Some str \<Rightarrow>
          (case parse_duration str of
             Inl e \<Rightarrow> Inl e
           | Inr secs \<Rightarrow> Inr (Some (saturating_sub now (saturating_mul secs 1000)))))"

definition ago :: "u64 \<Rightarrow> u64 \<Rightarrow> string" where
  "ago now ms =
     (let delta = saturating_sub now ms in
      if delta < 1000 then ''now''
      else if delta < 60000 then show_nat (unat (delta div 1000)) @ ''s ago''
      else if delta < 3600000 then show_nat (unat (delta div 60000)) @ ''m ago''
      else show_nat (unat (delta div 3600000)) @ ''h ago'')"

definition resolve_fs_mode :: "cli_env \<Rightarrow> string \<Rightarrow> bool \<Rightarrow> bool \<Rightarrow> cli_error + FsMode" where
  "resolve_fs_mode c base worktree new =
     (if worktree \<and> new then Inl (CliText ''--worktree and --new are mutually exclusive'')
      else if worktree then Inr Worktree
      else if new then Inr New
      else Inr (if ce_git c base then Worktree else New))"

text \<open>\<open>{:<n}\<close>: pad to \<open>n\<close> characters on the right.\<close>

definition char_count :: "string \<Rightarrow> nat" where
  "char_count s = length (filter (\<lambda>b. \<not> utf8_cont b) (bytes_of s))"

definition pad :: "nat \<Rightarrow> string \<Rightarrow> string" where
  "pad n s = s @ replicate (n - char_count s) (CHR '' '')"

fun columns :: "(nat \<times> string) list \<Rightarrow> string \<Rightarrow> string" where
  "columns [] final = final"
| "columns ((n, s) # cs) final = pad n s @ '' '' @ columns cs final"

section \<open>Talking to the daemon\<close>

text \<open>The events a request is answered with, and the daemon after it.\<close>

definition request :: "cli_env \<Rightarrow> IpcRequest \<Rightarrow> ipc_state \<Rightarrow> IpcEvent list \<times> ipc_state" where
  "request c req s =
     (let s' = snd (serve (ce_daemon c) (ce_tails c) req (s\<lparr>cx_out := [], cx_room := None\<rparr>)) in (cx_out s', s'))"

text \<open>\<open>connect_daemon\<close>, \<open>request_one\<close>, and a reader of what comes back.\<close>

definition ask :: "cli_env \<Rightarrow> IpcRequest \<Rightarrow> (IpcEvent list \<Rightarrow> cli_end) \<Rightarrow> cli_run" where
  "ask c req reader s =
     (case ce_connect c of
        Some e \<Rightarrow> (([], Inl e), s)
      | None \<Rightarrow> (case request c req s of (evs, s') \<Rightarrow> (reader evs, s')))"

definition unexpected :: "IpcEvent list \<Rightarrow> cli_error" where
  "unexpected evs = (case evs of [] \<Rightarrow> CliReadEvent | EvErr e # _ \<Rightarrow> CliIpc e | ev # _ \<Rightarrow> CliUnexpected ev)"

definition expect_ok :: "IpcEvent list \<Rightarrow> cli_end" where
  "expect_ok evs = (case evs of EvOk # _ \<Rightarrow> ([], Inr ()) | _ \<Rightarrow> ([], Inl (unexpected evs)))"

text \<open>The loop of the listing commands.\<close>

fun read_items :: "(IpcEvent \<Rightarrow> string option) \<Rightarrow> (IpcEvent \<Rightarrow> bool) \<Rightarrow> IpcEvent list \<Rightarrow> cli_end" where
  "read_items item is_end [] = ([], Inl CliReadEvent)"
| "read_items item is_end (ev # evs) =
     (case item ev of
        Some line \<Rightarrow> (case read_items item is_end evs of (ls, r) \<Rightarrow> (line # ls, r))
      | None \<Rightarrow> if is_end ev then ([], Inr ()) else ([], Inl (unexpected (ev # evs))))"

definition listing :: "string \<Rightarrow> (IpcEvent \<Rightarrow> string option) \<Rightarrow> (IpcEvent \<Rightarrow> bool) \<Rightarrow> IpcEvent list \<Rightarrow> cli_end" where
  "listing header item is_end evs = (case read_items item is_end evs of (ls, r) \<Rightarrow> (header # ls, r))"

definition fail_cli :: "cli_error \<Rightarrow> cli_run" where
  "fail_cli e s = (([], Inl e), s)"

section \<open>Identity, peers and tokens\<close>

definition cmd_init :: "crates \<Rightarrow> host \<Rightarrow> bytes \<Rightarrow> fsys \<Rightarrow> db \<Rightarrow> cli_end \<times> fsys \<times> db" where
  "cmd_init c h rnd f file =
     (case load_or_create c h rnd f of
        (Inl e, f') \<Rightarrow> (([], Inl (CliIdentity e)), f', file)
      | (Inr secret, f') \<Rightarrow>
          if \<not> os_db_ok h then (([], Inl CliStore), f', file)
          else (([''initialized wt at '' @ home h, ''nodeid: '' @ nodeid_display c (identity_nodeid c secret)], Inr ()), f', open_at file))"

definition cmd_nodeid :: "cli_env \<Rightarrow> cli_run" where
  "cmd_nodeid c s =
     (let cr = en_crates (ce_daemon c) in
      if ce_connect c = None then
        ask c ReqNodeId (\<lambda>evs. case evs of
            EvNodeIdValue n # _ \<Rightarrow> ([nodeid_display cr n], Inr ())
          | _ \<Rightarrow> ([], Inl (unexpected evs))) s
      else (case identity_load (en_host (ce_daemon c)) (cx_fs s) of
              Inl e \<Rightarrow> (([], Inl (CliIdentity e)), s)
            | Inr secret \<Rightarrow> (([nodeid_display cr (identity_nodeid cr secret)], Inr ()), s)))"

definition cmd_status :: "cli_env \<Rightarrow> cli_run" where
  "cmd_status c = ask c ReqStatus (\<lambda>evs. case evs of
       EvStatusInfo n version bound # _ \<Rightarrow>
         ([''nodeid: '' @ nodeid_display (en_crates (ce_daemon c)) n, ''version: '' @ version,
           ''endpoint_bound: '' @ (if bound then ''true'' else ''false'')], Inr ())
     | _ \<Rightarrow> ([], Inl (unexpected evs)))"

text \<open>The two forms \<open>wt peer add\<close> accepts.\<close>

definition peer_address :: "crates \<Rightarrow> string \<Rightarrow> cli_error + (NodeId \<times> bytes option)" where
  "peer_address c id_or_ticket =
     (let trimmed = trim id_or_ticket in
      if starts_with trimmed TICKET_PREFIX then
        (case ticket_decode c trimmed of
           Inl e \<Rightarrow> Inl (CliTicket e)
         | Inr t \<Rightarrow> (case ticket_enc c t of None \<Rightarrow> Inl CliCbor | Some buf \<Rightarrow> Inr (tk_nodeid t, Some buf)))
      else (case nodeid_from_str c trimmed of Inl e \<Rightarrow> Inl (CliNodeId e) | Inr n \<Rightarrow> Inr (n, None)))"

definition cmd_peer_add :: "cli_env \<Rightarrow> string \<Rightarrow> string \<Rightarrow> cli_run" where
  "cmd_peer_add c id_or_ticket name =
     (case peer_address (en_crates (ce_daemon c)) id_or_ticket of
        Inl e \<Rightarrow> fail_cli e
      | Inr (n, blob) \<Rightarrow> ask c (ReqPeerAdd n name blob) expect_ok)"

definition cmd_ticket :: "cli_env \<Rightarrow> cli_run" where
  "cmd_ticket c = ask c ReqTicket (\<lambda>evs. case evs of
       EvTicketValue t # _ \<Rightarrow> ([t], Inr ())
     | _ \<Rightarrow> ([], Inl (unexpected evs)))"

definition cmd_peer_rm :: "cli_env \<Rightarrow> string \<Rightarrow> cli_run" where
  "cmd_peer_rm c peer = ask c (ReqPeerRm (peer_selector (en_crates (ce_daemon c)) peer)) expect_ok"

definition peer_line :: "crates \<Rightarrow> u64 \<Rightarrow> PeerInfo \<Rightarrow> string" where
  "peer_line c now p = columns
     [(12, pi_name p), (66, nodeid_display c (pi_nodeid p)),
      (8, case pi_source p of Manual \<Rightarrow> ''manual'' | Mdns \<Rightarrow> ''mdns''),
      (12, case pi_state p of
             Connected n \<Rightarrow> ''connected('' @ show_nat (unat n) @ '')''
           | Idle \<Rightarrow> ''idle'' | Offline \<Rightarrow> ''offline'')]
     (case pi_last_seen_ms p of Some ms \<Rightarrow> ago now ms | None \<Rightarrow> dash)"

definition cmd_ls :: "cli_env \<Rightarrow> PeerFilter \<Rightarrow> cli_run" where
  "cmd_ls c f = ask c (ReqPeerList f)
     (listing (columns [(12, ''NAME''), (66, ''NODEID''), (8, ''SOURCE''), (12, ''STATE'')] ''LAST SEEN'')
        (\<lambda>ev. case ev of EvPeerListItem p \<Rightarrow> Some (peer_line (en_crates (ce_daemon c)) (ce_now c) p) | _ \<Rightarrow> None)
        (\<lambda>ev. ev = EvPeerListEnd))"

fun join_comma :: "string list \<Rightarrow> string" where
  "join_comma [] = []"
| "join_comma [x] = x"
| "join_comma (x # xs) = x @ '','' @ join_comma xs"

definition conn_line :: "crates \<Rightarrow> u64 \<Rightarrow> ConnInfo \<Rightarrow> string" where
  "conn_line c now i = columns
     [(12, ci_peer_name i), (66, nodeid_display c (ci_nodeid i)), (10, ago now (ci_since_ms i)), (24, join_comma (ci_streams i))]
     (if ci_via_relay i then ''relay'' else ''direct'')"

definition cmd_conn :: "cli_env \<Rightarrow> cli_run" where
  "cmd_conn c = ask c ReqConnList
     (listing (columns [(12, ''PEER''), (66, ''NODEID''), (10, ''SINCE''), (24, ''STREAMS'')] ''VIA'')
        (\<lambda>ev. case ev of EvConnListItem i \<Rightarrow> Some (conn_line (en_crates (ce_daemon c)) (ce_now c) i) | _ \<Rightarrow> None)
        (\<lambda>ev. ev = EvConnListEnd))"

fun parse_caps :: "string list \<Rightarrow> cli_error + Cap list" where
  "parse_caps [] = Inr []"
| "parse_caps (x # xs) =
     (case cap_from_str x of
        Inl msg \<Rightarrow> Inl (CliText msg)
      | Inr k \<Rightarrow> (case parse_caps xs of Inl e \<Rightarrow> Inl e | Inr ks \<Rightarrow> Inr (k # ks)))"

definition parse_ttl :: "string option \<Rightarrow> cli_error + u64 option" where
  "parse_ttl ttl =
     (case ttl of None \<Rightarrow> Inr None | Some t \<Rightarrow> (case parse_duration t of Inl e \<Rightarrow> Inl e | Inr n \<Rightarrow> Inr (Some n)))"

definition cmd_token_grant :: "cli_env \<Rightarrow> string \<Rightarrow> string list \<Rightarrow> string option \<Rightarrow> cli_run" where
  "cmd_token_grant c peer cs ttl =
     (let cr = en_crates (ce_daemon c) in
      case parse_caps cs of
        Inl e \<Rightarrow> fail_cli e
      | Inr ks \<Rightarrow>
          (case parse_ttl ttl of
             Inl e \<Rightarrow> fail_cli e
           | Inr ttl_secs \<Rightarrow>
               ask c (ReqTokenGrant (peer_selector cr peer) ks ttl_secs) (\<lambda>evs. case evs of
                   EvTokenIssued raw _ # _ \<Rightarrow>
                     (case signed_dec cr raw of
                        None \<Rightarrow> ([], Inl CliCbor)
                      | Some st \<Rightarrow> (case token_encode_base32 cr st of Inl _ \<Rightarrow> ([], Inl CliCbor) | Inr b \<Rightarrow> ([b], Inr ())))
                 | _ \<Rightarrow> ([], Inl (unexpected evs)))))"

definition cmd_token_import :: "cli_env \<Rightarrow> string \<Rightarrow> cli_run" where
  "cmd_token_import c token =
     (let cr = en_crates (ce_daemon c) in
      case token_decode_base32 cr token of
        Inl e \<Rightarrow> fail_cli (CliToken e)
      | Inr st \<Rightarrow>
          (case signed_enc cr st of
             None \<Rightarrow> fail_cli CliCbor
           | Some raw \<Rightarrow>
               ask c (ReqTokenImport raw) (\<lambda>evs. case evs of
                   [] \<Rightarrow> ([], Inl CliReadEvent)
                 | EvErr e # _ \<Rightarrow> ([], Inl (CliIpc e))
                 | _ # rest \<Rightarrow> expect_ok rest)))"

definition token_line :: "crates \<Rightarrow> TokenInfo \<Rightarrow> string" where
  "token_line c t = columns
     [(34, hex_encode c (ti_id t)), (66, nodeid_display c (ti_iss t)), (66, nodeid_display c (ti_sub t)),
      (12, if ti_revoked t then ''REVOKED'' else show_nat (unat (ti_exp t)))]
     (join_comma (map cap_display (ti_caps t)))"

definition cmd_token_list :: "cli_env \<Rightarrow> cli_run" where
  "cmd_token_list c = ask c ReqTokenList
     (listing (columns [(34, ''ID''), (66, ''ISS''), (66, ''SUB''), (12, ''EXP'')] ''CAPS'')
        (\<lambda>ev. case ev of EvTokenListItem t \<Rightarrow> Some (token_line (en_crates (ce_daemon c)) t) | _ \<Rightarrow> None)
        (\<lambda>ev. ev = EvTokenListEnd))"

definition cmd_token_revoke :: "cli_env \<Rightarrow> string \<Rightarrow> cli_run" where
  "cmd_token_revoke c id_hex =
     (case hex_decode (en_crates (ce_daemon c)) id_hex of
        None \<Rightarrow> fail_cli (CliText ''token id is not hex'')
      | Some bs \<Rightarrow>
          if length bs \<noteq> 16 then fail_cli (CliText ''token id must be 16 bytes (32 hex chars)'')
          else ask c (ReqTokenRevoke bs) expect_ok)"

section \<open>Messages between peers\<close>

definition cmd_send :: "cli_env \<Rightarrow> string \<Rightarrow> string \<Rightarrow> bytes \<Rightarrow> cli_run" where
  "cmd_send c peer channel payload = ask c (ReqSend (peer_selector (en_crates (ce_daemon c)) peer) channel payload) expect_ok"

text \<open>A payload that is JSON is shown as such, any other as text.\<close>

definition payload_json :: "json_crate \<Rightarrow> bytes \<Rightarrow> json" where
  "payload_json j payload =
     (case (if valid_utf8 payload then hx_parse j (string_of payload) else None) of
        Some v \<Rightarrow> v
      | None \<Rightarrow> JString (from_utf8_lossy payload))"

definition ts_json :: "u64 \<Rightarrow> json" where
  "ts_json ts = JNumber (show_nat (unat ts))"

definition recv_json :: "crates \<Rightarrow> json_crate \<Rightarrow> NodeId \<Rightarrow> string option \<Rightarrow> string \<Rightarrow> bytes \<Rightarrow> u64 \<Rightarrow> json" where
  "recv_json c j from from_name channel payload ts = JObject
     [(''from'', JString (case from_name of Some n \<Rightarrow> n | None \<Rightarrow> nodeid_display c from)), (''channel'', JString channel),
      (''ts_ms'', ts_json ts), (''payload'', payload_json j payload)]"

text \<open>One line per message until the end of the backlog, or for ever when following.\<close>

fun print_stream :: "json_crate \<Rightarrow> (IpcEvent \<Rightarrow> json option) \<Rightarrow> IpcEvent \<Rightarrow> bool \<Rightarrow> IpcEvent list \<Rightarrow> cli_end" where
  "print_stream j item backlog_end follow [] = ([], Inl CliReadEvent)"
| "print_stream j item backlog_end follow (ev # evs) =
     (case item ev of
        Some v \<Rightarrow>
          (case hx_print j v of
             None \<Rightarrow> ([], Inl CliJson)
           | Some line \<Rightarrow> (case print_stream j item backlog_end follow evs of (ls, r) \<Rightarrow> (string_of line # ls, r)))
      | None \<Rightarrow>
          if ev = backlog_end then (if follow then print_stream j item backlog_end follow evs else ([], Inr ()))
          else ([], Inl (unexpected (ev # evs))))"

definition recv_item :: "crates \<Rightarrow> json_crate \<Rightarrow> IpcEvent \<Rightarrow> json option" where
  "recv_item c j ev =
     (case ev of EvRecvMsg from from_name channel payload ts \<Rightarrow> Some (recv_json c j from from_name channel payload ts) | _ \<Rightarrow> None)"

definition cmd_recv :: "cli_env \<Rightarrow> string option \<Rightarrow> string option \<Rightarrow> bool \<Rightarrow> string option \<Rightarrow> cli_run" where
  "cmd_recv c from channel follow since =
     (let e = ce_daemon c in
      case since_to_ms (ce_now c) since of
        Inl err \<Rightarrow> fail_cli err
      | Inr since_ms \<Rightarrow>
          ask c (ReqRecvSubscribe (map_option (peer_selector (en_crates e)) from) channel since_ms follow)
            (print_stream (en_json e) (recv_item (en_crates e) (en_json e)) EvRecvBacklogEnd follow))"

section \<open>Chat\<close>

text \<open>The receiving task: a line per message until anything else comes.\<close>

fun chat_recv :: "crates \<Rightarrow> IpcEvent list \<Rightarrow> string list" where
  "chat_recv c (EvRecvMsg from from_name channel payload ts # evs) =
     (''['' @ (case from_name of Some n \<Rightarrow> n | None \<Rightarrow> nodeid_display c from) @ ''] '' @ from_utf8_lossy payload) # chat_recv c evs"
| "chat_recv c _ = []"

definition trim_newlines :: "string \<Rightarrow> string" where
  "trim_newlines l = rev (dropWhile (\<lambda>ch. ch = CHR 0x0A) (rev l))"

fun chat_send :: "cli_env \<Rightarrow> PeerSelector \<Rightarrow> string \<Rightarrow> string list \<Rightarrow> ipc_state \<Rightarrow> (cli_error + unit) \<times> ipc_state" where
  "chat_send c sel channel [] s = (Inr (), s)"
| "chat_send c sel channel (l # ls) s =
     (case request c (ReqSend sel channel (bytes_of (trim_newlines l))) s of
        ([], s') \<Rightarrow> (Inl CliReadEvent, s')
      | (_ # _, s') \<Rightarrow> chat_send c sel channel ls s')"

definition cmd_chat :: "cli_env \<Rightarrow> string \<Rightarrow> string \<Rightarrow> cli_run" where
  "cmd_chat c peer channel s =
     (let cr = en_crates (ce_daemon c); sel = peer_selector cr peer in
      case ce_connect c of
        Some e \<Rightarrow> (([], Inl e), s)
      | None \<Rightarrow>
          (case request c (ReqRecvSubscribe (Some sel) (Some channel) (Some (ce_now c)) True) s of
             (evs, s1) \<Rightarrow> (case chat_send c sel channel (ce_lines c) s1 of (r, s2) \<Rightarrow> ((chat_recv cr evs, r), s2))))"

section \<open>Groups, sessions and agents\<close>

definition coordinator_goal :: string where
  "coordinator_goal = ''No task has been given yet. Briefly introduce yourself in one line as the prime '' @
     ''coordinator and ask the user what they would like to build, then wait for their instruction.''"

definition coordinator_request :: "string \<Rightarrow> string \<Rightarrow> string \<Rightarrow> FsMode \<Rightarrow> IpcRequest" where
  "coordinator_request token name cwd mode = ReqSpawn
     \<lparr>sp_token = token, sp_group = name, sp_session = ''coordinator'', sp_base_dir = cwd, sp_fs_mode = mode, sp_branch = None,
      sp_label = None, sp_prompt = coordinator_goal, sp_harness_argv = None, sp_idle_timeout_secs = None,
      sp_permission_mode = None, sp_skip_permissions = False, sp_trace = False, sp_coordinator = True\<rparr>"

text \<open>Both requests go over one connection; a coordinator that does not start is only a warning.\<close>

definition cmd_group_new :: "cli_env \<Rightarrow> string \<Rightarrow> cli_run" where
  "cmd_group_new c name s =
     (case ce_connect c of
        Some e \<Rightarrow> (([], Inl e), s)
      | None \<Rightarrow>
          (case request c (ReqGroupNew name) s of
             (EvGroupCreated _ token # _, s1) \<Rightarrow>
               (let cwd = (case ce_cwd c of Some d \<Rightarrow> d | None \<Rightarrow> ''.'') in
                case resolve_fs_mode c cwd False False of
                  Inl e \<Rightarrow> (([], Inl e), s1)
                | Inr mode \<Rightarrow>
                    (case request c (coordinator_request token name cwd mode) s1 of
                       (EvSpawned _ _ _ _ # _, s2) \<Rightarrow> (([token], Inr ()), s2)
                     | (EvErr _ # _, s2) \<Rightarrow> (([token], Inr ()), s2)
                     | (evs, s2) \<Rightarrow> (([], Inl (unexpected evs)), s2)))
           | (evs, s1) \<Rightarrow> (([], Inl (unexpected evs)), s1)))"

definition cmd_group_ls :: "cli_env \<Rightarrow> cli_run" where
  "cmd_group_ls c = ask c ReqGroupList
     (listing (columns [(20, ''GROUP''), (10, ''SESSIONS'')] ''CREATED'')
        (\<lambda>ev. case ev of
            EvGroupListItem g \<Rightarrow>
              Some (columns [(20, gi_name g), (10, show_nat (unat (gi_session_count g)))] (ago (ce_now c) (gi_created_at_ms g)))
          | _ \<Rightarrow> None)
        (\<lambda>ev. ev = EvGroupListEnd))"

definition cmd_session_ls :: "cli_env \<Rightarrow> string \<Rightarrow> cli_run" where
  "cmd_session_ls c grp = ask c (ReqSessionList grp)
     (listing (columns [(14, ''SESSION''), (14, ''CHILD''), (10, ''FS''), (14, ''STATUS'')] ''WORKSPACE'')
        (\<lambda>ev. case ev of
            EvSessionListItem i \<Rightarrow>
              Some (columns [(14, si_name i), (14, si_child_agent i), (10, fs_mode_str (si_fs_mode i)),
                             (14, case si_child_status i of Some st \<Rightarrow> st | None \<Rightarrow> si_status i)] (si_workspace_path i))
          | _ \<Rightarrow> None)
        (\<lambda>ev. ev = EvSessionListEnd))"

definition cmd_agent_ls :: "cli_env \<Rightarrow> string option \<Rightarrow> string option \<Rightarrow> cli_run" where
  "cmd_agent_ls c grp session = ask c (ReqAgentList grp session)
     (listing (columns [(14, ''AGENT''), (12, ''GROUP''), (8, ''ROLE''), (14, ''STATUS'')] ''PID/DIR'')
        (\<lambda>ev. case ev of
            EvAgentListItem a \<Rightarrow>
              Some (columns [(14, ai_name a), (12, ai_group a), (8, ai_role a), (14, ai_status a)]
                (case ai_pid a of
                   Some p \<Rightarrow> ''pid '' @ show_int p
                 | None \<Rightarrow> (case ai_dir a of Some d \<Rightarrow> d | None \<Rightarrow> [])))
          | _ \<Rightarrow> None)
        (\<lambda>ev. ev = EvAgentListEnd))"

definition cmd_whoami :: "cli_env \<Rightarrow> string \<Rightarrow> cli_run" where
  "cmd_whoami c token = ask c (ReqWhoAmI token) (\<lambda>evs. case evs of
       EvWhoAmIInfo i # _ \<Rightarrow>
         ([''group:   '' @ wi_group i, ''agent:   '' @ wi_agent i, ''role:    '' @ wi_role i,
           ''session: '' @ (case wi_session i of Some sn \<Rightarrow> sn | None \<Rightarrow> dash)], Inr ())
     | _ \<Rightarrow> ([], Inl (unexpected evs)))"

definition cmd_agent_send :: "cli_env \<Rightarrow> string \<Rightarrow> string \<Rightarrow> AgentMsgKind \<Rightarrow> bytes \<Rightarrow> cli_run" where
  "cmd_agent_send c token session kind payload = ask c (ReqAgentSend token session kind payload) expect_ok"

definition agent_item :: "json_crate \<Rightarrow> IpcEvent \<Rightarrow> json option" where
  "agent_item j ev =
     (case ev of
        EvAgentMsg session from_agent kind payload ts \<Rightarrow>
          Some (JObject [(''session'', JString session), (''from'', JString from_agent), (''kind'', JString (agent_kind_str kind)),
                         (''ts_ms'', ts_json ts), (''payload'', payload_json j payload)])
      | _ \<Rightarrow> None)"

definition cmd_agent_recv :: "cli_env \<Rightarrow> string \<Rightarrow> string option \<Rightarrow> u64 option \<Rightarrow> bool \<Rightarrow> bool \<Rightarrow> cli_run" where
  "cmd_agent_recv c token session since_ms follow consume =
     (let j = en_json (ce_daemon c) in
      ask c (ReqAgentRecv token session since_ms follow consume) (print_stream j (agent_item j) EvAgentBacklogEnd follow))"

definition spawn_request :: "cli_env \<Rightarrow> SpawnOpts \<Rightarrow> cli_error + SpawnReq" where
  "spawn_request c o' =
     (case env_or c (so_group o') ''WT_GROUP'' of
        None \<Rightarrow> Inl (CliText ''--group or WT_GROUP required for spawn'')
      | Some grp \<Rightarrow>
          (case require_token c (so_tok o') of
             Inl e \<Rightarrow> Inl e
           | Inr token \<Rightarrow>
               (case resolve_fs_mode c (so_dir o') (so_worktree o') (so_new o') of
                  Inl e \<Rightarrow> Inl e
                | Inr mode \<Rightarrow>
                    (case parse_ttl (so_idle_timeout o') of
                       Inl e \<Rightarrow> Inl e
                     | Inr idle \<Rightarrow>
                         Inr \<lparr>sp_token = token, sp_group = grp, sp_session = so_session o', sp_base_dir = so_dir o',
                              sp_fs_mode = mode, sp_branch = None, sp_label = None,
                              sp_prompt = (case so_prompt o' of Some p \<Rightarrow> p | None \<Rightarrow> []), sp_harness_argv = None,
                              sp_idle_timeout_secs = idle,
                              sp_permission_mode = (if so_plan o' \<and> so_permission_mode o' = None then Some ''plan''
                                                    else so_permission_mode o'),
                              sp_skip_permissions = so_skip_permissions o', sp_trace = so_trace o',
                              sp_coordinator = so_coordinator o'\<rparr>))))"

definition cmd_spawn :: "cli_env \<Rightarrow> SpawnOpts \<Rightarrow> cli_run" where
  "cmd_spawn c o' =
     (case spawn_request c o' of
        Inl e \<Rightarrow> fail_cli e
      | Inr r \<Rightarrow>
          ask c (ReqSpawn r) (\<lambda>evs. case evs of
              EvSpawned grp session token ws # _ \<Rightarrow>
                ([case hx_print (en_json (ce_daemon c)) (JObject [(''group'', JString grp), (''session'', JString session),
                     (''workspace'', JString ws), (''token'', JString token)]) of Some b \<Rightarrow> string_of b | None \<Rightarrow> []], Inr ())
            | _ \<Rightarrow> ([], Inl (unexpected evs))))"

definition cmd_agent_kill :: "cli_env \<Rightarrow> string \<Rightarrow> string \<Rightarrow> cli_run" where
  "cmd_agent_kill c name token = ask c (ReqAgentKill token name) expect_ok"

definition cmd_session_close :: "cli_env \<Rightarrow> string \<Rightarrow> bool \<Rightarrow> string \<Rightarrow> cli_run" where
  "cmd_session_close c name discard token = ask c (ReqSessionClose token name discard) expect_ok"

section \<open>Running a command\<close>

definition ls_filter :: "LsOpts \<Rightarrow> PeerFilter" where
  "ls_filter o' =
     (if ls_connected o' then FilterConnected
      else if ls_remote o' then FilterRemote
      else if ls_local o' then FilterLocal
      else FilterAll)"

definition or_stdin :: "cli_env \<Rightarrow> string option \<Rightarrow> (bytes \<Rightarrow> cli_run) \<Rightarrow> cli_run" where
  "or_stdin c msg k =
     (case msg of
        Some m \<Rightarrow> k (bytes_of m)
      | None \<Rightarrow> (case ce_stdin c of Some b \<Rightarrow> k b | None \<Rightarrow> fail_cli CliStdin))"

definition run_send :: "cli_env \<Rightarrow> SendOpts \<Rightarrow> cli_run" where
  "run_send c o' =
     (case (env_or c (sd_session o') ''WT_SESSION'', env_or c (sd_token o') ''WT_TOKEN'') of
        (Some session, Some token) \<Rightarrow>
          or_stdin c (case sd_message o' of Some m \<Rightarrow> Some m | None \<Rightarrow> sd_peer o') (\<lambda>body.
            case parse_agent_kind (sd_kind o') of
              Inl e \<Rightarrow> fail_cli e
            | Inr kind \<Rightarrow> cmd_agent_send c token session kind body)
      | _ \<Rightarrow>
          (case sd_peer o' of
             None \<Rightarrow> fail_cli (CliText ''peer required (or use --session + WT_TOKEN for the agent bus)'')
           | Some peer \<Rightarrow>
               or_stdin c (sd_message o') (\<lambda>payload.
                 cmd_send c peer (case sd_channel o' of Some ch \<Rightarrow> ch | None \<Rightarrow> ''default'') payload)))"

definition run_recv :: "cli_env \<Rightarrow> RecvOpts \<Rightarrow> cli_run" where
  "run_recv c o' =
     (case env_or c (rc_token o') ''WT_TOKEN'' of
        Some token \<Rightarrow>
          (let consume = (\<not> rc_all o' \<and> rc_since o' = None) in
           case (if consume then Inr None else since_to_ms (ce_now c) (rc_since o')) of
             Inl e \<Rightarrow> fail_cli e
           | Inr since_ms \<Rightarrow>
               cmd_agent_recv c token (env_or c (rc_session o') ''WT_SESSION'') since_ms (rc_follow o') consume)
      | None \<Rightarrow> cmd_recv c (rc_from o') (rc_channel o') (rc_follow o') (rc_since o'))"

definition with_token :: "cli_env \<Rightarrow> string option \<Rightarrow> (string \<Rightarrow> cli_run) \<Rightarrow> cli_run" where
  "with_token c opt k = (case require_token c opt of Inl e \<Rightarrow> fail_cli e | Inr t \<Rightarrow> k t)"

definition run_cmd :: "cli_env \<Rightarrow> Cmd \<Rightarrow> cli_run" where
  "run_cmd c cmd =
     (case cmd of
        CmdNodeid \<Rightarrow> cmd_nodeid c
      | CmdTicket \<Rightarrow> cmd_ticket c
      | CmdStatus \<Rightarrow> cmd_status c
      | CmdPeer (PeerAdd a name) \<Rightarrow> cmd_peer_add c a name
      | CmdPeer (PeerRm peer) \<Rightarrow> cmd_peer_rm c peer
      | CmdPeer PeerList \<Rightarrow> cmd_ls c FilterAll
      | CmdLs o' \<Rightarrow> (case ls_group o' of Some grp \<Rightarrow> cmd_session_ls c grp | None \<Rightarrow> cmd_ls c (ls_filter o'))
      | CmdConn \<Rightarrow> cmd_conn c
      | CmdToken (TokenGrant peer cs ttl) \<Rightarrow> cmd_token_grant c peer cs ttl
      | CmdToken (TokenImport token) \<Rightarrow> cmd_token_import c token
      | CmdToken TokenList \<Rightarrow> cmd_token_list c
      | CmdToken (TokenRevoke i) \<Rightarrow> cmd_token_revoke c i
      | CmdSend o' \<Rightarrow> run_send c o'
      | CmdRecv o' \<Rightarrow> run_recv c o'
      | CmdChat peer channel \<Rightarrow> cmd_chat c peer channel
      | CmdExec \<Rightarrow> fail_cli CliNotImplemented
      | CmdShell \<Rightarrow> fail_cli CliNotImplemented
      | CmdGroup (GroupNew name) \<Rightarrow> cmd_group_new c name
      | CmdGroup GroupLs \<Rightarrow> cmd_group_ls c
      | CmdAgent (AgentLs grp session) \<Rightarrow> cmd_agent_ls c (env_or c grp ''WT_GROUP'') session
      | CmdAgent (AgentKill name token) \<Rightarrow> with_token c token (cmd_agent_kill c name)
      | CmdWhoami token \<Rightarrow> with_token c token (cmd_whoami c)
      | CmdSpawn o' \<Rightarrow> cmd_spawn c o'
      | CmdSession (SessionClose name discard token) \<Rightarrow> with_token c token (cmd_session_close c name discard))"

section \<open>Lemmas: durations\<close>

text \<open>A string of digits and a one-letter unit, surrounded by blanks, is taken apart as written.\<close>

lemma parse_duration_parts:
  assumes "list_all ascii_blank w1" "list_all ascii_blank w2" "list_all graphic num" "graphic u"
  shows "parse_duration (w1 @ (num @ [u]) @ w2) =
     (case parse_u64 num of
        None \<Rightarrow> Inl (CliText ''bad duration number'')
      | Some n \<Rightarrow>
          (case (if [u] = ''s'' then Some (Some n) else if [u] = ''m'' then Some (checked_mul n 60)
                 else if [u] = ''h'' then Some (checked_mul n 3600) else if [u] = ''d'' then Some (checked_mul n 86400) else None) of
             None \<Rightarrow> Inl (CliText (''unknown duration unit: '' @ [u]))
           | Some None \<Rightarrow> Inl (CliText ''duration is too large'')
           | Some (Some v) \<Rightarrow> Inr v))"
proof -
  have "trim (w1 @ (num @ [u]) @ w2) = num @ [u]" using assms by (intro trim_pad) auto
  moreover have "\<not> utf8_cont (of_char u)" using assms(4) by (auto simp: graphic_def in_range8_def utf8_cont_def word_le_nat_alt)
  ultimately show ?thesis
    by (cases "parse_u64 num") (simp_all add: parse_duration_def Let_def is_char_boundary_def)
qed

lemma checked_mul_nat:
  assumes "n < 2 ^ 64" "m < 2 ^ 64"
  shows "checked_mul (of_nat n) (of_nat m) = (if n * m < 2 ^ 64 then Some (of_nat (n * m)) else None)"
proof -
  have "uint (of_nat n :: u64) = int n" "uint (of_nat m :: u64) = int m" using assms by (simp_all add: uint_nat unat_of_nat)
  moreover have "int n * int m \<le> 18446744073709551615 \<longleftrightarrow> n * m < 2 ^ 64" by (simp flip: of_nat_mult) linarith
  ultimately show ?thesis by (simp add: checked_mul_def)
qed

text \<open>A last character of more than one byte makes \<open>split_at\<close> panic.\<close>

lemma parse_duration_panics: "parse_duration (''5'' @ [CHR 0xC3, CHR 0xA9]) = Inl CliPanic"
  by code_simp

section \<open>Lemmas: subscriptions\<close>

lemma write_events_room: "cx_room s = None \<Longrightarrow> write_events evs s = (Inr (), s\<lparr>cx_out := cx_out s @ evs\<rparr>)"
proof (induction evs arbitrary: s)
  case Nil
  then show ?case by simp
next
  case (Cons ev evs)
  then show ?case by (simp add: and_then_def write_event_reply reply_def)
qed

fun live_items :: "'a rx list \<Rightarrow> 'a list" where
  "live_items [] = []"
| "live_items (RxItem x # xs) = x # live_items xs"
| "live_items (RxLagged # xs) = live_items xs"

lemma recv_tail_room:
  "cx_room s = None \<Longrightarrow> recv_tail wp wc live s = (Inr (), s\<lparr>cx_out := cx_out s @ filter (recv_pass wp wc) (live_items live)\<rparr>)"
proof (induction wp wc live s rule: recv_tail.induct)
  case (3 wp wc ev evs s)
  then show ?case by (simp add: and_then_def write_event_reply reply_def)
qed simp_all

definition backlog :: "env \<Rightarrow> PeerSelector option \<Rightarrow> string option \<Rightarrow> u64 option \<Rightarrow> ipc_state \<Rightarrow> MessageRow list" where
  "backlog e sel channel since s =
     (case fst (inbox_backlog (w_msg_plan (en_world e)) (recv_want sel s) channel since 10000 (dm_db s)) of
        Inr rows \<Rightarrow> rows | Inl _ \<Rightarrow> [])"

lemma inbox_backlog_ok:
  assumes "db_inv d" "is_plan plan"
  shows "inbox_backlog plan peer channel since limit d = (Inr (map as_message (sql_limit (int limit) (sql_order_by m_enqueued_at_ms
        (plan (filter (\<lambda>r. m_direction r = 1 \<and> null_or_eq (map_option nid peer) (m_peer r) \<and> null_or_eq channel (m_channel r)
             \<and> m_enqueued_at_ms r > (case since of Some v \<Rightarrow> as_i64 v | None \<Rightarrow> 0)) (db_messages d)))))), d)"
proof -
  let ?rows = "sql_limit (int limit) (sql_order_by m_enqueued_at_ms
        (plan (filter (\<lambda>r. m_direction r = 1 \<and> null_or_eq (map_option nid peer) (m_peer r) \<and> null_or_eq channel (m_channel r)
             \<and> m_enqueued_at_ms r > (case since of Some v \<Rightarrow> as_i64 v | None \<Rightarrow> 0)) (db_messages d))))"
  have "set ?rows \<subseteq> set (db_messages d)"
    by (auto simp: sql_limit_def sql_order_by_def is_plan_set [OF assms(2)] dest!: in_set_takeD)
  then have "row_to_message r = Inr (as_message r)" if "r \<in> set ?rows" for r
    using that db_invD(7) [OF assms(1)] by (intro row_to_message_as) (auto simp: list_all_iff)
  then have "collect_ok (map row_to_message ?rows) = Inr (map as_message ?rows)" by (rule collect_ok_map_Inr)
  then show ?thesis using db_invD(1) [OF assms(1)] by (simp add: inbox_backlog_def call_ok Let_def)
qed

lemma subscription_events:
  assumes "db_inv (dm_db s)" "is_plan (w_msg_plan (en_world (ce_daemon c)))"
  shows "fst (request c (ReqRecvSubscribe sel channel since follow) s)
     = map (\<lambda>row. recv_backlog_event row s) (backlog (ce_daemon c) sel channel since s) @
       EvRecvBacklogEnd # (if follow then filter (recv_pass (recv_want sel s) channel) (live_items (tl_recv (ce_tails c))) else [])"
proof -
  let ?t = "s\<lparr>cx_out := [], cx_room := None\<rparr>"
  have w: "recv_want sel ?t = recv_want sel s" by (simp add: recv_want_def split: option.splits PeerSelector.splits)
  have ev: "recv_backlog_event row ?t = recv_backlog_event row s" for row by (simp add: recv_backlog_event_def)
  have b: "inbox_backlog (w_msg_plan (en_world (ce_daemon c))) (recv_want sel s) channel since 10000 (dm_db s)
      = (Inr (backlog (ce_daemon c) sel channel since s), dm_db s)"
    using inbox_backlog_ok [OF assms] by (simp add: backlog_def)
  have q: "on_db (inbox_backlog (w_msg_plan (en_world (ce_daemon c))) (recv_want sel s) channel since 10000) ?t
      = (Inr (backlog (ce_daemon c) sel channel since s), ?t)"
    by (simp add: on_db_def b)
  show ?thesis
    by (simp add: request_def serve_def dispatch_def ipc_recv_subscribe_def Let_def w and_then_def q ev write_events_room
        write_event_reply reply_def recv_tail_room)
qed

lemma print_stream_backlog:
  assumes "\<And>v. hx_print j v \<noteq> None" "list_all (\<lambda>ev. item ev \<noteq> None) evs" "item fin = None"
  shows "print_stream j item fin False (evs @ fin # rest) = (map (\<lambda>ev. string_of (the (hx_print j (the (item ev))))) evs, Inr ())"
  using assms(2)
proof (induction evs)
  case (Cons ev evs)
  then obtain v where v: "item ev = Some v" by auto
  moreover obtain line where "hx_print j v = Some line" using assms(1) by blast
  ultimately show ?case using Cons by simp
qed (simp add: assms(3))

lemma chat_recv_marker: "chat_recv c (EvRecvBacklogEnd # evs) = []"
  by simp

section \<open>Properties\<close>

text \<open>
  Durations.  A decimal number with one of the units \<open>s\<close>, \<open>m\<close>, \<open>h\<close> and \<open>d\<close>, with or without blanks
  around it, is read as that many seconds whenever they fit in 64 bits and refused as too large, never
  wrapped, when they do not; any other printable unit is refused by name.
\<close>

lemma duration_seconds:
  assumes "list_all ascii_blank w1" and "list_all ascii_blank w2" and "n < 2 ^ 64" and "graphic u"
  shows "parse_duration (w1 @ (show_nat n @ [u]) @ w2) =
     (case map_of [(CHR ''s'', 1), (CHR ''m'', 60), (CHR ''h'', 3600), (CHR ''d'', 86400)] u of
        None \<Rightarrow> Inl (CliText (''unknown duration unit: '' @ [u]))
      | Some m \<Rightarrow> if n * m < 2 ^ 64 then Inr (of_nat (n * m)) else Inl (CliText ''duration is too large''))"
  using parse_duration_parts [OF assms(1,2) show_nat_graphic assms(4), of n] assms(3)
    checked_mul_nat [of n 60] checked_mul_nat [of n 3600] checked_mul_nat [of n 86400]
  by (simp add: parse_u64_show_nat)


text \<open>A client of the sample daemon to whom a message of its peer is broadcast while it waits.\<close>

definition sample_cli :: cli_env where
  "sample_cli = \<lparr>ce_daemon = sample_env,
     ce_tails = \<lparr>tl_recv = [RxItem (EvRecvMsg (sample_node 2) None ''default'' [0x68, 0x69] 9)], tl_agent = []\<rparr>,
     ce_connect = None, ce_var = (\<lambda>v. None), ce_git = (\<lambda>d. False), ce_cwd = None, ce_stdin = None, ce_lines = [],
     ce_now = 5\<rparr>"


end
