(* ===== verification/Wt_Serve.thy ===== *)
theory Wt_Serve
  imports Wt_Process
begin

text \<open>
  The loops of the daemon as runs of its tasks.  The accept loops of
  \<^verbatim>\<open>src/crates/wt-daemon/src/state.rs\<close> and \<^verbatim>\<open>src/crates/wt-daemon/src/ipc.rs\<close> start a task per connection;
  each task's loop, as the component theories define it from its first turn to its last, is shown to be a
  sequence of steps of \<open>process_step\<close>, so that what holds of every run of the steps, whatever comes between
  them, holds of the loops.
\<close>

section \<open>The accept loops\<close>

text \<open>What the endpoint's \<open>accept\<close> brings: a connection attempt that fails, or a peer and the streams it
  opens; \<open>None\<close> when the endpoint is closed.  The result are the tasks started, in order.\<close>

datatype Incoming = IncomingFailed | IncomingConn NodeId "RecvStream list"

fun run_accept_loop :: "Incoming option list \<Rightarrow> (NodeId \<times> RecvStream list) list" where
  "run_accept_loop [] = []"
| "run_accept_loop (None # ins) = []"
| "run_accept_loop (Some IncomingFailed # ins) = run_accept_loop ins"
| "run_accept_loop (Some (IncomingConn remote streams) # ins) = (remote, streams) # run_accept_loop ins"

text \<open>The socket file: a stale one is removed, binding needs the path to be free, and the file is made
  private when its permissions can be set.\<close>

definition bind_socket :: "'o host_scheme \<Rightarrow> bool \<Rightarrow> fsys \<Rightarrow> bool \<times> fsys" where
  "bind_socket os can_chmod f =
     (let sock_path = daemon_sock_path os; f1 = snd (unlink_if_exists os sock_path f) in
      if fs_exists sock_path f1 \<or> \<not> os_can_create os (path_key sock_path) then (False, f1)
      else (True, f1\<lparr>fs_files := (fs_files f1)(path_key sock_path \<mapsto> []),
                     fs_private := if can_chmod then insert (path_key sock_path) (fs_private f1)
                                   else fs_private f1 - {path_key sock_path}\<rparr>))"

text \<open>The server: nothing is served when the socket cannot be bound; an accept that fails (\<open>None\<close>) is
  passed over.\<close>

definition run_ipc_server :: "'o host_scheme \<Rightarrow> bool \<Rightarrow> RecvStream option list \<Rightarrow> fsys \<Rightarrow> RecvStream list \<times> fsys" where
  "run_ipc_server os can_chmod accepts f =
     (case bind_socket os can_chmod f of
        (False, f') \<Rightarrow> ([], f')
      | (True, f') \<Rightarrow> (List.map_filter id accepts, f'))"

text \<open>A socket left behind does not keep the server from binding; it touches no other file, its socket is
  private when permissions can be set, and shutting down removes it.\<close>

lemma bind_socket_effect:
  assumes "bind_socket os can_chmod f = (bound, f')"
  shows "k \<noteq> path_key (daemon_sock_path os) \<Longrightarrow> fs_files f' k = fs_files f k"
    "bound \<Longrightarrow> can_chmod \<Longrightarrow> path_key (daemon_sock_path os) \<in> fs_private f'"
    "os_can_create os (path_key (daemon_sock_path os)) \<Longrightarrow> os_can_remove os (path_key (daemon_sock_path os))
      \<Longrightarrow> path_key (daemon_sock_path os) \<notin> fs_paths f \<Longrightarrow> bound"
    "os_can_remove os (path_key (daemon_sock_path os)) \<Longrightarrow> fs_files (snd (daemon_stop os s f')) (path_key (daemon_sock_path os)) = None"
  using assms unlink_effect(2) [of os "daemon_sock_path os"]
  by (auto simp: bind_socket_def Let_def unlink_if_exists_def fs_exists_def daemon_stop_def split: if_splits)

section \<open>A drain is a run\<close>

definition after_pass :: "dm_error + unit \<Rightarrow> streams \<Rightarrow> Delivery" where
  "after_pass r st = (case r of Inr _ \<Rightarrow> \<lparr>dl_streams = st, dl_batch = []\<rparr> | Inl _ \<Rightarrow> no_delivery)"

lemma with_task_simps [simp]:
  "ps_state (with_task peer d s p) = s" "ps_tasks (with_task peer d s p) peer = d"
  "with_task peer d s (with_task peer d' s' p) = with_task peer d s p"
  by (simp_all add: with_task_def)

lemma with_task_same: "ps_state p = s \<Longrightarrow> ps_tasks p peer = d \<Longrightarrow> with_task peer d s p = p"
  by (auto simp: with_task_def)

lemma deliver_rows_run:
  assumes "surroundings c e" "deliver_rows c (en_world e) peer rows (st, ps_state p) = (r, (st', s'))"
    and "ps_tasks p peer = \<lparr>dl_streams = st, dl_batch = rows\<rparr>"
  shows "process_run c p (with_task peer (after_pass r st') s' p)"
  using assms(2,3)
proof (induction rows arbitrary: st p)
  case Nil
  then have "(with_task peer (after_pass r st') s' p) = p" by (auto simp: after_pass_def intro: with_task_same)
  then show ?case by (simp only: pr_refl)
next
  case (Cons row rows)
  obtain x st1 s1 where x: "deliver_row c (en_world e) peer row (st, ps_state p) = (x, (st1, s1))" by (metis surj_pair)
  have step: "process_step c Own p (deliver_next e peer row rows p)"
    by (rule ps_deliver [OF assms(1)]) (simp add: Cons.prems(2))
  have c: "en_crates e = c" using assms(1) by (simp add: surroundings_def)
  show ?case
  proof (cases x)
    case (Inl err)
    then have "deliver_next e peer row rows p = (with_task peer (after_pass r st') s' p)"
      using x Cons.prems by (auto simp: deliver_next_def c after_pass_def)
    with run_first [OF step pr_refl] show ?thesis by (simp only:)
  next
    case (Inr u)
    let ?q = "(with_task peer (\<lparr>dl_streams = st1, dl_batch = rows\<rparr>) s1 p)"
    have q: "deliver_next e peer row rows p = ?q" using x Inr Cons.prems(2) by (simp add: deliver_next_def c)
    have "process_run c ?q (with_task peer (after_pass r st') s' ?q)"
      using Cons.IH [of st1 ?q] x Inr Cons.prems(1) by simp
    with run_first [OF step] show ?thesis by (simp add: q)
  qed
qed

lemma pass_run:
  assumes "surroundings c e" "ps_tasks p peer = \<lparr>dl_streams = st, dl_batch = []\<rparr>"
    and q: "on_db (outbox_pending_for_peer (w_msg_plan (en_world e)) peer DELIVERY_BATCH) (ps_state p) = (q, s)"
  shows "q = Inl err \<Longrightarrow> process_run c p (with_task peer no_delivery s p)"
    and "q = Inr rows \<Longrightarrow> deliver_rows c (en_world e) peer rows (st, s) = (x, (st1, s1))
      \<Longrightarrow> process_run c p (with_task peer (after_pass x st1) s1 p)"
proof -
  have step: "process_step c Own p (fetch_batch e peer p)" by (rule ps_fetch [OF assms(1)]) (simp add: assms(2))
  show "process_run c p (with_task peer no_delivery s p)" if "q = Inl err"
    using run_first [OF step pr_refl] that q by (simp add: fetch_batch_def)
  assume d: "q = Inr rows" "deliver_rows c (en_world e) peer rows (st, s) = (x, (st1, s1))"
  let ?p = "with_task peer \<lparr>dl_streams = st, dl_batch = rows\<rparr> s p"
  have "fetch_batch e peer p = ?p" using q d(1) assms(2) by (simp add: fetch_batch_def)
  moreover have "process_run c ?p (with_task peer (after_pass x st1) s1 ?p)" by (rule deliver_rows_run [OF assms(1)]) (simp_all add: d(2))
  ultimately show "process_run c p (with_task peer (after_pass x st1) s1 p)" using run_first [OF step] by simp
qed

lemma drain_run:
  assumes "surroundings c e" "drain_peer c (en_world e) peer z = Some (r, (st', s'))"
    and "ps_state p = snd z" "ps_tasks p peer = \<lparr>dl_streams = fst z, dl_batch = []\<rparr>"
  shows "process_run c p (with_task peer (after_pass r st') s' p)"
proof -
  have "\<forall>(p :: process) r st' s'. y = (r, (st', s')) \<longrightarrow> w = en_world e \<longrightarrow> d = c \<longrightarrow> n = peer \<longrightarrow> ps_state p = snd z
      \<longrightarrow> ps_tasks p peer = \<lparr>dl_streams = fst z, dl_batch = []\<rparr> \<longrightarrow> process_run c p (with_task peer (after_pass r st') s' p)"
    if "drain_peer d w n z = Some y" for y d w n z
  proof (rule drain_peer.raw_induct [OF _ that], intro allI impI, goal_cases)
    case (1 drain d w n z y p r st' s')
    note IH = 1(1) and body = 1(2) and a = 1(3-8)
    obtain q s where q: "on_db (outbox_pending_for_peer (w_msg_plan (en_world e)) peer DELIVERY_BATCH) (ps_state p) = (q, s)" by fastforce
    note pass = pass_run [OF assms(1) a(6) q]
    show ?case
    proof (cases q)
      case (Inl err)
      with pass(1) body q a show ?thesis by (auto simp: after_pass_def)
    next
      case (Inr rows)
      obtain x st1 s1 where x: "deliver_rows c (en_world e) peer rows (fst z, s) = (x, (st1, s1))" by (metis surj_pair)
      note run = pass(2) [OF Inr x]
      show ?thesis
      proof (cases "rows = [] \<or> (\<exists>err. x = Inl err)")
        case True
        then have "(x, st1, s1) = (r, st', s')" using body q Inr x a by (auto split: if_splits)
        with run show ?thesis by simp
      next
        case False
        then obtain u where u: "x = Inr u" by (cases x) auto
        with False have "drain c (en_world e) peer (st1, s1) = Some (r, (st', s'))" using body q Inr x a by simp
        from IH [OF this, rule_format, of r st' s' "with_task peer (after_pass x st1) s1 p"]
        have "process_run c (with_task peer (after_pass x st1) s1 p) (with_task peer (after_pass r st') s' p)"
          by (simp add: after_pass_def u)
        from run_trans [OF this run] show ?thesis .
      qed
    qed
  qed
  with assms show ?thesis by blast
qed

lemma delivery_task_run:
  assumes "surroundings c e" "delivery_task c (en_world e) peer evs (st, ps_state p) = Some (stopped, (st', s'))"
    and "ps_tasks p peer = \<lparr>dl_streams = st, dl_batch = []\<rparr>"
  shows "process_run c p (with_task peer (if stopped then no_delivery else \<lparr>dl_streams = st', dl_batch = []\<rparr>) s' p)"
  using assms(2,3)
proof (induction evs arbitrary: st p)
  case Nil
  then obtain r st1 where d: "drain_peer c (en_world e) peer (st, ps_state p) = Some (r, (st1, s'))"
    and "st' = (case r of Inl _ \<Rightarrow> [] | Inr _ \<Rightarrow> st1)" "\<not> stopped" by (auto split: option.splits prod.splits)
  then have "after_pass r st1 = \<lparr>dl_streams = st', dl_batch = []\<rparr>" by (cases r) (simp_all add: after_pass_def no_delivery_def)
  with drain_run [OF assms(1) d, of p] Nil.prems(2) \<open>\<not> stopped\<close> show ?case by simp
next
  case (Cons ev evs)
  from Cons.prems(1) obtain r st1 s1 where d: "drain_peer c (en_world e) peer (st, ps_state p) = Some (r, (st1, s1))"
    by (auto split: option.splits prod.splits)
  let ?q = "with_task peer (after_pass r st1) s1 p" and ?st = "case r of Inl _ \<Rightarrow> [] | Inr _ \<Rightarrow> st1"
  have t: "after_pass r st1 = \<lparr>dl_streams = ?st, dl_batch = []\<rparr>" by (cases r) (simp_all add: after_pass_def no_delivery_def)
  have run: "process_run c p ?q" using drain_run [OF assms(1) d, of p] Cons.prems(2) by simp
  show ?case
  proof (cases "ev = WakersDropped \<or> ev = ShutdownSignal")
    case True
    with Cons.prems(1) d have "stopped" "s' = s1\<lparr>dm_wakers := AList.delete peer (dm_wakers s1)\<rparr>" by auto
    then have "end_delivery peer ?q = with_task peer (if stopped then no_delivery else \<lparr>dl_streams = st', dl_batch = []\<rparr>) s' p"
      by (simp add: end_delivery_def)
    with pr_step [OF run ps_end_delivery [of c _ peer]] show ?thesis by (simp only:)
  next
    case False
    with Cons.prems(1) d have "delivery_task c (en_world e) peer evs (?st, ps_state ?q) = Some (stopped, (st', s'))"
      by (simp add: Let_def)
    from Cons.IH [OF this] have "process_run c ?q (with_task peer (if stopped then no_delivery else \<lparr>dl_streams = st', dl_batch = []\<rparr>) s' p)"
      by (simp add: t)
    from run_trans [OF this run] show ?thesis .
  qed
qed

section \<open>A connection of a peer is a run\<close>

lemma accept_streams_run:
  assumes "surroundings c e" "accept_streams c (en_world e) remote streams (ps_state p) = (r, s')" "remote \<in> set (ps_conns p)"
  shows "process_run c p (p\<lparr>ps_state := s', ps_conns := (case r of Inl _ \<Rightarrow> remove1 remote (ps_conns p) | Inr _ \<Rightarrow> ps_conns p)\<rparr>)"
  using assms(2,3)
proof (induction streams arbitrary: p)
  case Nil
  then have "p\<lparr>ps_state := s', ps_conns := (case r of Inl _ \<Rightarrow> remove1 remote (ps_conns p) | Inr _ \<Rightarrow> ps_conns p)\<rparr> = p" by auto
  then show ?case by (simp only: pr_refl)
next
  case (Cons recv rs)
  obtain x t where x: "accept_streams c (en_world e) remote [recv] (ps_state p) = (x, t)" by fastforce
  have c: "en_crates e = c" using assms(1) by (simp add: surroundings_def)
  have step: "process_step c (Stream remote recv) p (take_stream e remote recv p)" by (rule ps_stream [OF assms(1) Cons.prems(2)])
  note all = Cons.prems(1) [unfolded accept_streams_Cons [of c _ remote recv rs] x]
  show ?case
  proof (cases x)
    case (Inl err)
    with all have "take_stream e remote recv p = p\<lparr>ps_state := s', ps_conns := (case r of Inl _ \<Rightarrow> remove1 remote (ps_conns p) | Inr _ \<Rightarrow> ps_conns p)\<rparr>"
      unfolding take_stream_def c x by auto
    with run_first [OF step pr_refl] show ?thesis by (simp only:)
  next
    case (Inr u)
    let ?q = "p\<lparr>ps_state := t\<rparr>"
    have q: "take_stream e remote recv p = ?q" unfolding take_stream_def c x by (simp add: Inr)
    have "accept_streams c (en_world e) remote rs (ps_state ?q) = (r, s')" using all Inr by simp
    note run_first [OF step [unfolded q] Cons.IH [OF this]]
    then show ?thesis using Cons.prems(2) by (cases r) simp_all
  qed
qed

lemma connection_run:
  assumes "surroundings c e" "wf_nodeid remote"
  shows "process_run c p (p\<lparr>ps_state := snd (handle_connection c (en_world e) remote streams (ps_state p))\<rparr>)"
proof (cases "require_peer_known remote (dm_db (ps_state p))")
  case (Inl err)
  then have "p\<lparr>ps_state := snd (handle_connection c (en_world e) remote streams (ps_state p))\<rparr> = p" by (simp add: handle_connection_def)
  then show ?thesis by (simp only: pr_refl)
next
  case (Inr u)
  obtain r t where a: "accept_streams c (en_world e) remote streams (ps_state p) = (r, t)" by fastforce
  let ?q = "p\<lparr>ps_conns := remote # ps_conns p\<rparr>"
  have step: "process_step c Own p ?q" using Inr by (intro ps_connect [OF assms(2)]) simp
  have "process_run c ?q (?q\<lparr>ps_state := t, ps_conns := (case r of Inl _ \<Rightarrow> remove1 remote (ps_conns ?q) | Inr _ \<Rightarrow> ps_conns ?q)\<rparr>)"
    by (rule accept_streams_run [OF assms(1), of _ streams]) (simp_all add: a)
  then have run: "process_run c p (p\<lparr>ps_state := t, ps_conns := (case r of Inl _ \<Rightarrow> ps_conns p | Inr _ \<Rightarrow> remote # ps_conns p)\<rparr>)"
    using run_first [OF step] by (cases r) simp_all
  show ?thesis
  proof (cases r)
    case (Inl err)
    with run show ?thesis by (simp add: handle_connection_def Inr a)
  next
    case (Inr v)
    have "close_conn remote (p\<lparr>ps_state := t, ps_conns := remote # ps_conns p\<rparr>)
        = p\<lparr>ps_state := snd (handle_connection c (en_world e) remote streams (ps_state p))\<rparr>"
      by (simp add: close_conn_def handle_connection_def \<open>require_peer_known _ _ = _\<close> a Inr)
    with pr_step [OF run ps_close [of c _ remote]] Inr show ?thesis by simp
  qed
qed

lemma connections_run:
  assumes "surroundings c e" "\<forall>conn\<in>set conns. wf_nodeid (fst conn)"
  shows "process_run c p (p\<lparr>ps_state := fold (\<lambda>(remote, streams) s. snd (handle_connection c (en_world e) remote streams s)) conns (ps_state p)\<rparr>)"
  using assms(2)
proof (induction conns arbitrary: p)
  case Nil
  then show ?case by (simp add: pr_refl)
next
  case (Cons conn conns)
  obtain remote streams where conn: "conn = (remote, streams)" by fastforce
  let ?q = "p\<lparr>ps_state := snd (handle_connection c (en_world e) remote streams (ps_state p))\<rparr>"
  have "process_run c p ?q" using Cons.prems by (intro connection_run [OF assms(1)]) (simp add: conn)
  moreover have "process_run c ?q (?q\<lparr>ps_state := fold (\<lambda>(remote, streams) s. snd (handle_connection c (en_world e) remote streams s)) conns (ps_state ?q)\<rparr>)"
    by (rule Cons.IH) (use Cons.prems in simp)
  ultimately show ?case using run_trans by (auto simp: conn)
qed

section \<open>A receiving task is a run\<close>

lemma fold_inbound_tasks:
  "dm_inbound_tasks (fold (inbound_frame c w remote nm ch) mfs s) = dm_inbound_tasks s"
proof (induction mfs arbitrary: s)
  case (Cons mf mfs)
  obtain r t where m: "on_db_at w (\<lambda>now. inbox_record c now remote ch (mf_seq mf) (mf_payload mf) (mf_ts_ms mf)) s = (r, t)"
    by fastforce
  then have "dm_inbound_tasks t = dm_inbound_tasks s" by (auto simp: on_db_at_def on_db_def Let_def split: prod.splits sum.splits)
  then have "dm_inbound_tasks (inbound_frame c w remote nm ch mf s) = dm_inbound_tasks s" by (simp add: inbound_frame_def m)
  with Cons show ?case by simp
qed simp

definition read_to :: "nat \<Rightarrow> nat \<Rightarrow> ipc_state \<Rightarrow> process \<Rightarrow> process" where
  "read_to j n s p = p\<lparr>ps_state := s, ps_read := (ps_read p)(j := n)\<rparr>"

lemma read_to_simps [simp]:
  "ps_state (read_to j n s p) = s" "ps_read (read_to j n s p) j = n" "read_to j n s (read_to j n' s' p) = read_to j n s p"
  by (simp_all add: read_to_def)

lemma frames_run:
  assumes "surroundings c e" "j < length (dm_inbound_tasks (ps_state p))" "t = dm_inbound_tasks (ps_state p) ! j"
    and "n \<le> length (frames_of c t)" "ps_read p j = 0"
  shows "process_run c p (read_to j n (fold (inbound_frame c (en_world e) (it_remote t) (it_from_name t) (it_channel t))
      (take n (frames_of c t)) (ps_state p)) p)"
  using assms(4)
proof (induction n)
  case 0
  have "read_to j 0 (ps_state p) p = p" using fun_upd_idem [of "ps_read p" j 0] assms(5) by (simp add: read_to_def)
  then show ?case by (simp add: pr_refl)
next
  case (Suc n)
  let ?f = "inbound_frame c (en_world e) (it_remote t) (it_from_name t) (it_channel t)"
  let ?q = "read_to j n (fold ?f (take n (frames_of c t)) (ps_state p)) p"
  have same: "dm_inbound_tasks (fold ?f mfs (ps_state p)) = dm_inbound_tasks (ps_state p)" for mfs
    by (rule fold_inbound_tasks)
  have step: "process_step c Own ?q (handle_frame e j ?q)"
    using Suc.prems assms(2) by (intro ps_frame [OF assms(1)]) (simp_all add: same assms(3) [symmetric])
  have "handle_frame e j ?q = read_to j (Suc n) (fold ?f (take (Suc n) (frames_of c t)) (ps_state p)) p"
    using Suc.prems assms(1)
    by (simp add: handle_frame_def Let_def surroundings_def take_Suc_conv_app_nth same assms(3) [symmetric])
      (simp add: read_to_def)
  with pr_step [OF Suc.IH step] Suc.prems show ?case by simp
qed

lemma inbound_run:
  assumes "surroundings c e" "j < length (dm_inbound_tasks (ps_state p))" "t = dm_inbound_tasks (ps_state p) ! j" "ps_read p j = 0"
  shows "process_run c p (read_to j (length (frames_of c t)) (inbound_task c (en_world e) t (ps_state p)) p)"
proof -
  let ?s = "fold (inbound_frame c (en_world e) (it_remote t) (it_from_name t) (it_channel t)) (frames_of c t) (ps_state p)"
  let ?q = "read_to j (length (frames_of c t)) ?s p"
  have run: "process_run c p ?q" using frames_run [OF assms(1-3) order_refl assms(4)] by simp
  have same: "dm_inbound_tasks ?s = dm_inbound_tasks (ps_state p)" by (rule fold_inbound_tasks)
  have "end_inbound j ?q = read_to j (length (frames_of c t)) (inbound_task c (en_world e) t (ps_state p)) p"
    by (simp add: end_inbound_def inbound_task_def Let_def same assms(3) [symmetric] frames_of_def [symmetric]) (simp add: read_to_def)
  with pr_step [OF run ps_end_inbound [of j]] same assms(2) show ?thesis by simp
qed

section \<open>A child's task is a run\<close>

text \<open>No effect on the bus touches the list of children's tasks.\<close>

interpretation tasks: bus_effects "\<lambda>s t. cx_tasks t = cx_tasks s" "\<lambda>_. True"
  by unfold_locales (auto simp: confined_def on_db_at_def on_db_def Let_def kill_child_def register_child_def forget_child_def
      split: prod.splits sum.splits option.splits)

lemma sup_step_run:
  assumes "surroundings c e" "(sv, h0) \<in> set (cx_tasks (ps_state p))"
    and "sup_step (en_json e) (en_world e) sv ready (l, h, ps_state p) = (going, (l', h', s'))"
  shows "process_run c p (p\<lparr>ps_state := s'\<rparr>)" "(sv, h0) \<in> set (cx_tasks s')"
proof -
  have "process_step c Own p (p\<lparr>ps_state := snd (snd (snd (sup_step (en_json e) (en_world e) sv ready (l, h, ps_state p))))\<rparr>)"
    by (rule ps_supervise [OF assms(1,2)])
  then show "process_run c p (p\<lparr>ps_state := s'\<rparr>)" using assms(3) by (auto intro: run_first pr_refl)
  have "cx_tasks s' = cx_tasks (ps_state p)"
    using tasks.sup_step_bound [where p = sv and s = "ps_state p" and j = "en_json e" and w = "en_world e" and ready = ready and l = l and h = h] by (simp add: assms(3))
  then show "(sv, h0) \<in> set (cx_tasks s')" using assms(2) by simp
qed

lemma sup_loop_run:
  assumes "surroundings c e" "(sv, h0) \<in> set (cx_tasks (ps_state p))"
    and "sup_loop (en_json e) (en_world e) sv readies (l, h, ps_state p) = (going, (l', h', s'))"
  shows "process_run c p (p\<lparr>ps_state := s'\<rparr>)"
  using assms(2,3)
proof (induction readies arbitrary: l h p)
  case Nil
  then have "p\<lparr>ps_state := s'\<rparr> = p" by simp
  then show ?case by (simp only: pr_refl)
next
  case (Cons ready readies)
  obtain g l1 h1 s1 where st: "sup_step (en_json e) (en_world e) sv ready (l, h, ps_state p) = (g, (l1, h1, s1))" by (metis surj_pair)
  note run = sup_step_run [OF assms(1) Cons.prems(1) st]
  show ?case
  proof (cases g)
    case True
    from Cons.IH [of "p\<lparr>ps_state := s1\<rparr>" l1 h1] run(2) Cons.prems(2) st True
    have "process_run c (p\<lparr>ps_state := s1\<rparr>) (p\<lparr>ps_state := s'\<rparr>)" by simp
    from run_trans [OF this run(1)] show ?thesis .
  qed (use run(1) Cons.prems(2) st in simp)
qed

lemma supervisor_task_run:
  assumes "surroundings c e" "(sv, h0) \<in> set (cx_tasks (ps_state p))"
    and "supervisor_run (en_json e) (en_world e) sv initial now readies (h, ps_state p) = (going, (l', h', s'))"
  shows "process_run c p (p\<lparr>ps_state := s'\<rparr>)"
proof -
  define l where "l = \<lparr>sl_turn_active = initial, sl_last_activity = now, sl_idle_notified = False\<rparr>"
  have "supervisor_run (en_json e) (en_world e) sv initial now readies (h, ps_state p)
      = sup_loop (en_json e) (en_world e) sv ((now, RdyBus) # readies) (l, h, ps_state p)"
    by (simp add: supervisor_run_def sup_step_def l_def Let_def)
  with sup_loop_run [OF assms(1,2)] assms(3) show ?thesis by metis
qed

section \<open>A connection of the socket is a run\<close>

lemma socket_run:
  assumes "surroundings c e" "\<And>b req. en_req_dec e b = Some req \<Longrightarrow> wf_request req \<and> addressed_request c req"
  shows "process_run c p (p\<lparr>ps_state := snd (handle_ipc_conn e tls rs (ps_state p))\<rparr>)"
proof -
  define R where "R = (\<lambda>s t. \<forall>p. process_run c (p\<lparr>ps_state := s\<rparr>) (p\<lparr>ps_state := t\<rparr>))"
  have one: "R s t" if "\<And>p. process_step c Own (p\<lparr>ps_state := s\<rparr>) (p\<lparr>ps_state := t\<rparr>)" for s t
    using that by (auto simp: R_def intro: run_first pr_refl)
  have "R (ps_state p) (snd (handle_ipc_conn e tls rs (ps_state p)))"
  proof (rule connection_bound)
    show "effect_bound R" by unfold_locales (auto simp: R_def intro: pr_refl run_trans)
    show "R s (snd (write_event ev s))" for ev s
    proof (cases "cx_room s = Some 0")
      case False
      then show ?thesis using ps_attend [of c "p\<lparr>ps_state := s\<rparr>" for p] by (intro one) (simp add: write_event_def)
    qed (simp add: write_event_def R_def pr_refl)
    show "R s (snd (serve e tls req s))" if "en_req_dec e b = Some req" for b req s
      using ps_request [OF assms(1), of req "p\<lparr>ps_state := s\<rparr>" tls for p] assms(2) [OF that] by (intro one) simp
  qed
  then show ?thesis unfolding R_def by (auto dest: spec [of _ p])
qed

section \<open>Properties\<close>

text \<open>
  C9 The daemon's loops are interleavings of turns.  A connection of the socket served to its end, the
  connections the accept loop starts handled one after another, a receiving task, a child's task and a
  peer's delivery task, each as the code runs its loop, are sequences of steps of the process; so
  whatever holds of every run of those steps, in any order, holds of them.  (Peers' ids have their length,
  and the socket's requests are well typed and add peers under the id their ticket names.)
\<close>

theorem loops_refine_turns:
  assumes "surroundings c e" and "\<forall>b req. en_req_dec e b = Some req \<longrightarrow> wf_request req \<and> addressed_request c req"
  shows "process_run c p (p\<lparr>ps_state := snd (handle_ipc_conn e tls rs (ps_state p))\<rparr>)
    \<and> ((\<forall>conn\<in>set (run_accept_loop ins). wf_nodeid (fst conn)) \<longrightarrow>
         process_run c p (p\<lparr>ps_state := fold (\<lambda>(remote, streams) s. snd (handle_connection c (en_world e) remote streams s))
                                       (run_accept_loop ins) (ps_state p)\<rparr>))
    \<and> (j < length (dm_inbound_tasks (ps_state p)) \<and> ps_read p j = 0 \<longrightarrow>
         process_run c p (read_to j (length (frames_of c (dm_inbound_tasks (ps_state p) ! j)))
                            (inbound_task c (en_world e) (dm_inbound_tasks (ps_state p) ! j) (ps_state p)) p))
    \<and> ((sv, h0) \<in> set (cx_tasks (ps_state p)) \<longrightarrow>
         process_run c p (p\<lparr>ps_state := snd (snd (snd (supervisor_run (en_json e) (en_world e) sv initial now readies (h, ps_state p))))\<rparr>))
    \<and> (\<forall>st stopped st' s'. ps_tasks p peer = \<lparr>dl_streams = st, dl_batch = []\<rparr>
         \<and> delivery_task c (en_world e) peer evs (st, ps_state p) = Some (stopped, (st', s')) \<longrightarrow>
         process_run c p (with_task peer (if stopped then no_delivery else \<lparr>dl_streams = st', dl_batch = []\<rparr>) s' p))"
proof (intro conjI impI allI)
  show "process_run c p (p\<lparr>ps_state := snd (handle_ipc_conn e tls rs (ps_state p))\<rparr>)"
    by (rule socket_run [OF assms(1)]) (use assms(2) in blast)
  show "process_run c p (p\<lparr>ps_state := snd (snd (snd (supervisor_run (en_json e) (en_world e) sv initial now readies (h, ps_state p))))\<rparr>)"
    if "(sv, h0) \<in> set (cx_tasks (ps_state p))"
  proof -
    obtain going l' h' s' where "supervisor_run (en_json e) (en_world e) sv initial now readies (h, ps_state p) = (going, (l', h', s'))"
      by (metis surj_pair)
    with supervisor_task_run [OF assms(1) that this] show ?thesis by simp
  qed
  show "process_run c p (with_task peer (if stopped then no_delivery else \<lparr>dl_streams = st', dl_batch = []\<rparr>) s' p)"
    if "ps_tasks p peer = \<lparr>dl_streams = st, dl_batch = []\<rparr>
      \<and> delivery_task c (en_world e) peer evs (st, ps_state p) = Some (stopped, (st', s'))" for st stopped st' s'
    using that delivery_task_run [OF assms(1)] by blast
qed (use connections_run [OF assms(1)] inbound_run [OF assms(1)] in simp_all)

lemma loops_refine_turns_witness:
  "process_run sample_crates (boot (replicate 32 1) empty_file sample_disk) (boot (replicate 32 1) empty_file sample_disk
     \<lparr>ps_state := snd (handle_ipc_conn sample_typed \<lparr>tl_recv = [], tl_agent = []\<rparr> \<lparr>rs_in = [0, 0, 0, 1, 7], rs_end = Finished\<rparr>
        (ps_state (boot (replicate 32 1) empty_file sample_disk)))\<rparr>)"
proof -
  have "\<forall>b req. en_req_dec sample_typed b = Some req \<longrightarrow> wf_request req \<and> addressed_request sample_crates req"
    by (simp add: sample_typed_def addressed_def)
  from loops_refine_turns [OF sample_surroundings this] show ?thesis by blast
qed

end
