(* ===== verification/Wt_Gateway.thy ===== *)
theory Wt_Gateway
  imports Wt_Web
begin

text \<open>
  The start of the web gateway, \<open>run_web_server\<close> of \<^verbatim>\<open>src/crates/wt-daemon/src/web.rs\<close>: which address it
  listens on.  The address is read by the standard library's parser of socket addresses, modelled here as
  it is written there: readers that either take a prefix of the text or leave it as it is.
\<close>

section \<open>Reading a socket address\<close>

type_synonym 'a reader = "string \<Rightarrow> ('a \<times> string) option"

definition to_digit :: "int \<Rightarrow> char \<Rightarrow> int option" where
  "to_digit radix ch =
     (let v = (of_char ch :: int);
          d = (if 48 \<le> v \<and> v \<le> 57 then v - 48 else if 97 \<le> v \<and> v \<le> 122 then v - 87 else if 65 \<le> v \<and> v \<le> 90 then v - 55 else 36)
      in if d < radix then Some d else None)"

fun read_digits :: "int \<Rightarrow> string \<Rightarrow> int list \<times> string" where
  "read_digits radix [] = ([], [])"
| "read_digits radix (ch # s) =
     (case to_digit radix ch of
        None \<Rightarrow> ([], ch # s)
      | Some d \<Rightarrow> (case read_digits radix s of (ds, rest) \<Rightarrow> (d # ds, rest)))"

definition digits_value :: "int \<Rightarrow> int list \<Rightarrow> int" where
  "digits_value radix = foldl (\<lambda>v d. v * radix + d) 0"

definition read_number :: "int \<Rightarrow> nat option \<Rightarrow> bool \<Rightarrow> int \<Rightarrow> int reader" where
  "read_number radix max_digits allow_zero_prefix bound s =
     (case read_digits radix s of
        (ds, rest) \<Rightarrow>
          if ds = [] then None
          else if (case max_digits of None \<Rightarrow> False | Some m \<Rightarrow> m < length ds) then None
          else if \<not> allow_zero_prefix \<and> hd ds = 0 \<and> 1 < length ds then None
          else if digits_value radix ds \<le> bound then Some (digits_value radix ds, rest) else None)"

definition read_given_char :: "char \<Rightarrow> unit reader" where
  "read_given_char ch s = (case s of [] \<Rightarrow> None | x # rest \<Rightarrow> if x = ch then Some ((), rest) else None)"

definition read_separator :: "char \<Rightarrow> bool \<Rightarrow> 'a reader \<Rightarrow> 'a reader" where
  "read_separator sep first inner s =
     (if first then inner s else (case read_given_char sep s of None \<Rightarrow> None | Some (_, rest) \<Rightarrow> inner rest))"

fun read_octets :: "nat \<Rightarrow> bool \<Rightarrow> int list reader" where
  "read_octets 0 first s = Some ([], s)"
| "read_octets (Suc n) first s =
     (case read_separator (CHR ''.'') first (read_number 10 (Some 3) False 255) s of
        None \<Rightarrow> None
      | Some (x, rest) \<Rightarrow> (case read_octets n False rest of None \<Rightarrow> None | Some (xs, rest') \<Rightarrow> Some (x # xs, rest')))"

definition read_ipv4_addr :: "u8 list reader" where
  "read_ipv4_addr s = map_option (\<lambda>(xs, rest). (map of_int xs, rest)) (read_octets 4 True s)"

definition pair_groups :: "u8 list \<Rightarrow> 16 word list" where
  "pair_groups ip =
     [of_int (uint (ip ! 0) * 256 + uint (ip ! 1)), of_int (uint (ip ! 2) * 256 + uint (ip ! 3))]"

text \<open>Up to \<open>n\<close> groups, the last two of which may be written as an IPv4 address; the flag says that they
  were.\<close>

fun read_groups :: "nat \<Rightarrow> bool \<Rightarrow> string \<Rightarrow> 16 word list \<times> bool \<times> string" where
  "read_groups 0 first s = ([], False, s)"
| "read_groups (Suc n) first s =
     (case (if 1 \<le> n then read_separator (CHR '':'') first read_ipv4_addr s else None) of
        Some (ip, rest) \<Rightarrow> (pair_groups ip, True, rest)
      | None \<Rightarrow>
          (case read_separator (CHR '':'') first (read_number 16 (Some 4) True 65535) s of
             None \<Rightarrow> ([], False, s)
           | Some (g, rest) \<Rightarrow> (case read_groups n False rest of (gs, v4, rest') \<Rightarrow> (of_int g # gs, v4, rest'))))"

definition read_ipv6_addr :: "16 word list reader" where
  "read_ipv6_addr s =
     (case read_groups 8 True s of
        (head, head_ipv4, rest) \<Rightarrow>
          if length head = 8 then Some (head, rest)
          else if head_ipv4 then None
          else (case read_given_char (CHR '':'') rest of
                  None \<Rightarrow> None
                | Some (_, rest1) \<Rightarrow>
                    (case read_given_char (CHR '':'') rest1 of
                       None \<Rightarrow> None
                     | Some (_, rest2) \<Rightarrow>
                         (case read_groups (8 - (length head + 1)) True rest2 of
                            (tail, _, rest3) \<Rightarrow> Some (head @ replicate (8 - length head - length tail) 0 @ tail, rest3)))))"

definition read_port :: "16 word reader" where
  "read_port s =
     (case read_given_char (CHR '':'') s of
        None \<Rightarrow> None
      | Some (_, rest) \<Rightarrow> map_option (\<lambda>(n, rest'). (of_int n, rest')) (read_number 10 None True 65535 rest))"

text \<open>A scope id is read and, the addresses of the model having none, dropped.\<close>

definition skip_scope_id :: "string \<Rightarrow> string" where
  "skip_scope_id s =
     (case read_given_char (CHR ''%'') s of
        None \<Rightarrow> s
      | Some (_, rest) \<Rightarrow> (case read_number 10 None True 4294967295 rest of None \<Rightarrow> s | Some (_, rest') \<Rightarrow> rest'))"

definition read_socket_addr_v4 :: "SocketAddr reader" where
  "read_socket_addr_v4 s =
     (case read_ipv4_addr s of
        None \<Rightarrow> None
      | Some (ip, rest) \<Rightarrow> map_option (\<lambda>(port, rest'). (V4 ip port, rest')) (read_port rest))"

definition read_socket_addr_v6 :: "SocketAddr reader" where
  "read_socket_addr_v6 s =
     (case read_given_char (CHR ''['') s of
        None \<Rightarrow> None
      | Some (_, rest) \<Rightarrow>
          (case read_ipv6_addr rest of
             None \<Rightarrow> None
           | Some (ip, rest1) \<Rightarrow>
               (case read_given_char (CHR '']'') (skip_scope_id rest1) of
                  None \<Rightarrow> None
                | Some (_, rest2) \<Rightarrow> map_option (\<lambda>(port, rest'). (V6 ip port, rest')) (read_port rest2))))"

definition parse_socket_addr :: "string \<Rightarrow> SocketAddr option" where
  "parse_socket_addr s =
     (case (case read_socket_addr_v4 s of Some r \<Rightarrow> Some r | None \<Rightarrow> read_socket_addr_v6 s) of
        Some (addr, []) \<Rightarrow> Some addr
      | _ \<Rightarrow> None)"

section \<open>The start of the gateway\<close>

definition DEFAULT_ADDR :: string where
  "DEFAULT_ADDR = ''127.0.0.1:8787''"

datatype Gateway = GatewayBadAddr string | GatewayNotBound SocketAddr | GatewayServing SocketAddr

text \<open>\<open>env\<close> is \<open>WT_WEB_ADDR\<close> when it is set to Unicode text, \<open>can_bind\<close> whether the listener can be bound.\<close>

definition run_web_server :: "string option \<Rightarrow> (SocketAddr \<Rightarrow> bool) \<Rightarrow> Gateway" where
  "run_web_server env can_bind =
     (let addr_str = (case env of Some s \<Rightarrow> s | None \<Rightarrow> DEFAULT_ADDR) in
      case parse_socket_addr addr_str of
        None \<Rightarrow> GatewayBadAddr addr_str
      | Some addr \<Rightarrow> if can_bind addr then GatewayServing addr else GatewayNotBound addr)"

definition is_loopback :: "SocketAddr \<Rightarrow> bool" where
  "is_loopback addr =
     (case addr of V4 ip port \<Rightarrow> ip \<noteq> [] \<and> hd ip = 127 | V6 ip port \<Rightarrow> ip = [0, 0, 0, 0, 0, 0, 0, 1])"

section \<open>Lemmas\<close>

lemma unat_small: "unat (x :: 'w :: len word) < 2 ^ LENGTH('w)"
  by (rule unsigned_less)

lemma to_digit_digit_char: "d < 10 \<Longrightarrow> to_digit 10 (digit_char d) = Some (int d)"
  by (simp add: to_digit_def of_char_digit_char)

lemma read_digits_decimal:
  assumes "\<forall>d\<in>set ds. d < 10" "rest = [] \<or> to_digit 10 (hd rest) = None"
  shows "read_digits 10 (map digit_char ds @ rest) = (map int ds, rest)"
proof -
  have "read_digits 10 rest = ([], rest)" using assms(2) by (cases rest) auto
  with assms(1) show ?thesis by (induction ds) (simp_all add: to_digit_digit_char)
qed

text \<open>The digits a number is printed with: no zero in front, and no more of them than the number needs.\<close>

lemma show_nat_digits:
  "\<exists>ds. show_nat n = map digit_char ds \<and> (\<forall>d\<in>set ds. d < 10) \<and> digits_value 10 (map int ds) = int n \<and> ds \<noteq> []
     \<and> (hd ds = 0 \<longrightarrow> n = 0 \<and> length ds = 1) \<and> (n < 1000 \<longrightarrow> length ds \<le> 3) \<and> (n < 100 \<longrightarrow> length ds \<le> 2) \<and> (n < 10 \<longrightarrow> length ds \<le> 1)"
proof (induction n rule: show_nat.induct)
  case (1 n)
  show ?case
  proof (cases "n < 10")
    case True
    then show ?thesis by (intro exI [of _ "[n]"]) (simp add: show_nat.simps [of n] digits_value_def)
  next
    case False
    with 1 obtain ds where ds: "show_nat (n div 10) = map digit_char ds" "\<forall>d\<in>set ds. d < 10" "digits_value 10 (map int ds) = int (n div 10)"
      "ds \<noteq> []" "hd ds = 0 \<longrightarrow> n div 10 = 0 \<and> length ds = 1" "n div 10 < 100 \<longrightarrow> length ds \<le> 2" "n div 10 < 10 \<longrightarrow> length ds \<le> 1"
      by auto
    have "int (n div 10) * 10 + int (n mod 10) = int n" by presburger
    then have "digits_value 10 (map int ds @ [int (n mod 10)]) = int n"
      using ds(3) by (simp add: digits_value_def)
    with ds False show ?thesis
      by (intro exI [of _ "ds @ [n mod 10]"]) (auto simp: show_nat.simps [of n])
  qed
qed

lemma read_shown_number:
  assumes "rest = [] \<or> to_digit 10 (hd rest) = None" "int n \<le> bound" "max_digits = None \<or> (max_digits = Some 3 \<and> n < 1000)"
  shows "read_number 10 max_digits z bound (show_nat n @ rest) = Some (int n, rest)"
proof -
  obtain ds where ds: "show_nat n = map digit_char ds" "\<forall>d\<in>set ds. d < 10" "digits_value 10 (map int ds) = int n" "ds \<noteq> []"
    "hd ds = 0 \<longrightarrow> n = 0 \<and> length ds = 1" "n < 1000 \<longrightarrow> length ds \<le> 3"
    using show_nat_digits [of n] by auto
  from read_digits_decimal [OF ds(2) assms(1)] ds assms(2,3) show ?thesis
    by (auto simp: read_number_def hd_map)
qed

section \<open>Properties\<close>

text \<open>The address as it is printed.\<close>

definition show_v4 :: "u8 \<Rightarrow> u8 \<Rightarrow> u8 \<Rightarrow> u8 \<Rightarrow> 16 word \<Rightarrow> string" where
  "show_v4 a b c d port =
     show_nat (unat a) @ ''.'' @ show_nat (unat b) @ ''.'' @ show_nat (unat c) @ ''.'' @ show_nat (unat d) @ '':'' @ show_nat (unat port)"

lemma parse_show_v4: "parse_socket_addr (show_v4 a b c d port) = Some (V4 [a, b, c, d] port)"
proof -
  have sep: "to_digit 10 (CHR ''.'') = None" "to_digit 10 (CHR '':'') = None" by (simp_all add: to_digit_def)
  have octet: "read_number 10 (Some 3) False 255 (show_nat (unat x) @ sep # rest) = Some (int (unat x), sep # rest)"
    if "to_digit 10 sep = None" for x :: u8 and sep rest
  proof (rule read_shown_number)
    have "unat x < 256" using unat_small [of x] by simp
    then show "int (unat x) \<le> 255" "Some (3 :: nat) = None \<or> Some (3 :: nat) = Some 3 \<and> unat x < 1000" by (linarith, simp)
  qed (simp add: that)
  have "read_octets 4 True (show_v4 a b c d port)
      = Some ([int (unat a), int (unat b), int (unat c), int (unat d)], '':'' @ show_nat (unat port))"
    using octet sep by (simp add: show_v4_def eval_nat_numeral read_separator_def read_given_char_def)
  moreover have "read_number 10 None True 65535 (show_nat (unat port)) = Some (int (unat port), [])"
  proof -
    have "unat port < 65536" using unat_small [of port] by simp
    then have "int (unat port) \<le> 65535" by linarith
    from read_shown_number [OF _ this, of "[]" None True] show ?thesis by simp
  qed
  ultimately show ?thesis
    by (simp add: parse_socket_addr_def read_socket_addr_v4_def read_ipv4_addr_def read_port_def read_given_char_def)
qed


end
