(* ===== verification/Wt_Files.thy ===== *)
theory Wt_Files
  imports Wt_Kept Wt_Sessions
begin

text \<open>
  Which files the daemon's requests touch.  All but two requests touch none: the relation \<open>quiet\<close>, an
  interpretation of \<open>request_effects\<close>, says so.  Launching and closing a session provision and tear down a
  workspace; as long as groups and sessions are named by single components of a path they stay below the
  directory of the sessions, so that no file of the install itself is ever touched (relation \<open>spares_files\<close>).
\<close>

section \<open>Requests that touch no file\<close>

definition workspaces :: "db \<Rightarrow> string list" where
  "workspaces d = map se_workspace_path (db_sessions d)"

definition quiet :: "ipc_state \<Rightarrow> ipc_state \<Rightarrow> bool" where
  "quiet s t \<longleftrightarrow> cx_fs t = cx_fs s \<and> workspaces (dm_db t) = workspaces (dm_db s)"

lemma on_db_files [simp]: "cx_fs (snd (on_db f s)) = cx_fs s" "cx_fs (snd (on_db_at w g s)) = cx_fs s"
  by (simp_all add: on_db_at_def on_db_def split: prod.splits sum.splits)

lemma quiet_on_db: "(\<And>d. workspaces (snd (f d)) = workspaces d) \<Longrightarrow> confined quiet (on_db f)"
  by (rule confinedI) (simp add: quiet_def)

lemma quiet_on_db_at: "(\<And>now d. workspaces (snd (f now d)) = workspaces d) \<Longrightarrow> confined quiet (on_db_at w f)"
  by (rule confinedI) (simp add: quiet_def)

lemma workspaces_writes [simp]:
  "workspaces (snd (session_close g n d)) = workspaces d" "workspaces (snd (agent_register arow d)) = workspaces d"
  "workspaces (snd (agent_set_status now g n st pid d)) = workspaces d" "workspaces (snd (agent_touch now g n d)) = workspaces d"
  "workspaces (snd (group_create now n d)) = workspaces d"
  by (auto simp: workspaces_def session_close_def agent_register_def agent_set_status_def agent_touch_def group_create_def
      call_def sql_update_def split: prod.splits)

lemma workspaces_others [simp]:
  "workspaces (snd (peer_add now n name addr d)) = workspaces d" "workspaces (snd (peer_remove sel d)) = workspaces d"
  "workspaces (snd (token_insert c trow d)) = workspaces d" "workspaces (snd (token_revoke ident d)) = workspaces d"
  "workspaces (snd (outbox_enqueue c now me p ch pl d)) = workspaces d"
  "workspaces (snd (agent_msg_enqueue now g sn f t k pl d)) = workspaces d"
  "workspaces (snd (agent_msg_mark_consumed now g sn sq d)) = workspaces d"
  by (simp_all add: workspaces_def)

lemma quiet_plain:
  "quiet s s" "quiet s t \<Longrightarrow> quiet t u \<Longrightarrow> quiet s u" "quiet s (s\<lparr>dm_agent_bcast := evs\<rparr>)" "quiet s (s\<lparr>dm_tick := i\<rparr>)"
  "quiet s (s\<lparr>dm_rands := i\<rparr>)" "quiet s (snd (kill_child g n s))" "quiet s (register_child g n task s)"
  "quiet s (forget_child g n s)" "quiet s (notify_peer peer s)" "quiet s (s\<lparr>cx_out := out, cx_room := room\<rparr>)"
  "quiet s (s\<lparr>cx_tasks := ts\<rparr>)"
  by (auto simp: quiet_def kill_child_def register_child_def forget_child_def notify_peer_def Let_def split: option.splits)

interpretation quiet: request_effects quiet c "\<lambda>_ _. True"
  by unfold_locales
    (auto intro: quiet_plain intro!: quiet_on_db quiet_on_db_at confinedD [OF quiet_on_db_at])

section \<open>Workspaces in their place\<close>

definition in_sessions :: "'o os_scheme \<Rightarrow> string \<Rightarrow> bool" where
  "in_sessions os p \<longleftrightarrow> plain_key (path_key p) \<and> under (path_key (sessions_dir os)) (path_key p)"

definition spares_files :: "'o os_scheme \<Rightarrow> ipc_state \<Rightarrow> ipc_state \<Rightarrow> bool" where
  "spares_files os s t \<longleftrightarrow>
     (list_all (in_sessions os) (workspaces (dm_db s)) \<longrightarrow>
        list_all (in_sessions os) (workspaces (dm_db t))
        \<and> (\<forall>x. \<not> under (path_key (sessions_dir os)) x \<longrightarrow> fs_files (cx_fs t) x = fs_files (cx_fs s) x))"

lemma quiet_spares: "quiet s t \<Longrightarrow> spares_files os s t"
  by (simp add: quiet_def spares_files_def)

lemma quiet_spared: "confined quiet m \<Longrightarrow> confined (spares_files os) m"
  by (auto simp: confined_def intro: quiet_spares)

lemma spares_trans: "spares_files os s t \<Longrightarrow> spares_files os t u \<Longrightarrow> spares_files os s u"
  by (simp add: spares_files_def)

interpretation spared_files: request_effects "spares_files os" c "\<lambda>_ _. True"
  by unfold_locales
    (auto intro: quiet_spares quiet_spared quiet_plain spares_trans quiet.set_status quiet.mark_consumed quiet.enqueue quiet.touch
      quiet.close quiet.agent_new quiet.peer_new quiet.peer_gone quiet.token_new quiet.token_off quiet.outgoing quiet.group_new)

section \<open>Launching and closing a session\<close>

lemma session_dir_in_sessions:
  assumes "plain_key (path_key (home os))" "plain_name g" "plain_name n"
  shows "in_sessions os (session_dir os g n)"
  using assms unfolding in_sessions_def session_key [OF assms(2,3)] sessions_key
  by (auto simp: plain_key_def plain_name_def under_def)

lemma under_trans:
  assumes "under a b" "under b x"
  shows "under a x"
proof -
  have "length (snd a) \<le> length (snd b)" using assms(1) by (metis length_take min.cobounded1 under_def)
  then have "take (length (snd a)) (take (length (snd b)) (snd x)) = take (length (snd a)) (snd x)" by (simp add: min_def)
  with assms show ?thesis by (simp add: under_def)
qed

lemma below_in_sessions: "in_sessions os p \<Longrightarrow> \<not> under (path_key (sessions_dir os)) x \<Longrightarrow> x \<notin> below (path_key p)"
  unfolding in_sessions_def below_def using under_trans by blast

lemma spares_fs:
  "(\<And>x. \<not> under (path_key (sessions_dir os)) x \<Longrightarrow> fs_files f x = fs_files (cx_fs s) x) \<Longrightarrow> spares_files os s (s\<lparr>cx_fs := f\<rparr>)"
  by (simp add: spares_files_def)

lemma discard_spares:
  assumes "git_laws (en_host e)" "in_sessions (en_host e) (ws_path ws)"
  shows "spares_files (en_host e) s (discard_ws e a ws s)"
  unfolding discard_ws_def
  by (intro spares_fs teardown_files [OF assms(1)] below_in_sessions [OF assms(2)]) (use assms(2) in \<open>simp add: in_sessions_def\<close>)

lemma launch_spares:
  assumes "git_laws (en_host e)" "in_sessions (en_host e) (ws_path ws)"
  shows "confined (spares_files (en_host e)) (launch e a ws token)"
proof (rule confinedI)
  fix s :: ipc_state
  obtain r t where st: "supervisor_start (en_json e) (en_world e) (en_proc e) (supervised_of a) (harness_spec e a ws token) s = (r, t)"
    by fastforce
  have t: "spares_files (en_host e) s t" using spared_files.supervisor_start_bound [OF TrueI] st by (metis snd_conv)
  have "spares_files (en_host e) t (discard_ws e a ws (mark_exited e a t))"
    unfolding mark_exited_def
    by (rule spares_trans [OF confinedD [OF spared_files.set_status [OF TrueI]] discard_spares [OF assms]])
  moreover have "spares_files (en_host e) t (t\<lparr>cx_tasks := ts\<rparr>)" for ts by (rule spared_files.tasks)
  ultimately show "spares_files (en_host e) s (snd (launch e a ws token s))"
    using spares_trans [OF t] st by (cases r) (simp_all add: launch_def Let_def)
qed

lemma rows_spare:
  assumes "git_laws (en_host e)" "in_sessions (en_host e) (ws_path ws)"
  shows "confined (spares_files (en_host e)) (spawn_rows e a ws token now)"
proof -
  have new: "confined (spares_files (en_host e)) (on_db (session_create (session_row a ws now)))"
    using assms(2)
    by (intro confinedI) (auto simp: spares_files_def workspaces_def session_create_def call_def sql_insert_or_ignore_def session_row_def)
  have fail: "confined (spares_files (en_host e)) (already_exists a)"
    unfolding already_exists_def by (rule spared_files.confined_return)
  have "spares_files (en_host e) s (discard_ws e a ws (mark_exited e a s))" for s
    unfolding mark_exited_def
    by (rule spares_trans [OF confinedD [OF spared_files.set_status [OF TrueI]] discard_spares [OF assms]])
  then show ?thesis
    unfolding spawn_rows_def
    by (auto intro!: spared_files.confined_and_then spared_files.spawn_db_bound spared_files.agent_new new launch_spares assms
        spared_files.confined_compose [OF fail] discard_spares)
qed

lemma spawn_spares:
  assumes "git_laws (en_host e)" "plain_key (path_key (home (en_host e)))" "plain_name (sa_group a)" "plain_name (sa_session a)"
  shows "confined (spares_files (en_host e)) (spawn_session e a)"
proof -
  let ?R = "spares_files (en_host e)" and ?ws = "session_dir (en_host e) (sa_group a) (sa_session a)"
  have ws: "in_sessions (en_host e) ?ws" by (rule session_dir_in_sessions [OF assms(2-4)])
  have path: "ws_path w = ?ws" if "provision_ws e a s = (Inr w, t)" for s w t
    using that
    by (auto simp: provision_ws_def provision_def provision_at_def provision_in_def
        split: prod.splits sum.splits if_splits option.splits bool.splits FsMode.splits git_outcome.splits)
  have prov: "?R s (snd (provision_ws e a s))" for s
  proof -
    have "?R s (s\<lparr>cx_fs := snd (provision (en_host e) (sa_group a) (sa_session a) (sa_base_dir a) (sa_fs_mode a) (cx_fs s))\<rparr>)"
      unfolding provision_def
      by (intro spares_fs provision_files [OF assms(1)] below_in_sessions [OF ws]) (use ws in \<open>simp add: in_sessions_def\<close>)
    then show ?thesis by (auto simp: provision_ws_def split: prod.splits sum.splits)
  qed
  have rest: "?R t (snd (and_then (spawn_db e (draw e 32)) (\<lambda>rnd. and_then (spawn_db e (unix_ms e)) (\<lambda>now.
      spawn_rows e a w (new_agent_token (en_crates e) rnd) now)) t))" if "ws_path w = ?ws" for w t
    using that ws
    by (intro confinedD [OF spared_files.confined_and_then] spared_files.confined_and_then spared_files.spawn_db_bound
        spared_files.draws_bound rows_spare [OF assms(1)]) simp
  have "confined ?R (and_then (provision_ws e a) (\<lambda>w. and_then (spawn_db e (draw e 32)) (\<lambda>rnd.
      and_then (spawn_db e (unix_ms e)) (\<lambda>now. spawn_rows e a w (new_agent_token (en_crates e) rnd) now))))"
    by (intro confinedI spared_files.bound_and_then [OF prov] rest path)
  moreover have "confined ?R (name_taken e a)"
    unfolding name_taken_def
    by (auto intro!: spared_files.confined_and_then spared_files.spawn_db_bound spared_files.reads_bound spared_files.confined_return)
  ultimately show ?thesis
    unfolding spawn_session_def already_exists_def by (auto intro!: spared_files.confined_and_then spared_files.confined_return)
qed

lemma close_spares:
  assumes "git_laws (en_host e)"
  shows "spares_files (en_host e) s (snd (ipc_session_close e token session discard s))"
  unfolding ipc_session_close_def
proof (rule spared_files.with_agent_bound, simp, goal_cases)
  case (1 me)
  let ?R = "spares_files (en_host e)"
  let ?closed = "\<lambda>sess s3. s3\<lparr>cx_fs := snd (teardown (en_host e) (se_workspace_path sess) (se_base_dir sess)
       (fs_mode_of (se_fs_mode sess)) (se_branch sess) discard (cx_fs s3))\<rparr>"
  have tail: "confined ?R (and_then (on_db (session_close (ag_group me) session)) (\<lambda>_ s3. write_event EvOk (?closed sess s3)))"
    if "in_sessions (en_host e) (se_workspace_path sess)" for sess
    using that
    by (intro spared_files.confined_and_then spared_files.close confinedI spared_files.bound_after [OF spared_files.write_event_bound]
        spares_fs teardown_files [OF assms] below_in_sessions [OF that]) (simp_all add: in_sessions_def)
  have row: "in_sessions (en_host e) (se_workspace_path sess)"
    if "on_db (session_get (ag_group me) session) t = (Inr (Some sess), u)" "list_all (in_sessions (en_host e)) (workspaces (dm_db t))" for t u sess
    using that by (auto simp: on_db_def session_get_def call_def sql_query_row_def workspaces_def list_all_iff
        find_Some_iff split: prod.splits sum.splits if_splits)
  show ?case
  proof (cases "ag_role me = ''prime''")
    case True
    show ?thesis unfolding True simp_thms if_False
    proof (rule confinedI, rule spared_files.bound_and_then [OF confinedD [OF spared_files.reads_bound(3)]], goal_cases)
      case (1 t found u)
      have "u = t" using 1 socket_reads(3) by (metis snd_conv)
      show ?case
      proof (cases found)
        case (Some sess)
        define v where "v = snd (on_db_at (en_world e) (\<lambda>now. agent_set_status now (ag_group me) (se_child_agent sess) ''exited'' None)
            (snd (kill_child (ag_group me) (se_child_agent sess) u)))"
        have "?R u v" unfolding v_def by (rule spared_files.stop_child_bound [OF TrueI])
        then have "?R u (snd (and_then (on_db (session_close (ag_group me) session)) (\<lambda>_ s3. write_event EvOk (?closed sess s3)) v))"
          if "in_sessions (en_host e) (se_workspace_path sess)"
          using that by (intro spared_files.bound_after [OF tail])
        moreover have "?R u x" if "\<not> list_all (in_sessions (en_host e)) (workspaces (dm_db u))" for x
          using that by (simp add: spares_files_def)
        ultimately show ?thesis using row [OF 1 [unfolded Some]] \<open>u = t\<close> by (simp add: Some Let_def v_def) blast
      qed (simp add: confinedD [OF spared_files.write_event_bound])
    qed
  qed (simp add: spared_files.write_event_bound)
qed

section \<open>Properties\<close>

text \<open>A request that launches a session names it and its group by single components.\<close>

fun plain_request :: "IpcRequest \<Rightarrow> bool" where
  "plain_request (ReqSpawn r) \<longleftrightarrow> plain_name (sp_group r) \<and> plain_name (sp_session r)"
| "plain_request _ \<longleftrightarrow> True"

lemma dispatch_spares:
  assumes "git_laws (en_host e)" "plain_key (path_key (home (en_host e)))" "typed_env e" "plain_request req"
  shows "spares_files (en_host e) s (snd (dispatch e tls req s))"
proof (cases "req_token req")
  case None
  moreover have "peer_request (\<lambda>_ _. True) req" by (cases req) auto
  ultimately show ?thesis using assms(3) by (intro spared_files.local_request_bound [where c = "en_crates e"]) simp_all
next
  case (Some token)
  have spawn: "spares_files (en_host e) s (snd (ipc_spawn e r s))" if "req = ReqSpawn r" for r
    unfolding ipc_spawn_def
  proof (rule spared_files.with_agent_bound, simp, rule confinedI, goal_cases)
    case (1 me t)
    have "spares_files (en_host e) t (snd (spawn_session e (spawn_args (ag_name me) r) t))"
      using assms(4) that by (intro confinedD [OF spawn_spares [OF assms(1,2)]]) (simp_all add: spawn_args_def)
    then show ?case
      using confinedD [OF spared_files.write_event_bound] by (auto intro: spares_trans split: prod.splits sum.splits)
  qed
  from Some show ?thesis
    by (cases req)
      (auto simp: dispatch_def spawn close_spares [OF assms(1)] intro: spared_files.kill_request_bound spared_files.bus_requests_bound)
qed



end
