(* ===== verification/Wt_Run.thy ===== *)
theory Wt_Run
  imports Wt_Serve Wt_Gateway Wt_Files
begin

text \<open>
  \<^verbatim>\<open>src/crates/wt-daemon/src/lib.rs\<close>: the daemon's \<open>run\<close>, from its start through the work of its tasks to the
  signal that ends it.  \<open>daemon_up\<close> is what \<open>run\<close> does before it waits: the start, the socket, the gateway
  and the deliveries left over from the last run.  While it waits its tasks work, in the order of any run of
  \<open>process_step\<close>.  \<open>daemon_down\<close> is what it does after the signal.
\<close>

section \<open>Up and down\<close>

record Running =
  rn_boot :: "daemon Started"
  rn_process :: process
  rn_bound :: bool
  rn_gateway :: Gateway

text \<open>The process at the start: the state on its files, the peers discovered so far, and a delivery task
  for every peer that has messages waiting.\<close>

definition first_process :: "env \<Rightarrow> daemon Started \<Rightarrow> db \<Rightarrow> fsys \<Rightarrow> process" where
  "first_process e st dbfile f =
     (let p = boot (dm_secret (sd_state st)) dbfile f in
      p\<lparr>ps_state := resume_delivery (en_world e)
          ((ps_state p)\<lparr>cx_lan := map_option (\<lambda>m. map snd (md_lan_peers m)) (sd_mdns st)\<rparr>)\<rparr>)"

text \<open>\<open>web_addr\<close> is \<open>WT_WEB_ADDR\<close>, \<open>can_bind\<close> whether an address can be listened on, \<open>can_chmod\<close> whether the
  permissions of the socket can be set.\<close>

definition daemon_up ::
  "env \<Rightarrow> string option \<Rightarrow> (SocketAddr \<Rightarrow> bool) \<Rightarrow> bool \<Rightarrow> u32 \<Rightarrow> bytes \<Rightarrow> db \<Rightarrow> fsys \<Rightarrow> (boot_error + Running) \<times> fsys" where
  "daemon_up e web_addr can_bind can_chmod pid rnd dbfile f =
     (case daemon_boot (en_crates e) (en_host e) pid rnd dbfile f of
        (Inl err, f1) \<Rightarrow> (Inl err, f1)
      | (Inr st, f1) \<Rightarrow>
          (case bind_socket (en_host e) can_chmod f1 of
             (bound, f2) \<Rightarrow>
               (Inr \<lparr>rn_boot = st, rn_process = first_process e st dbfile f2, rn_bound = bound,
                     rn_gateway = run_web_server web_addr can_bind\<rparr>, f2)))"

text \<open>After the signal, in whatever state the tasks left the process.\<close>

definition daemon_down :: "env \<Rightarrow> Running \<Rightarrow> ipc_state Started \<times> fsys" where
  "daemon_down e rn =
     daemon_stop (en_host e)
       \<lparr>sd_state = ps_state (rn_process rn), sd_sockets = sd_sockets (rn_boot rn), sd_open = sd_open (rn_boot rn),
        sd_mdns = sd_mdns (rn_boot rn), sd_waited = sd_waited (rn_boot rn)\<rparr>
       (cx_fs (ps_state (rn_process rn)))"

text \<open>The whole \<open>run\<close>: \<open>tasks\<close> is what the tasks make of the process by the time of the signal.\<close>

definition daemon_run ::
  "env \<Rightarrow> string option \<Rightarrow> (SocketAddr \<Rightarrow> bool) \<Rightarrow> bool \<Rightarrow> u32 \<Rightarrow> bytes \<Rightarrow> db \<Rightarrow> fsys \<Rightarrow> (process \<Rightarrow> process) \<Rightarrow> (boot_error + db) \<times> fsys" where
  "daemon_run e web_addr can_bind can_chmod pid rnd dbfile f tasks =
     (case daemon_up e web_addr can_bind can_chmod pid rnd dbfile f of
        (Inl err, f1) \<Rightarrow> (Inl err, f1)
      | (Inr rn, _) \<Rightarrow>
          (let q = tasks (rn_process rn)
           in (Inr (dm_db (ps_state q)), snd (daemon_down e (rn\<lparr>rn_process := q\<rparr>)))))"

text \<open>The handle for tests in the same process: the same start without the gateway.  Shutting it down stops the
  daemon and its tasks; dropping it only signals the delivery tasks and stops the others, and leaves the
  files as they are.\<close>

record TestHandle =
  th_state :: "ipc_state Started"
  th_ipc_task :: bool
  th_accept_task :: bool

definition start_for_test :: "env \<Rightarrow> bool \<Rightarrow> u32 \<Rightarrow> bytes \<Rightarrow> db \<Rightarrow> fsys \<Rightarrow> (boot_error + TestHandle) \<times> fsys" where
  "start_for_test e can_chmod pid rnd dbfile f =
     (case daemon_boot (en_crates e) (en_host e) pid rnd dbfile f of
        (Inl err, f1) \<Rightarrow> (Inl err, f1)
      | (Inr st, f1) \<Rightarrow>
          (let f2 = snd (bind_socket (en_host e) can_chmod f1)
           in (Inr \<lparr>th_state = \<lparr>sd_state = ps_state (first_process e st dbfile f2), sd_sockets = sd_sockets st, sd_open = sd_open st,
                                 sd_mdns = sd_mdns st, sd_waited = sd_waited st\<rparr>,
                     th_ipc_task = True, th_accept_task = True\<rparr>, f2)))"

definition test_shutdown :: "env \<Rightarrow> TestHandle \<Rightarrow> TestHandle \<times> fsys" where
  "test_shutdown e h =
     (case daemon_stop (en_host e) (th_state h) (cx_fs (sd_state (th_state h))) of
        (st, f) \<Rightarrow> (h\<lparr>th_state := st, th_ipc_task := False, th_accept_task := False\<rparr>, f))"

definition shutdown_signal :: "'z daemon_scheme \<Rightarrow> 'z daemon_scheme" where
  "shutdown_signal s = s\<lparr>dm_shutdown := True\<rparr>"

definition test_drop :: "TestHandle \<Rightarrow> TestHandle \<times> fsys" where
  "test_drop h =
     (h\<lparr>th_state := (th_state h)\<lparr>sd_state := shutdown_signal (sd_state (th_state h))\<rparr>, th_ipc_task := False, th_accept_task := False\<rparr>,
      cx_fs (sd_state (th_state h)))"

section \<open>Lemmas\<close>

text \<open>A test handle is the running daemon but for the gateway: it starts when the daemon does and leaves the
  same files when it is shut down.\<close>

lemma test_handle_runs:
  assumes "start_for_test e can_chmod pid rnd dbfile f = (Inr h, f1)"
  shows "\<exists>rn. daemon_up e web_addr can_bind can_chmod pid rnd dbfile f = (Inr rn, f1)
    \<and> sd_state (th_state h) = ps_state (rn_process rn) \<and> snd (test_shutdown e h) = snd (daemon_down e rn)
    \<and> sd_state (th_state (fst (test_shutdown e h))) = daemon_shutdown (ps_state (rn_process rn))"
  using assms
  by (auto simp: start_for_test_def daemon_up_def test_shutdown_def daemon_down_def daemon_stop_def Let_def split: prod.splits sum.splits)

text \<open>A start that succeeds has the key on disk, waited at most five seconds, and its pid file could be
  written.\<close>

lemma daemon_boot_ok:
  assumes "daemon_boot c os pid rnd dbfile f = (Inr st, f')" "length rnd = 32" "os_can_read os (path_key (secret_key_path os))"
  shows "\<exists>bs. fs_files f' (path_key (secret_key_path os)) = Some bs \<and> 32 \<le> length bs \<and> take 32 bs = dm_secret (sd_state st)"
    "os_can_create os (path_key (daemon_pid_path os))" "os_db_ok os"
    "\<exists>sockets. transport_bind os (dm_secret (sd_state st)) = Some sockets" "sd_waited st \<le> 5000"
    "\<exists>g. ensure_dirs os f = (True, g)"
proof -
  from assms(1) obtain f1 f2 f3 sk sockets where e: "ensure_dirs os f = (True, f1)"
    and l: "load_or_create c os rnd f2 = (Inr sk, f3)" and w: "write_pidfile os pid f3 = (True, f')"
    and b: "os_db_ok os" "transport_bind os sk = Some sockets"
    and st: "sd_state st = daemon_start sk dbfile" "sd_waited st = snd (wait_online 5000 (os_online os))"
    by (auto simp: daemon_boot_def split: prod.splits bool.splits sum.splits if_splits option.splits)
  have sk: "dm_secret (sd_state st) = sk" by (simp add: st daemon_start_def)
  have files: "fs_files f' (path_key (secret_key_path os)) = fs_files f3 (path_key (secret_key_path os))"
    using write_file_effect(1) [OF w [unfolded write_pidfile_def]] by (simp add: install_keys)
  show "\<exists>bs. fs_files f' (path_key (secret_key_path os)) = Some bs \<and> 32 \<le> length bs \<and> take 32 bs = dm_secret (sd_state st)"
    using load_or_create_stored [OF l assms(2)] files sk by simp
  show "os_can_create os (path_key (daemon_pid_path os))"
    using w by (simp add: write_pidfile_def write_file_def split: if_splits)
  show "sd_waited st \<le> 5000" by (simp add: st wait_online_def split: option.splits)
qed (use assms in \<open>auto simp: daemon_boot_def daemon_start_def split: prod.splits bool.splits sum.splits if_splits option.splits\<close>)

text \<open>Clearing away a dead daemon's files leaves the key, so a start uses the key that is on disk.\<close>

lemma no_other_daemon_key:
  assumes "ensure_no_other_daemon os f = (r, f')"
  shows "fs_files f' (path_key (secret_key_path os)) = fs_files f (path_key (secret_key_path os))"
proof -
  have "fs_files (snd (unlink_if_exists os p h)) (path_key (secret_key_path os)) = fs_files h (path_key (secret_key_path os))"
    if "path_key p \<noteq> path_key (secret_key_path os)" for p h
    using unlink_effect(1) [of os p h] that by auto
  with assms show ?thesis by (auto simp: ensure_no_other_daemon_def install_keys split: option.splits if_splits)
qed

lemma daemon_boot_key:
  assumes "daemon_boot c os pid rnd dbfile f = (Inr st, f')" "fs_files f (path_key (secret_key_path os)) = Some bs" "32 \<le> length bs"
    and "os_can_read os (path_key (secret_key_path os))"
  shows "dm_secret (sd_state st) = take 32 bs"
proof -
  from assms(1) obtain f1 f2 f3 sk u where e: "ensure_dirs os f = (True, f1)" "ensure_no_other_daemon os f1 = (Inr u, f2)"
    "load_or_create c os rnd f2 = (Inr sk, f3)" and st: "sd_state st = daemon_start sk dbfile"
    by (auto simp: daemon_boot_def split: prod.splits bool.splits sum.splits if_splits option.splits)
  have "fs_files f2 (path_key (secret_key_path os)) = Some bs"
    using no_other_daemon_key [OF e(2)] ensure_dirs_effect(1) [OF e(1)] assms(2) by simp
  from load_or_create_reads [OF this assms(3,4), of c rnd] e(3) st show ?thesis by (simp add: daemon_start_def)
qed

text \<open>A start on a disk that holds the key, and whose pid file names no running process, succeeds.\<close>

lemma daemon_boot_succeeds:
  assumes "ensure_dirs os f = (True, g)" "fs_files f (path_key (secret_key_path os)) = Some bs" "32 \<le> length bs"
    and "os_can_read os (path_key (secret_key_path os))" "recorded_pid os f = None"
    and "os_can_create os (path_key (daemon_pid_path os))" "path_key (daemon_pid_path os) \<notin> fs_paths g" "os_db_ok os"
    and "transport_bind os (take 32 bs) = Some sockets"
  shows "\<exists>st f'. daemon_boot c os pid rnd dbfile f = (Inr st, f') \<and> sd_state st = daemon_start (take 32 bs) dbfile
    \<and> sd_mdns st = start_mdns c (os_mdns os) (identity_nodeid c (take 32 bs)) sockets"
proof -
  let ?k = "path_key (secret_key_path os)"
  have g: "fs_files g = fs_files f" by (rule ensure_dirs_effect(1) [OF assms(1)])
  define f2 where "f2 = snd (unlink_if_exists os (daemon_sock_path os) (snd (unlink_if_exists os (daemon_pid_path os) g)))"
  have "recorded_pid os g = recorded_pid os f" by (simp add: recorded_pid_def read_file_def g)
  with assms(5) have n: "ensure_no_other_daemon os g = (Inr (), f2)" by (simp add: ensure_no_other_daemon_def f2_def)
  have unl: "fs_paths (snd (unlink_if_exists os p h)) = fs_paths h" for p h by (simp add: unlink_if_exists_def)
  have "fs_files f2 ?k = Some bs" using no_other_daemon_key [OF n] assms(2) by (simp add: g)
  from load_or_create_reads [OF this assms(3,4)] have l: "load_or_create c os rnd f2 = (Inr (take 32 bs), f2)" .
  have "path_key (daemon_pid_path os) \<notin> fs_paths f2" using assms(7) by (simp add: f2_def unl)
  with assms(6) have "\<exists>f4. write_pidfile os pid f2 = (True, f4)" by (simp add: write_pidfile_def write_file_def)
  with assms(1,8,9) n l show ?thesis by (auto simp: daemon_boot_def)
qed

text \<open>The directories of an install do not include its pid file.\<close>

lemma ensure_dirs_paths:
  assumes "ensure_dirs os f = (ok, g)" "length (snd k) = length (snd (path_key (home os))) + 2"
  shows "k \<in> fs_paths g \<longleftrightarrow> k \<in> fs_paths f"
proof -
  have step: "k \<in> fs_paths (snd (ensure_each os ds h)) \<longleftrightarrow> k \<in> fs_paths h"
    if "\<forall>d\<in>set ds. length (snd (path_key d)) < length (snd k)" for ds h
    using that
  proof (induction ds arbitrary: h)
    case (Cons d ds)
    have "k \<notin> ancestors (path_key d)" using ancestors_length [of k "path_key d"] Cons.prems by auto
    then show ?case using Cons by (auto simp: create_dir_all_def split: prod.splits bool.splits)
  qed simp
  have "\<forall>d\<in>{keys_dir os, data_dir os, run_dir os, logs_dir os, sessions_dir os}. length (snd (path_key d)) < length (snd k)"
    using assms(2) by (simp add: keys_dir_def data_dir_def run_dir_def logs_dir_def sessions_dir_def path_key_join)
  then show ?thesis using step [of "[keys_dir os, data_dir os, run_dir os, logs_dir os, sessions_dir os]" f] assms(1)
    by (simp add: ensure_dirs_def)
qed

lemma boot_again_ok:
  assumes "process_ok c me q" "blake3_laws c" "identity_nodeid c secret = me"
  shows "process_ok c me (boot secret (dm_db (ps_state q)) disk)"
proof -
  define q' where "q' = q\<lparr>ps_state := (ps_state q)\<lparr>dm_secret := secret, cx_fs := disk\<rparr>\<rparr>"
  have "process_ok c me q'" using assms(1,3) by (simp add: q'_def process_ok_def local_nodeid_def)
  from restart_sound [OF this assms(2)] have "process_ok c me (restart q')" by (simp add: sound_step_def)
  moreover have "dm_wires (ps_state (boot s d g)) = []" for s d g by (simp add: boot_def daemon_start_def daemon.defs)
  ultimately show ?thesis by (simp add: restart_def q'_def process_ok_def wires_ok_def boot_def)
qed

lemma first_process_ok:
  assumes "process_ok c me (boot (dm_secret (sd_state st)) dbfile f)" "blake3_laws c"
  shows "process_ok c me (first_process e st dbfile f)"
proof -
  let ?p = "boot (dm_secret (sd_state st)) dbfile f"
  have "served c True (ps_state ?p) ((ps_state ?p)\<lparr>cx_lan := lan\<rparr>)" for lan by (simp add: served_def sr_refl)
  from served_trans [OF this resume_served] show ?thesis
    using own_state_sound [OF assms] unfolding first_process_def Let_def sound_step_def by blast
qed

text \<open>What stopping leaves of the files the next start reads.\<close>

lemma daemon_down_files:
  assumes "os_can_remove (en_host e) (path_key (daemon_pid_path (en_host e)))"
  shows "recorded_pid (en_host e) (snd (daemon_down e rn)) = None"
    "fs_files (snd (daemon_down e rn)) (path_key (secret_key_path (en_host e)))
      = fs_files (cx_fs (ps_state (rn_process rn))) (path_key (secret_key_path (en_host e)))"
    "fs_paths (snd (daemon_down e rn)) = fs_paths (cx_fs (ps_state (rn_process rn)))"
proof -
  let ?os = "en_host e" and ?f = "cx_fs (ps_state (rn_process rn))"
  let ?h = "snd (unlink_if_exists ?os (daemon_pid_path ?os) ?f)"
  have pid: "fs_files ?h = (fs_files ?f)(path_key (daemon_pid_path ?os) := None)" by (rule unlink_effect(2) [OF assms])
  have sock: "fs_files (snd (unlink_if_exists ?os (daemon_sock_path ?os) ?h)) x = fs_files ?h x" if "x \<noteq> path_key (daemon_sock_path ?os)" for x
    using unlink_effect(1) [of ?os "daemon_sock_path ?os" ?h] that by auto
  show "recorded_pid ?os (snd (daemon_down e rn)) = None"
    using sock [of "path_key (daemon_pid_path ?os)"] pid
    by (simp add: daemon_down_def daemon_stop_def recorded_pid_def read_file_def install_keys)
  show "fs_files (snd (daemon_down e rn)) (path_key (secret_key_path ?os)) = fs_files ?f (path_key (secret_key_path ?os))"
    using sock [of "path_key (secret_key_path ?os)"] pid by (simp add: daemon_down_def daemon_stop_def install_keys)
  show "fs_paths (snd (daemon_down e rn)) = fs_paths ?f" by (simp add: daemon_down_def daemon_stop_def unlink_if_exists_def)
qed

lemma daemon_up_parts:
  assumes "daemon_up e web_addr can_bind can_chmod pid rnd dbfile f = (Inr rn, f1)"
  obtains g where "daemon_boot (en_crates e) (en_host e) pid rnd dbfile f = (Inr (rn_boot rn), g)"
    "rn_process rn = first_process e (rn_boot rn) dbfile f1"
    "fs_files f1 (path_key (secret_key_path (en_host e))) = fs_files g (path_key (secret_key_path (en_host e)))"
proof -
  from assms obtain g bound where g: "daemon_boot (en_crates e) (en_host e) pid rnd dbfile f = (Inr (rn_boot rn), g)"
    "bind_socket (en_host e) can_chmod g = (bound, f1)" "rn_process rn = first_process e (rn_boot rn) dbfile f1"
    by (auto simp: daemon_up_def split: prod.splits sum.splits)
  with bind_socket_effect(1) [OF g(2)] that show ?thesis by (simp add: install_keys)
qed

section \<open>Properties\<close>


lemma resume_files: "cx_fs (resume_delivery w (s :: ipc_state)) = cx_fs s"
proof -
  have "quiet s (fold notify_peer ps s)" for ps s by (rule quiet.bound_fold) (rule quiet.wake)
  moreover have "snd (on_db (outbox_pending_peers (w_msg_plan w)) s) = s"
    by (rule on_db_reads) (simp add: outbox_pending_peers_def call_def split: sum.splits)
  ultimately show ?thesis by (auto simp: resume_delivery_def quiet_def split: prod.splits sum.splits)
qed

lemma sample_up:
  "\<exists>rn f1. daemon_up sample_typed None (\<lambda>a. True) True 41 (replicate 32 7) empty_file
       (sample_disk\<lparr>fs_files := [path_key (secret_key_path sample_host) \<mapsto> replicate 32 1]\<rparr>) = (Inr rn, f1)
     \<and> dm_secret (sd_state (rn_boot rn)) = replicate 32 1 \<and> cx_fs (ps_state (rn_process rn)) = f1
     \<and> path_key (daemon_pid_path sample_host) \<notin> fs_paths f1"
proof -
  let ?f = "sample_disk\<lparr>fs_files := [path_key (secret_key_path sample_host) \<mapsto> replicate 32 1]\<rparr>"
  let ?pid = "path_key (daemon_pid_path sample_host)"
  have host: "en_host sample_typed = sample_host" by (simp add: sample_typed_def)
  define g where "g = snd (ensure_dirs sample_host ?f)"
  have g: "ensure_dirs sample_host ?f = (True, g)" by (simp add: g_def ensure_dirs_def create_dir_all_def)
  have np: "?pid \<notin> fs_paths g" using ensure_dirs_paths [OF g, of ?pid] by (simp add: install_keys sample_disk_def)
  have none: "recorded_pid sample_host ?f = None" by (simp add: recorded_pid_def read_file_def install_keys)
  obtain st h where st: "daemon_boot (en_crates sample_typed) sample_host 41 (replicate 32 7) empty_file ?f = (Inr st, h)"
    "sd_state st = daemon_start (replicate 32 1) empty_file"
    using daemon_boot_succeeds [OF g _ _ _ none _ np, where bs = "replicate 32 1" and sockets = "[V4 [0, 0, 0, 0] 4242]"
        and c = "en_crates sample_typed" and pid = 41 and rnd = "replicate 32 7" and dbfile = empty_file]
    by (auto simp: transport_bind_def)
  have gf: "fs_files g = fs_files ?f" by (rule ensure_dirs_effect(1) [OF g])
  have "fs_paths h = fs_paths g"
    using st(1) g gf
    by (auto simp: daemon_boot_def ensure_no_other_daemon_def recorded_pid_def read_file_def unlink_if_exists_def install_keys
        load_or_create_def fs_exists_def write_pidfile_def write_file_def split: prod.splits bool.splits sum.splits if_splits option.splits)
  obtain bound f1 where f1: "bind_socket sample_host True h = (bound, f1)" by fastforce
  then have "fs_paths f1 = fs_paths h" by (auto simp: bind_socket_def Let_def unlink_if_exists_def split: if_splits)
  with \<open>fs_paths h = fs_paths g\<close> np have "?pid \<notin> fs_paths f1" by simp
  moreover have "cx_fs (ps_state (first_process sample_typed st empty_file f1)) = f1"
    by (simp add: first_process_def Let_def resume_files) (simp add: boot_def daemon.defs)
  ultimately show ?thesis using st f1 by (simp add: daemon_up_def host daemon_start_def)
qed


end
