(* ===== verification/Wt_Client.thy ===== *)
theory Wt_Client
  imports Wt_Cli Wt_Run
begin

text \<open>
  The client's end of the socket in \<^verbatim>\<open>src/crates/wt-cli/src/main.rs\<close>, \<open>request_one\<close> and \<open>read_event\<close>, byte by
  byte.  \<^verbatim>\<open>Wt_Cli\<close> runs the commands against the daemon's handlers directly; here the bytes in between are put
  back, with the CBOR codec of requests and events as parameters, and shown to make no difference.
\<close>

section \<open>The client's end\<close>

datatype client_error = EncodeRequest | WriteRequest | ReadIpcLen | IpcFrameTooLarge | ReadIpcBody | DecodeEvent

definition request_one :: "(IpcRequest \<Rightarrow> bytes option) \<Rightarrow> SendStream \<Rightarrow> IpcRequest \<Rightarrow> (client_error + unit) \<times> SendStream" where
  "request_one enc stream req =
     (case enc req of
        None \<Rightarrow> (Inl EncodeRequest, stream)
      | Some buf \<Rightarrow>
          (case ipc_write_frame stream buf of
             (False, stream') \<Rightarrow> (Inl WriteRequest, stream')
           | (True, stream') \<Rightarrow> (Inr (), stream')))"

definition read_event :: "(bytes \<Rightarrow> IpcEvent option) \<Rightarrow> RecvStream \<Rightarrow> (client_error + IpcEvent) \<times> RecvStream" where
  "read_event dec stream =
     (case read_exact stream 4 of
        (Inl _, stream') \<Rightarrow> (Inl ReadIpcLen, stream')
      | (Inr len_buf, stream') \<Rightarrow>
          (let len = from_be_bytes len_buf in
           if len > 64 * 1024 * 1024 then (Inl IpcFrameTooLarge, stream')
           else (case read_exact stream' (unat len) of
                   (Inl _, stream'') \<Rightarrow> (Inl ReadIpcBody, stream'')
                 | (Inr body, stream'') \<Rightarrow>
                     (case dec body of None \<Rightarrow> (Inl DecodeEvent, stream'') | Some ev \<Rightarrow> (Inr ev, stream'')))))"

text \<open>The daemon's \<open>write_event\<close> on the stream, for the events of a conversation in order.\<close>

fun send_events :: "(IpcEvent \<Rightarrow> bytes option) \<Rightarrow> SendStream \<Rightarrow> IpcEvent list \<Rightarrow> bool \<times> SendStream" where
  "send_events enc stream [] = (True, stream)"
| "send_events enc stream (ev # evs) =
     (case enc ev of
        None \<Rightarrow> (False, stream)
      | Some buf \<Rightarrow>
          (case ipc_write_frame stream buf of
             (False, stream') \<Rightarrow> (False, stream')
           | (True, stream') \<Rightarrow> send_events enc stream' evs))"

lemma read_event_shorter: "read_event dec rs = (Inr ev, rs') \<Longrightarrow> length (rs_in rs') < length (rs_in rs)"
  by (auto simp: read_event_def read_exact_def Let_def split: if_splits prod.splits sum.splits StreamEnd.splits ReadExactError.splits option.splits)

text \<open>Reading events until one cannot be read.\<close>

function read_events :: "(bytes \<Rightarrow> IpcEvent option) \<Rightarrow> RecvStream \<Rightarrow> IpcEvent list \<times> client_error" where
  "read_events dec rs =
     (case read_event dec rs of
        (Inl e, _) \<Rightarrow> ([], e)
      | (Inr ev, rs') \<Rightarrow> (case read_events dec rs' of (evs, e) \<Rightarrow> (ev # evs, e)))"
  by pat_completeness auto
termination
  by (relation "measure (\<lambda>(dec, rs). length (rs_in rs))") (auto dest: read_event_shorter [OF sym])

declare read_events.simps [simp del]

section \<open>Running the daemon\<close>

text \<open>\<open>wt daemon\<close>, until the signal.\<close>

definition cmd_daemon ::
  "env \<Rightarrow> string option \<Rightarrow> (SocketAddr \<Rightarrow> bool) \<Rightarrow> bool \<Rightarrow> u32 \<Rightarrow> bytes \<Rightarrow> db \<Rightarrow> fsys \<Rightarrow> (process \<Rightarrow> process) \<Rightarrow> (cli_error + db) \<times> fsys" where
  "cmd_daemon e web_addr can_bind can_chmod pid rnd dbfile f tasks =
     (case daemon_run e web_addr can_bind can_chmod pid rnd dbfile f tasks of
        (Inl err, f') \<Rightarrow> (Inl (CliDaemon err), f')
      | (Inr d, f') \<Rightarrow> (Inr d, f'))"

section \<open>Lemmas\<close>

text \<open>After \<open>wt init\<close> the daemon runs with the key that \<open>wt init\<close> printed the node id of.\<close>

lemma init_then_daemon:
  assumes "cmd_init c h rnd f file = ((ls, Inr ()), f', file')"
    and "daemon_boot c h pid rnd' file' f' = (Inr st, f'')" "length rnd = 32" "os_can_read h (path_key (secret_key_path h))"
  shows "\<exists>sk. load_or_create c h rnd f = (Inr sk, f') \<and> dm_secret (sd_state st) = sk
    \<and> ls = [''initialized wt at '' @ home h, ''nodeid: '' @ nodeid_display c (identity_nodeid c sk)]"
proof -
  obtain sk where sk: "load_or_create c h rnd f = (Inr sk, f')"
    "ls = [''initialized wt at '' @ home h, ''nodeid: '' @ nodeid_display c (identity_nodeid c sk)]"
    using assms(1) by (auto simp: cmd_init_def split: prod.splits sum.splits if_splits)
  from load_or_create_stored [OF sk(1) assms(3)] daemon_boot_key [OF assms(2) _ _ assms(4)] sk show ?thesis by blast
qed

text \<open>What the codec does with a value: it has an encoding that fits a frame and decodes to the value.\<close>

definition codes :: "('a \<Rightarrow> bytes option) \<Rightarrow> (bytes \<Rightarrow> 'a option) \<Rightarrow> 'a \<Rightarrow> bool" where
  "codes enc dec x \<longleftrightarrow> (case enc x of None \<Rightarrow> False | Some buf \<Rightarrow> ipc_fits buf \<and> dec buf = Some x)"

lemma ipc_write_frame_free:
  "ipc_write_frame \<lparr>ss_out = out, ss_budget = None\<rparr> buf = (True, \<lparr>ss_out = out @ frame_bytes buf, ss_budget = None\<rparr>)"
  by (simp add: ipc_write_frame_def write_all_def frame_bytes_def)

lemma read_event_frame:
  assumes "ipc_fits buf" "dec buf = Some ev"
  shows "read_event dec \<lparr>rs_in = frame_bytes buf @ rest, rs_end = fin\<rparr> = (Inr ev, \<lparr>rs_in = rest, rs_end = fin\<rparr>)"
  using ipc_fits_len [OF assms(1)] assms(2)
  by (simp add: read_event_def read_exact_def frame_bytes_def Let_def MAX_IPC_FRAME_def)

lemma send_then_read:
  assumes "list_all (codes enc dec) evs"
  shows "\<exists>bs. send_events enc \<lparr>ss_out = out, ss_budget = None\<rparr> evs = (True, \<lparr>ss_out = out @ bs, ss_budget = None\<rparr>)
    \<and> read_events dec \<lparr>rs_in = bs, rs_end = fin\<rparr> = (evs, ReadIpcLen)"
  using assms
proof (induction evs arbitrary: out)
  case Nil
  have "read_event dec \<lparr>rs_in = [], rs_end = fin\<rparr> = (Inl ReadIpcLen, snd (read_event dec \<lparr>rs_in = [], rs_end = fin\<rparr>))"
    by (cases fin) (simp_all add: read_event_def read_exact_def)
  then show ?case by (subst read_events.simps) (auto split: prod.splits)
next
  case (Cons ev evs)
  then obtain buf where buf: "enc ev = Some buf" "ipc_fits buf" "dec buf = Some ev" by (auto simp: codes_def split: option.splits)
  from Cons.IH [of "out @ frame_bytes buf"] Cons.prems obtain bs where
    "send_events enc \<lparr>ss_out = out @ frame_bytes buf, ss_budget = None\<rparr> evs = (True, \<lparr>ss_out = (out @ frame_bytes buf) @ bs, ss_budget = None\<rparr>)"
    "read_events dec \<lparr>rs_in = bs, rs_end = fin\<rparr> = (evs, ReadIpcLen)" by auto
  then show ?case
    by (intro exI [of _ "frame_bytes buf @ bs"])
      (simp add: buf ipc_write_frame_free, subst read_events.simps, simp add: read_event_frame buf)
qed

section \<open>Properties\<close>

text \<open>
  C37 The bytes between a command and the daemon make no difference.  When a request encodes and decodes to
  itself, writing it on a fresh connection succeeds; the daemon, reading the bytes of the connection until the
  client goes away, does what it does with the request; and reading the frames of its answers, as long as
  each of them encodes and decodes to itself, the client gets exactly the answers with which the commands
  are run, in order, and then the end of the stream.
\<close>

theorem conversation_refines:
  assumes "codes enc (en_req_dec (ce_daemon c)) req"
    and "request c req s = (evs, s')" and "list_all (codes ev_enc ev_dec) evs"
  shows "\<exists>out r answer. request_one enc \<lparr>ss_out = [], ss_budget = None\<rparr> req = (Inr (), \<lparr>ss_out = out, ss_budget = None\<rparr>)
    \<and> handle_ipc_conn (ce_daemon c) (ce_tails c) \<lparr>rs_in = out, rs_end = Finished\<rparr> (s\<lparr>cx_out := [], cx_room := None\<rparr>) = (r, s')
    \<and> send_events ev_enc \<lparr>ss_out = [], ss_budget = None\<rparr> (cx_out s') = (True, \<lparr>ss_out = answer, ss_budget = None\<rparr>)
    \<and> read_events ev_dec \<lparr>rs_in = answer, rs_end = Finished\<rparr> = (evs, ReadIpcLen)"
proof -
  let ?e = "ce_daemon c" and ?t = "s\<lparr>cx_out := [], cx_room := None\<rparr>"
  obtain buf where buf: "enc req = Some buf" "ipc_fits buf" "en_req_dec ?e buf = Some req"
    using assms(1) by (auto simp: codes_def split: option.splits)
  have s': "s' = snd (serve ?e (ce_tails c) req ?t)" and evs: "cx_out s' = evs" using assms(2) by (auto simp: request_def Let_def)
  have fin: "handle_ipc_conn ?e (ce_tails c) \<lparr>rs_in = [], rs_end = Finished\<rparr> u = (Inr (), u)" for u
    by (subst handle_ipc_conn.simps) (simp add: ipc_read_frame_def read_exact_def)
  have "handle_ipc_conn ?e (ce_tails c) \<lparr>rs_in = frame_bytes buf, rs_end = Finished\<rparr> ?t = serve_frames ?e (ce_tails c) (Inr ()) [buf] ?t"
    using handle_conn_frames [OF _ fin, of "[buf]"] buf(2) by simp
  moreover have "snd (serve_frames ?e (ce_tails c) (Inr ()) [buf] ?t) = s'" by (simp add: buf(3) s' split: prod.splits sum.splits)
  ultimately obtain r where "handle_ipc_conn ?e (ce_tails c) \<lparr>rs_in = frame_bytes buf, rs_end = Finished\<rparr> ?t = (r, s')"
    by (metis prod.collapse)
  with send_then_read [OF assms(3), of "[]" Finished] show ?thesis
    by (auto simp: request_one_def buf(1) ipc_write_frame_free evs)
qed

lemma conversation_refines_witness:
  "\<exists>out r s' answer. request_one (\<lambda>q. Some [1]) \<lparr>ss_out = [], ss_budget = None\<rparr> ReqConnList = (Inr (), \<lparr>ss_out = out, ss_budget = None\<rparr>)
     \<and> handle_ipc_conn (sample_env\<lparr>en_req_dec := (\<lambda>b. Some ReqConnList)\<rparr>) sample_tails \<lparr>rs_in = out, rs_end = Finished\<rparr>
         ((sample_conn sample_db)\<lparr>cx_out := [], cx_room := None\<rparr>) = (r, s')
     \<and> send_events (\<lambda>ev. Some [2]) \<lparr>ss_out = [], ss_budget = None\<rparr> (cx_out s') = (True, \<lparr>ss_out = answer, ss_budget = None\<rparr>)
     \<and> read_events (\<lambda>b. Some EvConnListEnd) \<lparr>rs_in = answer, rs_end = Finished\<rparr> = ([EvConnListEnd], ReadIpcLen)"
proof -
  let ?c = "sample_cli\<lparr>ce_daemon := sample_env\<lparr>en_req_dec := (\<lambda>b. Some ReqConnList)\<rparr>, ce_tails := sample_tails\<rparr>"
  have fits: "ipc_fits [1]" "ipc_fits [2]" by (simp_all add: ipc_fits_def MAX_IPC_FRAME_def)
  have conns: "dm_conns (sample_conn sample_db) = []" by (simp add: sample_conn_def daemon.defs sample_daemon_def daemon_start_def)
  have "fst (request ?c ReqConnList (sample_conn sample_db)) = [EvConnListEnd]"
    by (simp add: request_def Let_def serve_def dispatch_def ipc_conn_list_def list_conns_def and_then_def write_event_reply reply_def conns)
  then have q: "request ?c ReqConnList (sample_conn sample_db) = ([EvConnListEnd], snd (request ?c ReqConnList (sample_conn sample_db)))"
    by (metis prod.collapse)
  have req: "codes (\<lambda>q. Some [1]) (en_req_dec (ce_daemon ?c)) ReqConnList" by (simp add: codes_def fits)
  have ans: "list_all (codes (\<lambda>ev. Some [2]) (\<lambda>b. Some EvConnListEnd)) [EvConnListEnd]" by (simp add: codes_def fits)
  from conversation_refines [OF req q ans] show ?thesis by simp blast
qed

end
