(* ===== verification/Wt_Transport.thy ===== *)
theory Wt_Transport
  imports Wt_Delivery Wt_Install
begin

text \<open>
  \<^verbatim>\<open>src/crates/wt-core/src/transport.rs\<close>: the addresses the daemon announces and dials.  The iroh library is
  the record \<open>iroh\<close> of the calls the code makes on addresses, with their documented behaviour in
  \<open>iroh_laws\<close>; connecting and opening a stream is the function \<open>connect_to\<close>, whose first argument counts
  the attempts.  Binding the endpoint is part of the daemon's start, in \<open>Wt_Install\<close>.
\<close>

section \<open>The library\<close>

record ('u, 'a) iroh =
  ir_public_key :: "bytes \<Rightarrow> bool"
  ir_parse_url :: "string \<Rightarrow> 'u option"
  ir_show_url :: "'u \<Rightarrow> string"
  ir_new :: "bytes \<Rightarrow> 'a"
  ir_with_relay :: "'u \<Rightarrow> 'a \<Rightarrow> 'a"
  ir_with_ip :: "SocketAddr \<Rightarrow> 'a \<Rightarrow> 'a"
  ir_id :: "'a \<Rightarrow> bytes"
  ir_relays :: "'a \<Rightarrow> 'u list"
  ir_ips :: "'a \<Rightarrow> SocketAddr list"

text \<open>An endpoint's address is a node id with a set of relays and a set of socket addresses; a relay's
  text parses back to the relay.\<close>

definition iroh_laws :: "('u, 'a) iroh \<Rightarrow> bool" where
  "iroh_laws ir \<longleftrightarrow>
     (\<forall>k. ir_id ir (ir_new ir k) = k \<and> ir_relays ir (ir_new ir k) = [] \<and> ir_ips ir (ir_new ir k) = [])
     \<and> (\<forall>u a. ir_id ir (ir_with_relay ir u a) = ir_id ir a \<and> ir_ips ir (ir_with_relay ir u a) = ir_ips ir a
          \<and> set (ir_relays ir (ir_with_relay ir u a)) = insert u (set (ir_relays ir a)))
     \<and> (\<forall>x a. ir_id ir (ir_with_ip ir x a) = ir_id ir a \<and> ir_relays ir (ir_with_ip ir x a) = ir_relays ir a
          \<and> set (ir_ips ir (ir_with_ip ir x a)) = insert x (set (ir_ips ir a)))
     \<and> (\<forall>u. ir_parse_url ir (ir_show_url ir u) = Some u)"

type_synonym 'a connector = "nat \<Rightarrow> 'a \<Rightarrow> bytes \<Rightarrow> SendStream option"

section \<open>Operations\<close>

definition local_ticket :: "('u, 'a) iroh \<Rightarrow> 'a \<Rightarrow> AddrTicket" where
  "local_ticket ir addr =
     \<lparr>tk_nodeid = NodeId (ir_id ir addr),
      relay_url = (case ir_relays ir addr of [] \<Rightarrow> None | u # _ \<Rightarrow> Some (ir_show_url ir u)),
      direct_addrs = ir_ips ir addr\<rparr>"

text \<open>A relay that does not parse is left out.\<close>

definition ticket_addr :: "('u, 'a) iroh \<Rightarrow> AddrTicket \<Rightarrow> 'a" where
  "ticket_addr ir ticket =
     (let addr0 = ir_new ir (nid (tk_nodeid ticket));
          addr1 = (case relay_url ticket of
                     None \<Rightarrow> addr0
                   | Some relay \<Rightarrow> (case ir_parse_url ir relay of None \<Rightarrow> addr0 | Some url \<Rightarrow> ir_with_relay ir url addr0))
      in fold (ir_with_ip ir) (direct_addrs ticket) addr1)"

datatype TransportError = BadPublicKey | ConnectFailed

definition connect_ticket :: "('u, 'a) iroh \<Rightarrow> 'a connector \<Rightarrow> nat \<Rightarrow> AddrTicket \<Rightarrow> TransportError + SendStream" where
  "connect_ticket ir connect_to i ticket =
     (if \<not> ir_public_key ir (nid (tk_nodeid ticket)) then Inl BadPublicKey
      else (case connect_to i (ticket_addr ir ticket) ALPN of None \<Rightarrow> Inl ConnectFailed | Some send \<Rightarrow> Inr send))"

definition connect :: "('u, 'a) iroh \<Rightarrow> 'a connector \<Rightarrow> nat \<Rightarrow> NodeId \<Rightarrow> TransportError + SendStream" where
  "connect ir connect_to i target =
     (if \<not> ir_public_key ir (nid target) then Inl BadPublicKey
      else (case connect_to i (ir_new ir (nid target)) ALPN of None \<Rightarrow> Inl ConnectFailed | Some send \<Rightarrow> Inr send))"

text \<open>The outcome of dialling a peer, as \<open>open_outbound_stream\<close> chooses between the two.\<close>

definition endpoint_dial ::
  "('u, 'a) iroh \<Rightarrow> 'a connector \<Rightarrow> nat \<Rightarrow> NodeId \<Rightarrow> AddrTicket option \<Rightarrow> SendStream option" where
  "endpoint_dial ir connect_to i target ticket =
     (case (case ticket of Some t \<Rightarrow> connect_ticket ir connect_to i t | None \<Rightarrow> connect ir connect_to i target) of
        Inl _ \<Rightarrow> None
      | Inr send \<Rightarrow> Some send)"

section \<open>Lemmas\<close>

lemma add_ips:
  assumes "iroh_laws ir"
  shows "ir_id ir (fold (ir_with_ip ir) xs a) = ir_id ir a" "ir_relays ir (fold (ir_with_ip ir) xs a) = ir_relays ir a"
    "set (ir_ips ir (fold (ir_with_ip ir) xs a)) = set xs \<union> set (ir_ips ir a)"
  using assms by (induction xs arbitrary: a) (auto simp: iroh_laws_def)

lemma ticket_addr_parts:
  assumes "iroh_laws ir"
  shows "ir_id ir (ticket_addr ir t) = nid (tk_nodeid t)" "set (ir_ips ir (ticket_addr ir t)) = set (direct_addrs t)"
    "set (ir_relays ir (ticket_addr ir t)) = set_option (Option.bind (relay_url t) (ir_parse_url ir))"
  using assms add_ips [OF assms]
  by (auto simp: ticket_addr_def Let_def iroh_laws_def split: option.splits)

text \<open>Whatever is dialled, it is the node of the ticket when there is one, and the target otherwise.\<close>

lemma endpoint_dial_id:
  assumes "iroh_laws ir" "endpoint_dial ir connect_to i target ticket = Some send"
  shows "\<exists>addr. connect_to i addr ALPN = Some send
    \<and> NodeId (ir_id ir addr) = (case ticket of Some t \<Rightarrow> tk_nodeid t | None \<Rightarrow> target)"
  using assms ticket_addr_parts(1) [OF assms(1)]
  by (auto simp: endpoint_dial_def connect_ticket_def connect_def iroh_laws_def split: option.splits sum.splits if_splits)

section \<open>Properties\<close>

text \<open>
  C28 A pasted ticket leads back to the install that printed it.  The text of an endpoint's ticket, with
  whatever white space a paste adds around it, decodes to a ticket whose address has the endpoint's node
  id, exactly its socket addresses and the first of its relays, and dialling it connects to that address
  under the protocol's name.
\<close>

theorem announced_ticket_dials:
  assumes "iroh_laws ir" and "cbor_laws c" and "base32_laws c" and "length (ir_id ir addr) = 32"
    and "ticket_encode c (local_ticket ir addr) = Inr str" and "list_all ascii_blank w1" and "list_all ascii_blank w2"
  shows "\<exists>t. ticket_decode c (w1 @ str @ w2) = Inr t
    \<and> ir_id ir (ticket_addr ir t) = ir_id ir addr \<and> set (ir_ips ir (ticket_addr ir t)) = set (ir_ips ir addr)
    \<and> set (ir_relays ir (ticket_addr ir t)) = set (take 1 (ir_relays ir addr))
    \<and> (ir_public_key ir (ir_id ir addr)
         \<longrightarrow> endpoint_dial ir connect_to i target (Some t) = connect_to i (ticket_addr ir t) ALPN)"
proof -
  let ?t = "local_ticket ir addr"
  have "ticket_decode c (w1 @ str @ w2) = Inr ?t"
    by (rule ticket_roundtrip_padded [OF assms(2,3) _ assms(5-7)]) (simp add: wf_nodeid_def local_ticket_def assms(4))
  moreover have "set (ir_relays ir (ticket_addr ir ?t)) = set (take 1 (ir_relays ir addr))"
    using assms(1) unfolding ticket_addr_parts(3) [OF assms(1)]
    by (auto simp: local_ticket_def iroh_laws_def split: list.splits)
  moreover have "endpoint_dial ir connect_to i target (Some ?t) = connect_to i (ticket_addr ir ?t) ALPN"
    if "ir_public_key ir (ir_id ir addr)"
    using that by (simp add: endpoint_dial_def connect_ticket_def local_ticket_def split: option.splits)
  ultimately show ?thesis
    using ticket_addr_parts(1,2) [OF assms(1), of ?t] by (intro exI [where x = ?t]) (simp add: local_ticket_def)
qed

text \<open>Addresses as triples, and a codec for tickets with one relay and one socket address.\<close>

definition sample_iroh :: "(string, bytes \<times> string list \<times> SocketAddr list) iroh" where
  "sample_iroh =
     \<lparr>ir_public_key = (\<lambda>k. length k = 32), ir_parse_url = (\<lambda>u. Some u), ir_show_url = (\<lambda>u. u), ir_new = (\<lambda>k. (k, [], [])),
      ir_with_relay = (\<lambda>u (k, us, xs). (k, us @ [u], xs)), ir_with_ip = (\<lambda>x (k, us, xs). (k, us, xs @ [x])),
      ir_id = fst, ir_relays = (\<lambda>a. fst (snd a)), ir_ips = (\<lambda>a. snd (snd a))\<rparr>"

lemma sample_iroh_laws: "iroh_laws sample_iroh"
  by (auto simp: iroh_laws_def sample_iroh_def)

definition sample_home :: SocketAddr where
  "sample_home = V4 [127, 0, 0, 1] 4242"

definition sample_codec :: crates where
  "sample_codec = sample_crates
     \<lparr>ticket_enc := (\<lambda>t. if relay_url t = Some ''https://relay'' \<and> direct_addrs t = [sample_home]
                          then Some (nid (tk_nodeid t)) else None),
      ticket_dec := (\<lambda>b. Some \<lparr>tk_nodeid = NodeId b, relay_url = Some ''https://relay'', direct_addrs = [sample_home]\<rparr>)\<rparr>"

lemma sample_codec_laws: "cbor_laws sample_codec" "base32_laws sample_codec"
proof -
  have "ticket_dec sample_codec b = Some x" if "ticket_enc sample_codec x = Some b" for x b
    using that by (cases x) (auto simp: sample_codec_def split: if_splits)
  with sample_cbor show "cbor_laws sample_codec" by (simp add: cbor_laws_def) (simp add: sample_codec_def)
  show "base32_laws sample_codec" using sample_base32 by (simp add: base32_laws_def sample_codec_def)
qed

lemma announced_ticket_dials_witness:
  "\<exists>str t. ticket_encode sample_codec (local_ticket sample_iroh (replicate 32 3, [''https://relay'', ''https://other''], [sample_home])) = Inr str
    \<and> ticket_decode sample_codec ('' '' @ str @ [CHR 0x0A]) = Inr t
    \<and> endpoint_dial sample_iroh (\<lambda>i a alpn. if fst a = replicate 32 3 \<and> set (fst (snd a)) = {''https://relay''}
          then Some \<lparr>ss_out = [], ss_budget = None\<rparr> else None) 0 (sample_node 9) (Some t)
        = Some \<lparr>ss_out = [], ss_budget = None\<rparr>"
proof -
  let ?a = "(replicate 32 3, [''https://relay'', ''https://other''], [sample_home]) :: bytes \<times> string list \<times> SocketAddr list"
  define net where "net = (\<lambda>(i :: nat) (a :: bytes \<times> string list \<times> SocketAddr list) (alpn :: bytes).
    if fst a = replicate 32 3 \<and> set (fst (snd a)) = {''https://relay''} then Some \<lparr>ss_out = [], ss_budget = None\<rparr> else None)"
  have f: "ir_id sample_iroh = fst" "ir_relays sample_iroh = (\<lambda>a. fst (snd a))" "ir_public_key sample_iroh = (\<lambda>k. length k = 32)"
    by (simp_all add: sample_iroh_def)
  obtain str where s: "ticket_encode sample_codec (local_ticket sample_iroh ?a) = Inr str"
    by (simp add: ticket_encode_def sample_codec_def local_ticket_def sample_iroh_def)
  have w: "list_all ascii_blank '' ''" "list_all ascii_blank [CHR 0x0A]" by (simp_all add: ascii_blank_def ascii_ws_def)
  have "length (ir_id sample_iroh ?a) = 32" by (simp add: f)
  from announced_ticket_dials [OF sample_iroh_laws sample_codec_laws this s w, of net 0 "sample_node 9", unfolded f] obtain t where
    t: "ticket_decode sample_codec ('' '' @ str @ [CHR 0x0A]) = Inr t" "fst (ticket_addr sample_iroh t) = fst ?a"
      "set (fst (snd (ticket_addr sample_iroh t))) = set (take 1 (fst (snd ?a)))"
      "length (fst ?a) = 32 \<longrightarrow> endpoint_dial sample_iroh net 0 (sample_node 9) (Some t) = net 0 (ticket_addr sample_iroh t) ALPN"
    by blast
  have "endpoint_dial sample_iroh net 0 (sample_node 9) (Some t) = net 0 (ticket_addr sample_iroh t) ALPN" using t(4) by simp
  also have "\<dots> = Some \<lparr>ss_out = [], ss_budget = None\<rparr>" using t(2,3) by (simp add: net_def)
  finally show ?thesis using s t(1) unfolding net_def by blast
qed

end
