(* ===== verification/Spec2Isabelle.thy ===== *)
theory Spec2Isabelle
  imports Wt_Relay Wt_Network Wt_Client Wt_Transport
begin

text \<open>
  \<^bold>\<open>A verification development for \<open>wt\<close> (walkie-talkie).\<close>

  \<open>wt\<close> is a peer-to-peer messenger with a daemon per install, and a local orchestrator for coding agents.
  The workspace has four crates under \<^verbatim>\<open>src/crates\<close>:
    \<^item> \<^verbatim>\<open>wt-proto\<close>: the types of the wire and of the local socket;
    \<^item> \<^verbatim>\<open>wt-core\<close>: the SQLite store, capability tokens, framing, the harness driver, workspaces, the install's
      key and its directories;
    \<^item> \<^verbatim>\<open>wt-daemon\<close>: the daemon's state, delivery, the supervisor of child harnesses, the socket server, the
      web gateway and local discovery;
    \<^item> \<^verbatim>\<open>wt-cli\<close>: the \<open>wt\<close> command.
  A message travels as follows.  \<open>wt send\<close> makes a \<open>Send\<close> request on the socket; the daemon numbers the message
  in its outbox and wakes the delivery task of the peer; the task opens one stream per channel, announced with a
  capability token the peer once granted, and writes the pending messages as length-prefixed frames; the peer's
  daemon checks the token, records each frame in its inbox unless it is already there, and publishes the new ones
  to its subscribers.  A session works the same way between local agents: the prime of a group launches a child
  harness in a workspace of its own, and the supervisor carries turns between the bus and the child's pipes.

  \<^bold>\<open>Theories and the code they model.\<close>  Definitions keep the names of the functions they translate.
    \<^item> \<^verbatim>\<open>Wt_Prelude\<close>: integer casts, saturating and checked arithmetic, SQL over lists of rows (insert, upsert,
      update, order, limit, unordered results as a permutation \<open>is_plan\<close>), the locale \<open>unique_table\<close> for tables
      with a uniqueness constraint, the locale \<open>seq_log\<close> for logs numbered by \<open>MAX + 1\<close>, and the shared \<open>named_theorems\<close>.
    \<^item> \<^verbatim>\<open>Wt_Text\<close>: strings as UTF-8 bytes, decimal numbers, trimming, lossy decoding.
    \<^item> \<^verbatim>\<open>Wt_Proto\<close> (\<^verbatim>\<open>wt-proto\<close>): the record \<open>crates\<close> of third-party codecs and cryptography with the laws the
      code relies on (\<open>cbor_laws\<close>, \<open>ed25519_laws\<close>, \<open>blake3_laws\<close>, \<open>hex_laws\<close>, \<open>base32_laws\<close>), and every protocol type.
      \<^verbatim>\<open>Wt_Sample\<close> instantiates the record by computable functions and proves the laws for them, so no theorem
      about a lawful \<open>crates\<close> is vacuous.
    \<^item> \<^verbatim>\<open>Wt_Framing\<close> (\<^verbatim>\<open>framing.rs\<close>, \<^verbatim>\<open>services/msg.rs\<close>, \<^verbatim>\<open>ticket.rs\<close>): streams that end, break or refuse bytes at
      any point, frames, and the send and receive loops.
    \<^item> \<^verbatim>\<open>Wt_Store_Base\<close>, \<^verbatim>\<open>Wt_Registry\<close>, \<^verbatim>\<open>Wt_Mailbox\<close>, \<^verbatim>\<open>Wt_Orch\<close>, \<^verbatim>\<open>Wt_Bus\<close>, \<^verbatim>\<open>Wt_Store\<close> (\<^verbatim>\<open>store.rs\<close>): the record
      \<open>db\<close> of tables and its migrations; peers and tokens; outbox and inbox; groups, agents and sessions; the agent
      bus; and the invariant \<open>db_inv\<close> with the step relation \<open>store_step\<close> of all writing operations.
    \<^item> \<^verbatim>\<open>Wt_Auth\<close> (\<^verbatim>\<open>auth.rs\<close>): signing and verifying capability tokens, bearer tokens.
    \<^item> \<^verbatim>\<open>Wt_Daemon\<close> and \<^verbatim>\<open>Wt_Delivery\<close> (\<^verbatim>\<open>state.rs\<close>): the record \<open>daemon\<close>, incoming connections and frames, the bus,
      the table of children; outgoing streams, \<open>drain_peer\<close>, the delivery task and its wake-ups.
    \<^item> \<^verbatim>\<open>Wt_Harness\<close> (\<^verbatim>\<open>harness.rs\<close>) and \<^verbatim>\<open>Wt_Supervisor\<close> (\<^verbatim>\<open>supervisor.rs\<close>): a child's pipes and output lines; its
      supervisor as a loop over the arms of the \<open>select!\<close>.
    \<^item> \<^verbatim>\<open>Wt_Workspace\<close> (\<^verbatim>\<open>workspace.rs\<close>, \<^verbatim>\<open>paths.rs\<close>) and \<^verbatim>\<open>Wt_Install\<close> (\<^verbatim>\<open>identity.rs\<close>, start and stop of
      \<^verbatim>\<open>state.rs\<close>): a file-system model with files, directories, modes, branches and \<open>..\<close> in paths; provisioning; the key;
      the pid file; binding the endpoint and starting discovery.
    \<^item> \<^verbatim>\<open>Wt_Mdns\<close> (\<^verbatim>\<open>mdns.rs\<close>): the service announced and the browser's map.  \<^verbatim>\<open>Wt_Web\<close> and \<^verbatim>\<open>Wt_Gateway\<close> (\<^verbatim>\<open>web.rs\<close>): the
      handlers, and the address the gateway listens on with the standard parser of socket addresses.
    \<^item> \<^verbatim>\<open>Wt_Ipc\<close> (\<^verbatim>\<open>ipc.rs\<close>): the record \<open>ipc_state\<close> (the daemon extended by the client's side of the socket and the
      disk), one definition per request, \<open>dispatch\<close>, and the connection loop \<open>handle_ipc_conn\<close>.  \<^verbatim>\<open>Wt_Sessions\<close> proves what
      groups, launches, reads and connections do.
    \<^item> \<^verbatim>\<open>Wt_Effect\<close>, \<^verbatim>\<open>Wt_Requests\<close> and \<^verbatim>\<open>Wt_Local\<close>: what the operations may change, as locales over a relation between
      states: \<open>effect_bound\<close> (the relation is a preorder), extended by \<open>bus_effects\<close> (it allows the primitive effects of
      the bus and of children), that by \<open>connection_effects\<close> (and those of a connection that touch no file), and that by
      \<open>socket_effects\<close> (files and the rows of a launch) and \<open>request_effects\<close> (the writes of requests without a token).
      Every request is shown once to stay within such a relation.  \<^verbatim>\<open>Wt_Guard\<close> interprets them by \<open>spares\<close> (nothing of
      another group changes), \<^verbatim>\<open>Wt_Kept\<close> by \<open>served\<close> (the store takes its own steps, the message log only grows by rows of
      this install, nothing is put on the wire), \<^verbatim>\<open>Wt_Files\<close> by \<open>quiet\<close> (no file changes) and \<open>spares_files\<close> (none outside
      the directory of the sessions), \<^verbatim>\<open>Wt_Serve\<close> by the relation that keeps the list of children's tasks.
    \<^item> \<^verbatim>\<open>Wt_Wires\<close>, \<^verbatim>\<open>Wt_Process\<close>, \<^verbatim>\<open>Wt_Network\<close>, \<^verbatim>\<open>Wt_Serve\<close> (\<^verbatim>\<open>state.rs\<close>, \<^verbatim>\<open>wt-daemon/src/lib.rs\<close>): what may be on the
      streams an install has opened; one running install as the step relation \<open>process_step\<close> of all its tasks, with
      restarts; several installs on a network as the step relation \<open>net_step\<close>; and the accept loops and tasks of the code
      as runs of those steps.  \<^verbatim>\<open>Wt_Run\<close> puts the daemon's \<open>run\<close> together from the start, those steps and the shutdown.
    \<^item> \<^verbatim>\<open>Wt_Transport\<close> (\<^verbatim>\<open>transport.rs\<close>): tickets of an endpoint and the address that is dialled; iroh is the record \<open>iroh\<close>
      with \<open>iroh_laws\<close>.  \<open>endpoint_dial\<close> is the function that \<open>w_dial\<close> of the daemon's model stands for.
    \<^item> \<^verbatim>\<open>Wt_Cli\<close> (\<^verbatim>\<open>main.rs\<close>): every subcommand, run against \<open>dispatch\<close>.  \<^verbatim>\<open>Wt_Client\<close>: the client's end of the socket
      in bytes, which \<open>conversation_refines\<close> shows to make no difference to the commands, and \<open>wt daemon\<close>.
    \<^item> \<^verbatim>\<open>Wt_Relay\<close> and this theory: the path of a message from one install's socket to the other's subscribers.

  \<^bold>\<open>How state and effects are modelled.\<close>  An operation of the store maps a database to a result and a database; an
  operation of the daemon does the same with the record \<open>daemon\<close>.  Results are sums whose left side is an error type
  of the component, so each \<open>?\<close>, \<open>bail!\<close> and early return is a branch.  The clock, random bytes, dialling a peer and
  SQLite's choice among unordered rows are a \<open>world\<close> read at successive ticks, arbitrary in every theorem unless a
  hypothesis restricts it.  Machine integers are words, and SQLite's signed columns are reached through the casts the
  code has, so that large values behave as they do there.  Interleavings are explicit: the store's theorems quantify over
  all sequences of its operations, those on incoming messages over all sequences of frames, and the supervisor's over
  all sequences of ready arms.  The process model interleaves everything: a request or web call is one step; a delivery
  task yields after each query and each row, a connection after each stream, a receiving task after each frame, a
  supervisor after each ready arm; each step may see another clock, network and file system, a supervisor's local
  variables and the local peers discovered are arbitrary at each step, and the daemon may stop and start again on its
  files at any point.

  \<^bold>\<open>What the lemmas show.\<close>
    \<^item> The store: the invariant under all interleavings, fresh numbers, upserts, retention, consumption, at-most-once
      recording, migrations, reconciliation.
    \<^item> Tokens: exactly which are accepted, that a granted one works for its holder only, that revocation is final.
    \<^item> Streams: whatever part of a stream arrives, its frames are a prefix of what was sent and its end is classified.
    \<^item> Delivery: a drain terminates, never marks what it did not write, writes in order, and empties the outbox when
      the peer can be reached; a queued message always has a task that will look after it.
    \<^item> Sessions: turns reach the child once and in order, output is independent of how it is cut into reads, a finished
      turn is announced before the state changes, and a supervisor cleans up however it ends.
    \<^item> The socket: a connection refines the list of its requests, tokens confine their holders to their group, and requests
      without the right token are refused without effect.
    \<^item> Files: a workspace is made and removed as a whole; requests that use names of one path component touch no file outside
      the directory of the sessions (\<open>connection_spares_install\<close>); a session named \<open>../..\<close> erases the install
      (\<open>dotdot_spawn_erases\<close>).
    \<^item> A running install: from a first start, every state keeps \<open>process_ok\<close> (the store's invariant, an outbox of its own
      messages, nothing on any stream but frames of messages for the peer it was dialled to), and each loop of the code
      is a run of those steps; and a daemon that was stopped starts again with the same key (\<open>daemon_restarts\<close>).
    \<^item> Between installs: what an install has stored or shown as coming from another is a message the other has in its
      outbox for it, whatever is lost, repeated or sent by strangers (\<open>network_authentic\<close>); a ticket leads back to the
      install that printed it; and, end to end, \<open>message_relayed\<close> below.

  \<^bold>\<open>Bounds and fuel.\<close>  Every definition is total.  Loops over data are structural or carry a termination proof.
  \<open>drain_peer\<close>, which repeats until the outbox of the peer is empty, is a \<open>partial_function\<close> over options, and
  \<open>drain_never_loses\<close> proves that it returns.  Long-running loops (the supervisor, the live tails, discovery) are
  functions of the finite sequence of events they have received so far, which stands for any prefix of a run.

  \<^bold>\<open>Not modelled.\<close>  What only other libraries do: iroh's connections and relays beyond the calls the code makes, the parsing
  of arguments by clap and of HTTP requests by axum, CORS headers, the threads of the mDNS daemon.  Tracing, and what \<open>wt\<close>
  prints on standard error.  Signals are the point at which a run is cut.  Symbolic links, and the files in which \<open>git\<close>
  keeps a repository.  Requests are atomic: the store's calls inside one request are not interleaved with other tasks.  The
  tests in the sources are not modelled.
\<close>

section \<open>From one install to another\<close>

text \<open>The command line adds a peer with a ticket of its own, which is what a run of the process expects of requests.\<close>

lemma added_peer_addressed:
  assumes "cbor_laws c" "peer_address c str = Inr (n, blob)" "wf_nodeid n"
  shows "wf_request (ReqPeerAdd n name blob) \<and> addressed_request c (ReqPeerAdd n name blob)"
  using assms(2,3)
  by (auto simp: peer_address_def Let_def addressed_def bind_eq_Some_conv split: if_splits sum.splits option.splits
      dest: cbor_ticket [OF assms(1)])

text \<open>
  C2 A message that is sent arrives, once.  When the socket of a healthy install is asked to send to a
  stored peer, the request is answered \<open>Ok\<close>, and if delivery to that peer is possible the next
  pass of its delivery task succeeds and leaves the message on a stream of its channel; however the
  peer then gets the frames of that stream, even all of them twice over, its subscribers are told of
  the message with its payload, under a key that no other published message has.
\<close>

theorem message_relayed:
  fixes s :: ipc_state
  assumes "c = en_crates e" "w = en_world e" "me = local_nodeid c s"
    and "cbor_laws c" "blake3_laws c" "ed25519_laws c" "fresh_dials w" "is_plan (w_msg_plan w)"
    and "db_inv (dm_db s)" "cx_room s = None" "outbox_ours c me (dm_db s)"
    and "fst (peer_get (sel_to_bytes sel) (dm_db s)) = Inr (Some p)"
    and "next_seq (\<lambda>r. msg_scope r = (nid me, channel_id c ch)) m_seq (db_messages (dm_db s)) = Some sq"
    and "can_deliver c w (pr_nodeid p) (snd (dispatch e tls (ReqSend sel ch payload) s))"
    and "db_inv (dm_db t)" "((nid me, channel_id c ch), sq) \<notin> stored_keys t"
  shows "\<exists>s1 st s2 wr ys. dispatch e tls (ReqSend sel ch payload) s = (Inr (), s1) \<and> cx_out s1 = cx_out s @ [EvOk]
    \<and> drain_peer c w (pr_nodeid p) ([], s1) = Some (Inr (), (st, s2))
    \<and> wr \<in> set (dm_wires s2) \<and> wr_target wr = pr_nodeid p \<and> wr_channel wr = ch
    \<and> dm_recv_bcast (inbound_all c w' (arrivals c me nm ch wr @ arrivals c me nm ch wr) t) = dm_recv_bcast t @ map in_event ys
    \<and> distinct (map (in_key c) ys)
    \<and> (\<exists>y ts. y \<in> set ys \<and> in_key c y = ((nid me, channel_id c ch), sq) \<and> in_event y = EvRecvMsg me nm ch payload ts)"
proof -
  note a = assms(4-)
  obtain s1 now where s1: "dispatch e tls (ReqSend sel ch payload) s = (Inr (), s1)" "cx_out s1 = cx_out s @ [EvOk]"
    and d1: "dm_db s1 = snd (outbox_enqueue c now me (pr_nodeid p) ch payload (dm_db s))"
      "db_messages (dm_db s1) = db_messages (dm_db s) @ [sent_row c now me (pr_nodeid p) ch payload sq]"
    using send_stores [OF db_invD(1) [OF a(6)] a(7,9), of e ch sq tls payload] a(10) unfolding assms(1,3) by blast
  let ?r = "sent_row c now me (pr_nodeid p) ch payload sq"
  have wf: "wf_nodeid me" "wf_nodeid (pr_nodeid p)"
    using peer_get_wf [OF a(9)] wf_secret_laws [OF a(3), of "dm_secret s"] by (simp_all add: assms(3) local_nodeid_def wf_secret_def)
  have inv: "db_inv (dm_db s1)" unfolding d1(1) by (rule store_step_inv [OF st_outbox_enqueue [OF wf] a(2,6)])
  have ours: "outbox_ours c me (dm_db s1)" using a(8) by (simp add: outbox_ours_def ours_def own_row_def d1(2) sent_row_def)
  have pend: "?r \<in> set (pending_of (pr_nodeid p) s1)" by (simp add: pending_of_def d1(2) msg_pending_def sent_row_def)
  have can: "can_deliver c w (pr_nodeid p) s1" using a(11) by (simp add: s1(1))
  from drained_channel [OF a(1,4,5) inv can pend] obtain st s2 wr rs where
    dr: "drain_peer c w (pr_nodeid p) ([], s1) = Some (Inr (), (st, s2))" "wr \<in> set (dm_wires s2)"
      "wr_target wr = pr_nodeid p" "wr_channel wr = ch" "received c wr = map (\<lambda>r. frame_of (as_message r)) rs"
      "set rs = {x \<in> set (pending_of (pr_nodeid p) s1). m_channel x = ch}"
    by (auto simp: sent_row_def)
  let ?xs = "arrivals c me nm ch wr @ arrivals c me nm ch wr" and ?y = "\<lparr>in_remote = me, in_name = nm, in_channel = ch, in_frame = frame_of (as_message ?r)\<rparr>"
  have "?y \<in> set (first_new c (stored_keys t) ?xs)"
  proof (rule arrival_new [OF inv ours dr(5)])
    show "set rs \<subseteq> {x \<in> set (db_messages (dm_db s1)). m_direction x = 0 \<and> m_channel x = ch}"
      unfolding dr(6) by (auto simp: pending_of_def msg_pending_def)
    show "?r \<in> set rs" unfolding dr(6) using pend by (simp add: sent_row_def)
    show "((nid me, channel_id c ch), m_seq ?r) \<notin> stored_keys t" using a(13) by (simp add: sent_row_def)
  qed
  moreover have "in_key c ?y = ((nid me, channel_id c ch), sq)" "in_event ?y = EvRecvMsg me nm ch payload (as_u64 (as_i64 now))"
    using inv by (auto simp: d1(2) db_inv_def msg_rec_ok_def sent_row_def in_key_def frame_key_def in_event_def
        frame_of_def as_message_def as_i64_as_u64)
  ultimately have y: "\<exists>y ts. y \<in> set (first_new c (stored_keys t) ?xs) \<and> in_key c y = ((nid me, channel_id c ch), sq)
      \<and> in_event y = EvRecvMsg me nm ch payload ts" by blast
  have "dm_recv_bcast (inbound_all c w' ?xs t) = dm_recv_bcast t @ map in_event (first_new c (stored_keys t) ?xs)"
    using inbound_all_spec [OF a(2) _ a(12), of ?xs w'] wf by (simp add: arrivals_def)
  then show ?thesis using s1 dr(1-4) first_new_keys [of c "stored_keys t" ?xs] y
    by (intro exI [where x = s1] exI [where x = st] exI [where x = s2] exI [where x = wr]
        exI [where x = "first_new c (stored_keys t) ?xs"] conjI) simp_all
qed



lemma message_relayed_witness:
  "\<exists>s1 st s2 wr ts. dispatch sample_relay sample_tails sample_request (sample_conn sample_directory) = (Inr (), s1) \<and> cx_out s1 = [EvOk]
     \<and> drain_peer sample_crates sample_net (pr_nodeid sample_bob) ([], s1) = Some (Inr (), (st, s2)) \<and> wr \<in> set (dm_wires s2)
     \<and> EvRecvMsg (sample_node 1) None ''a'' [104, 105] ts \<in> set (dm_recv_bcast (inbound_all sample_crates sample_net
         (arrivals sample_crates (sample_node 1) None ''a'' wr @ arrivals sample_crates (sample_node 1) None ''a'' wr) sample_daemon))"
proof -
  let ?c = sample_crates and ?s = "sample_conn sample_directory" and ?a = "arrivals sample_crates (sample_node 1) None ''a''"
  have rest: "db_inv (dm_db ?s)" "cx_room ?s = None" "outbox_ours ?c (sample_node 1) (dm_db ?s)"
    "db_inv (dm_db sample_daemon)" "((nid (sample_node 1), channel_id ?c ''a''), 1) \<notin> stored_keys sample_daemon"
    using sample_directory_inv sample_db_inv by (simp_all add: outbox_ours_def ours_def stored_keys_def sample_daemon_def daemon_start_def)
  from message_relayed [OF sample_relay_parts sample_relay_me sample_cbor sample_blake3 sample_ed25519 sample_net_fresh rest(1-3)
      sample_bob_found sample_seq sample_sent_deliver [unfolded sample_request_def] rest(4,5), of sample_net None]
  obtain s1 st s2 wr ys y ts where r: "dispatch sample_relay sample_tails sample_request ?s = (Inr (), s1)"
      "cx_out s1 = cx_out ?s @ [EvOk]" "drain_peer ?c sample_net (pr_nodeid sample_bob) ([], s1) = Some (Inr (), (st, s2))"
      "wr \<in> set (dm_wires s2)"
      "dm_recv_bcast (inbound_all ?c sample_net (?a wr @ ?a wr) sample_daemon) = dm_recv_bcast sample_daemon @ map in_event ys"
      "y \<in> set ys" "in_event y = EvRecvMsg (sample_node 1) None ''a'' [104, 105] ts"
    unfolding sample_request_def by (elim exE conjE)
  then show ?thesis
    by (intro exI [where x = s1] exI [where x = st] exI [where x = s2] exI [where x = wr] exI [where x = ts])
      (auto intro: image_eqI [OF sym])
qed

end
